(* ===== verification/Prelude.thy ===== *)
theory Prelude
  imports Main "HOL-Library.Char_ord" "HOL-Library.List_Lexorder"
begin

text \<open>
  What every component of the model shares: strings as UTF-8 byte sequences with the operations of
  Rust's \<open>str\<close> the sources use (prefix and suffix tests, substring search, splitting, replacement,
  character boundaries), decimal and hexadecimal rendering, and generic facts on lists and options.
  A \<open>string\<close> is a list of bytes; a character of the source is a lead byte with its
  continuation bytes (\<open>utf8_chars\<close>), and \<open>length\<close> is Rust's \<open>str::len\<close>.
\<close>

named_theorems str_simps "facts on the string operations"

section \<open>Bytes and characters\<close>

abbreviation byte :: "char \<Rightarrow> nat" where
  "byte c \<equiv> of_char c"

definition is_cont :: "char \<Rightarrow> bool" where
  "is_cont c \<longleftrightarrow> 128 \<le> byte c \<and> byte c < 192"

function utf8_chars :: "string \<Rightarrow> string list" where
  "utf8_chars [] = []"
| "utf8_chars (b # s) = (b # takeWhile is_cont s) # utf8_chars (dropWhile is_cont s)"
  by pat_completeness auto
termination
  by (relation "measure length") (auto simp: le_imp_less_Suc length_dropWhile_le)

definition is_char_boundary :: "string \<Rightarrow> nat \<Rightarrow> bool" where
  "is_char_boundary s i \<longleftrightarrow> i = 0 \<or> i = length s \<or> (i < length s \<and> \<not> is_cont (s ! i))"

fun boundary_down :: "string \<Rightarrow> nat \<Rightarrow> nat" where
  "boundary_down s 0 = 0"
| "boundary_down s (Suc i) = (if is_char_boundary s (Suc i) then Suc i else boundary_down s i)"

text \<open>\<open>str::floor_char_boundary\<close>.\<close>

definition floor_char_boundary :: "string \<Rightarrow> nat \<Rightarrow> nat" where
  "floor_char_boundary s i = (if length s \<le> i then length s else boundary_down s i)"

lemma boundary_down_le: "boundary_down s i \<le> i"
  by (induction i) auto

lemma boundary_down_boundary: "is_char_boundary s (boundary_down s i)"
  by (induction i) (auto simp: is_char_boundary_def)

lemma floor_char_boundary_le: "floor_char_boundary s i \<le> i"
  by (simp add: floor_char_boundary_def boundary_down_le)

lemma floor_char_boundary_boundary: "is_char_boundary s (floor_char_boundary s i)"
  using boundary_down_boundary [of s i]
  by (auto simp: floor_char_boundary_def is_char_boundary_def)

lemma concat_utf8_chars [simp]: "concat (utf8_chars s) = s"
  by (induction s rule: utf8_chars.induct) simp_all

lemma utf8_chars_nonempty: "c \<in> set (utf8_chars s) \<Longrightarrow> c \<noteq> []"
  by (induction s rule: utf8_chars.induct) auto

lemma utf8_chars_ascii: "list_all (\<lambda>c. byte c < 128) s \<Longrightarrow> utf8_chars s = map (\<lambda>c. [c]) s"
proof (induction s)
  case Nil
  then show ?case by simp
next
  case (Cons b s)
  have "takeWhile is_cont s = [] \<and> dropWhile is_cont s = s"
    using Cons.prems by (cases s) (auto simp: is_cont_def)
  then show ?case using Cons by simp
qed

text \<open>The character classes the sources test on ASCII.\<close>

definition is_ascii_digit :: "char \<Rightarrow> bool" where
  "is_ascii_digit c \<longleftrightarrow> 48 \<le> byte c \<and> byte c \<le> 57"

definition is_ascii_upper :: "char \<Rightarrow> bool" where
  "is_ascii_upper c \<longleftrightarrow> 65 \<le> byte c \<and> byte c \<le> 90"

definition is_ascii_lower :: "char \<Rightarrow> bool" where
  "is_ascii_lower c \<longleftrightarrow> 97 \<le> byte c \<and> byte c \<le> 122"

definition is_ascii_alphanumeric :: "char \<Rightarrow> bool" where
  "is_ascii_alphanumeric c \<longleftrightarrow> is_ascii_digit c \<or> is_ascii_upper c \<or> is_ascii_lower c"

definition is_ascii_whitespace :: "char \<Rightarrow> bool" where
  "is_ascii_whitespace c \<longleftrightarrow> byte c \<in> {32, 9, 10, 12, 13}"

text \<open>\<open>char::is_whitespace\<close>, the Unicode White_Space property, on a character's bytes.\<close>

definition is_whitespace :: "string \<Rightarrow> bool" where
  "is_whitespace c \<longleftrightarrow> (case map byte c of
       [a] \<Rightarrow> a = 32 \<or> (9 \<le> a \<and> a \<le> (13::nat))
     | [a, b] \<Rightarrow> a = 194 \<and> (b = 133 \<or> b = 160)
     | [a, b, d] \<Rightarrow> (a = 225 \<and> b = 154 \<and> d = 128) \<or>
         (a = 226 \<and> b = 128 \<and> ((128 \<le> d \<and> d \<le> 138) \<or> d = 168 \<or> d = 169 \<or> d = 175)) \<or>
         (a = 226 \<and> b = 129 \<and> d = 159) \<or> (a = 227 \<and> b = 128 \<and> d = 128)
     | _ \<Rightarrow> False)"

text \<open>\<open>str::trim\<close> and \<open>str::split_whitespace\<close>.\<close>

definition trim_chars :: "string list \<Rightarrow> string list" where
  "trim_chars cs = rev (dropWhile is_whitespace (rev (dropWhile is_whitespace cs)))"

definition trim :: "string \<Rightarrow> string" where
  "trim s = concat (trim_chars (utf8_chars s))"

fun split_ws_chars :: "string \<Rightarrow> string list \<Rightarrow> string list" where
  "split_ws_chars cur [] = (if cur = [] then [] else [cur])"
| "split_ws_chars cur (c # cs) =
     (if is_whitespace c then (if cur = [] then split_ws_chars [] cs else cur # split_ws_chars [] cs)
      else split_ws_chars (cur @ c) cs)"

definition split_whitespace :: "string \<Rightarrow> string list" where
  "split_whitespace s = split_ws_chars [] (utf8_chars s)"

definition ascii_lower :: "char \<Rightarrow> char" where
  "ascii_lower c = (if is_ascii_upper c then char_of (byte c + 32) else c)"

definition to_ascii_lowercase :: "string \<Rightarrow> string" where
  "to_ascii_lowercase = map ascii_lower"

definition to_ascii_uppercase :: "string \<Rightarrow> string" where
  "to_ascii_uppercase = map (\<lambda>c. if is_ascii_lower c then char_of (byte c - 32) else c)"

definition eq_ignore_ascii_case :: "string \<Rightarrow> string \<Rightarrow> bool" where
  "eq_ignore_ascii_case a b \<longleftrightarrow> to_ascii_lowercase a = to_ascii_lowercase b"

lemma eq_ignore_ascii_case_refl [simp]: "eq_ignore_ascii_case a a"
  by (simp add: eq_ignore_ascii_case_def)

lemma eq_ignore_ascii_case_sym: "eq_ignore_ascii_case a b \<Longrightarrow> eq_ignore_ascii_case b a"
  by (simp add: eq_ignore_ascii_case_def)

lemma eq_ignore_ascii_case_trans:
  "eq_ignore_ascii_case a b \<Longrightarrow> eq_ignore_ascii_case b c \<Longrightarrow> eq_ignore_ascii_case a c"
  by (simp add: eq_ignore_ascii_case_def)

section \<open>Prefixes, suffixes, substrings\<close>

fun strip_prefix :: "string \<Rightarrow> string \<Rightarrow> string option" where
  "strip_prefix [] s = Some s"
| "strip_prefix (p # ps) [] = None"
| "strip_prefix (p # ps) (c # s) = (if p = c then strip_prefix ps s else None)"

definition starts_with :: "string \<Rightarrow> string \<Rightarrow> bool" where
  "starts_with p s \<longleftrightarrow> strip_prefix p s \<noteq> None"

definition strip_suffix :: "string \<Rightarrow> string \<Rightarrow> string option" where
  "strip_suffix q s = map_option rev (strip_prefix (rev q) (rev s))"

definition ends_with :: "string \<Rightarrow> string \<Rightarrow> bool" where
  "ends_with q s \<longleftrightarrow> strip_suffix q s \<noteq> None"

lemma strip_prefix_Some: "strip_prefix p s = Some r \<longleftrightarrow> s = p @ r"
  by (induction p s rule: strip_prefix.induct) auto

lemma starts_with_append: "starts_with p s \<longleftrightarrow> (\<exists>r. s = p @ r)"
  by (auto simp: starts_with_def strip_prefix_Some)

lemma strip_suffix_Some: "strip_suffix q s = Some r \<longleftrightarrow> s = r @ q"
proof -
  have "strip_suffix q s = Some r \<longleftrightarrow> strip_prefix (rev q) (rev s) = Some (rev r)"
    by (auto simp: strip_suffix_def)
  also have "\<dots> \<longleftrightarrow> rev s = rev (r @ q)"
    by (simp add: strip_prefix_Some)
  finally show ?thesis
    by (simp only: rev_is_rev_conv)
qed

lemma strip_suffix_None: "strip_suffix q s = None \<longleftrightarrow> (\<forall>r. s \<noteq> r @ q)"
  by (metis not_None_eq strip_suffix_Some)

lemma starts_with_self [simp]: "starts_with p p"
  by (auto simp: starts_with_append)

lemma starts_with_trans: "starts_with p q \<Longrightarrow> starts_with q s \<Longrightarrow> starts_with p s"
  by (auto simp: starts_with_append)

fun find_str :: "string \<Rightarrow> string \<Rightarrow> nat option" where
  "find_str pat [] = (if pat = [] then Some 0 else None)"
| "find_str pat (c # s) =
     (if starts_with pat (c # s) then Some 0 else map_option Suc (find_str pat s))"

definition contains_str :: "string \<Rightarrow> string \<Rightarrow> bool" where
  "contains_str s pat \<longleftrightarrow> find_str pat s \<noteq> None"

lemma find_str_Some:
  "find_str pat s = Some i \<Longrightarrow> \<exists>r. s = take i s @ pat @ r \<and> i + length pat \<le> length s"
proof (induction s arbitrary: i)
  case Nil
  then show ?case by (auto split: if_splits)
next
  case (Cons c s)
  show ?case
  proof (cases "starts_with pat (c # s)")
    case True
    then obtain r where r: "c # s = pat @ r" by (auto simp: starts_with_append)
    from Cons.prems True have "i = 0" by simp
    with r show ?thesis by (simp only: r take_0 append_Nil) auto
  next
    case False
    with Cons.prems obtain j where j: "find_str pat s = Some j" "i = Suc j" by auto
    from Cons.IH [OF j(1)] j(2) show ?thesis by auto
  qed
qed

lemma find_str_None: "find_str pat s = None \<Longrightarrow> s \<noteq> a @ pat @ b"
proof (induction s arbitrary: a)
  case Nil
  then show ?case by (auto split: if_splits)
next
  case (Cons c s)
  then have no: "\<not> starts_with pat (c # s)" and IH: "\<And>a. s \<noteq> a @ pat @ b"
    by (auto split: if_splits)
  show ?case
  proof (cases a)
    case Nil
    with no show ?thesis by (auto simp: starts_with_append)
  next
    case (Cons d a')
    with IH [of a'] show ?thesis by auto
  qed
qed

lemma contains_str_iff: "contains_str s pat \<longleftrightarrow> (\<exists>a b. s = a @ pat @ b)"
  unfolding contains_str_def
  using find_str_Some [of pat s] find_str_None [of pat s] by (metis not_None_eq)

section \<open>Splitting, joining, replacing\<close>

text \<open>\<open>str::split\<close> on one ASCII character.\<close>

fun split_on :: "char \<Rightarrow> string \<Rightarrow> string list" where
  "split_on d [] = [[]]"
| "split_on d (c # s) =
     (if c = d then [] # split_on d s
      else (case split_on d s of [] \<Rightarrow> [[c]] | x # xs \<Rightarrow> (c # x) # xs))"

text \<open>\<open>str::split_once\<close> on one ASCII character.\<close>

fun split_once :: "char \<Rightarrow> string \<Rightarrow> (string \<times> string) option" where
  "split_once d [] = None"
| "split_once d (c # s) =
     (if c = d then Some ([], s) else map_option (\<lambda>(a, b). (c # a, b)) (split_once d s))"

fun join_with :: "string \<Rightarrow> string list \<Rightarrow> string" where
  "join_with sep [] = []"
| "join_with sep [x] = x"
| "join_with sep (x # y # xs) = x @ sep @ join_with sep (y # xs)"

text \<open>\<open>str::replace\<close>: non-overlapping occurrences from the left. The sources only replace
  non-empty patterns.\<close>

function replace_str :: "string \<Rightarrow> string \<Rightarrow> string \<Rightarrow> string" where
  "replace_str pat to [] = []"
| "replace_str pat to (c # s) =
     (if pat \<noteq> [] \<and> starts_with pat (c # s) then to @ replace_str pat to (drop (length pat) (c # s))
      else c # replace_str pat to s)"
  by pat_completeness auto
termination
  by (relation "measure (\<lambda>(pat, to, s). length s)") auto

text \<open>\<open>str::lines\<close>: terminated lines lose a trailing carriage return too.\<close>

definition strip_cr :: "string \<Rightarrow> string" where
  "strip_cr l = (case strip_suffix [CHR 0x0D] l of Some r \<Rightarrow> r | None \<Rightarrow> l)"

definition str_lines :: "string \<Rightarrow> string list" where
  "str_lines s =
     (let ps = split_on (CHR 0x0A) s in
      map strip_cr (butlast ps) @ (if last ps = [] then [] else [last ps]))"

lemma split_on_nonempty [simp]: "split_on d s \<noteq> []"
  by (induction s) (auto split: list.splits)

lemma split_on_no_sep: "x \<in> set (split_on d s) \<Longrightarrow> d \<notin> set x"
proof (induction s arbitrary: x)
  case Nil
  then show ?case by simp
next
  case (Cons c s)
  then show ?case
    by (cases "split_on d s") (auto split: if_splits)
qed

lemma length_split_on: "length (split_on d s) = Suc (count_list s d)"
proof (induction s)
  case Nil
  then show ?case by simp
next
  case (Cons c s)
  then show ?case
    by (cases "split_on d s") auto
qed

lemma split_once_Some: "split_once d s = Some (a, b) \<longleftrightarrow> s = a @ d # b \<and> d \<notin> set a"
proof (induction s arbitrary: a)
  case Nil
  then show ?case by simp
next
  case (Cons c s)
  then show ?case
    by (cases a) auto
qed

lemma split_once_None: "split_once d s = None \<longleftrightarrow> d \<notin> set s"
  by (induction s) auto

lemma replace_str_absent: "\<not> contains_str s pat \<Longrightarrow> replace_str pat to s = s"
proof (induction pat to s rule: replace_str.induct)
  case (1 pat to)
  then show ?case by simp
next
  case (2 pat to c s)
  have no: "\<not> starts_with pat (c # s)"
    using "2.prems" by (auto simp: contains_str_iff starts_with_append) (metis append_Nil)
  have "\<not> contains_str s pat"
    using "2.prems" by (auto simp: contains_str_iff) (metis append_Cons)
  with no "2.IH" show ?case by simp
qed

section \<open>Numbers in text\<close>

definition digit_char :: "nat \<Rightarrow> char" where
  "digit_char d = char_of (48 + d)"

fun show_nat :: "nat \<Rightarrow> string" where
  "show_nat n = (if n < 10 then [digit_char n] else show_nat (n div 10) @ [digit_char (n mod 10)])"

declare show_nat.simps [simp del]

definition hex_digit :: "nat \<Rightarrow> char" where
  "hex_digit d = (if d < 10 then char_of (48 + d) else char_of (87 + d))"

definition hex_digit_upper :: "nat \<Rightarrow> char" where
  "hex_digit_upper d = (if d < 10 then char_of (48 + d) else char_of (55 + d))"

definition digits_value :: "string \<Rightarrow> nat" where
  "digits_value s = foldl (\<lambda>v c. 10 * v + (byte c - 48)) 0 s"

definition all_digits :: "string \<Rightarrow> bool" where
  "all_digits s \<longleftrightarrow> s \<noteq> [] \<and> list_all is_ascii_digit s"

lemma byte_digit_char [simp]: "d < 10 \<Longrightarrow> byte (digit_char d) = 48 + d"
  by (simp add: digit_char_def)

lemma digits_value_snoc: "digits_value (s @ [c]) = 10 * digits_value s + (byte c - 48)"
  by (simp add: digits_value_def)

lemma digits_value_show_nat [simp]: "digits_value (show_nat n) = n"
proof (induction n rule: show_nat.induct)
  case (1 n)
  show ?case
  proof (cases "n < 10")
    case True
    then show ?thesis by (simp add: show_nat.simps [of n] digits_value_def)
  next
    case False
    with "1.IH" have "digits_value (show_nat n) = 10 * (n div 10) + n mod 10"
      by (simp add: show_nat.simps [of n] digits_value_snoc)
    then show ?thesis by simp
  qed
qed

lemma show_nat_inj [simp]: "show_nat m = show_nat n \<longleftrightarrow> m = n"
  by (metis digits_value_show_nat)

lemma show_nat_digits: "list_all is_ascii_digit (show_nat n)"
proof (induction n rule: show_nat.induct)
  case (1 n)
  show ?case
  proof (cases "n < 10")
    case True
    then show ?thesis by (simp add: show_nat.simps [of n] is_ascii_digit_def)
  next
    case False
    have "is_ascii_digit (digit_char (n mod 10))"
      by (simp add: is_ascii_digit_def)
    with False "1.IH" show ?thesis by (simp add: show_nat.simps [of n])
  qed
qed

lemma show_nat_nonempty [simp]: "show_nat n \<noteq> []"
  by (simp add: show_nat.simps [of n])

lemma length_show_nat_le: "n < 10 ^ k \<Longrightarrow> 0 < k \<Longrightarrow> length (show_nat n) \<le> k"
proof (induction k arbitrary: n)
  case 0
  then show ?case by simp
next
  case (Suc k)
  show ?case
  proof (cases "n < 10")
    case True
    then show ?thesis by (simp add: show_nat.simps [of n])
  next
    case False
    with Suc.prems have "n div 10 < 10 ^ k" and "0 < k"
      by (auto intro: Suc_leI gr0I)
    then have "length (show_nat (n div 10)) \<le> k" by (rule Suc.IH)
    with False show ?thesis by (simp add: show_nat.simps [of n])
  qed
qed

section \<open>Lists and options\<close>

text \<open>A fallible result is a sum: \<open>Inl\<close> the error, \<open>Inr\<close> the value.\<close>

abbreviation is_ok :: "'e + 'a \<Rightarrow> bool" where
  "is_ok r \<equiv> \<not> isl r"

text \<open>Association lists as the insertion-ordered maps of the model.\<close>

fun alist_put :: "'k \<Rightarrow> 'v \<Rightarrow> ('k \<times> 'v) list \<Rightarrow> ('k \<times> 'v) list" where
  "alist_put k v [] = [(k, v)]"
| "alist_put k v ((k', v') # m) = (if k = k' then (k, v) # m else (k', v') # alist_put k v m)"

lemma map_of_alist_put [simp]: "map_of (alist_put k v m) = (map_of m)(k \<mapsto> v)"
  by (induction k v m rule: alist_put.induct) (auto simp: fun_eq_iff)

lemma keys_alist_put:
  "map fst (alist_put k v m) = (if k \<in> set (map fst m) then map fst m else map fst m @ [k])"
  by (induction k v m rule: alist_put.induct) auto

lemma set_keys_alist_put [simp]: "fst ` set (alist_put k v m) = insert k (fst ` set m)"
  by (induction k v m rule: alist_put.induct) auto

lemma distinct_alist_put [simp]: "distinct (map fst m) \<Longrightarrow> distinct (map fst (alist_put k v m))"
  by (auto simp: keys_alist_put)

lemma length_alist_put:
  "length (alist_put k v m) = (if k \<in> fst ` set m then length m else Suc (length m))"
  by (induction k v m rule: alist_put.induct) auto

lemma distinct_filter_keys: "distinct (map fst m) \<Longrightarrow> distinct (map fst (filter P m))"
  by (induction m) auto

lemma map_of_filter_distinct:
  "distinct (map fst m) \<Longrightarrow>
    map_of (filter P m) k = (case map_of m k of None \<Rightarrow> None | Some v \<Rightarrow> if P (k, v) then Some v else None)"
  by (induction m) (auto split: option.splits simp: map_of_eq_None_iff dest: map_of_SomeD)

lemma option_bind_Some_iff: "Option.bind x f = Some y \<longleftrightarrow> (\<exists>a. x = Some a \<and> f a = Some y)"
  by (cases x) auto

end
