(* ===== verification/Json.thy ===== *)
theory Json
  imports Prelude
begin

text \<open>
  The JSON values the sources compute with: \<open>serde_json::Value\<close>, matched on by constructor all over
  the code, with the two features the build turns on (\<open>Cargo.toml\<close>). With \<open>preserve_order\<close> an object
  is an insertion-ordered map: inserting an existing key keeps its position, and \<open>Map::remove\<close> is
  a swap-remove, which moves the last entry into the freed position. With \<open>arbitrary_precision\<close> a
  number is its literal text. The text renderer \<open>serde_json::to_string\<close> and the parser
  \<open>serde_json::from_str\<close> are third-party code and stay parameters of the definitions that use them.
\<close>

datatype json =
    JNull
  | JBool bool
  | JNum string
  | JStr string
  | JArr "json list"
  | JObj "(string \<times> json) list"

type_synonym jmap = "(string \<times> json) list"

lemma json_obj_size [termination_simp]:
  "(k, v) \<in> set m \<Longrightarrow> size v < Suc (size_list (size_prod (\<lambda>_. 0) size) m)"
  by (induction m) auto

lemma json_obj_size_snd [termination_simp]:
  "p \<in> set m \<Longrightarrow> size (snd p) < Suc (size_list (size_prod (\<lambda>_. 0) size) m)"
  by (cases p) (auto simp: json_obj_size)

lemma json_arr_size [termination_simp]: "v \<in> set a \<Longrightarrow> size v < Suc (size_list size a)"
  by (induction a) auto

lemma json_map_of_size:
  "map_of m k = Some v \<Longrightarrow> size v < Suc (size_list (size_prod (\<lambda>_. 0) size) m)"
  by (auto dest!: map_of_SomeD json_obj_size)

section \<open>Object maps\<close>

definition jget :: "jmap \<Rightarrow> string \<Rightarrow> json option" where
  "jget m k = map_of m k"

definition jhas :: "jmap \<Rightarrow> string \<Rightarrow> bool" where
  "jhas m k \<longleftrightarrow> jget m k \<noteq> None"

definition jput :: "string \<Rightarrow> json \<Rightarrow> jmap \<Rightarrow> jmap" where
  "jput k v m = alist_put k v m"

definition jkeys :: "jmap \<Rightarrow> string list" where
  "jkeys m = map fst m"

text \<open>\<open>Map::remove\<close>: the last entry takes the place of the removed one.\<close>

fun swap_remove :: "string \<Rightarrow> jmap \<Rightarrow> jmap" where
  "swap_remove k [] = []"
| "swap_remove k ((k', v) # m) =
     (if k = k' then (if m = [] then [] else last m # butlast m) else (k', v) # swap_remove k m)"

text \<open>\<open>Map::entry(k).or_insert(v)\<close>.\<close>

definition jor_insert :: "string \<Rightarrow> json \<Rightarrow> jmap \<Rightarrow> jmap" where
  "jor_insert k v m = (if jhas m k then m else m @ [(k, v)])"

lemma mset_last_butlast: "m \<noteq> [] \<Longrightarrow> set (last m # butlast m) = set m"
  by (metis append_butlast_last_id list.set(2) set_append rotate1.simps(2) set_rotate1)

lemma map_of_distinct_set:
  assumes "distinct (map fst m)" "distinct (map fst m')" "set m = set m'"
  shows "map_of m = map_of m'"
proof
  fix j
  have "map_of m j = Some v \<longleftrightarrow> map_of m' j = Some v" for v
    using assms by simp
  then show "map_of m j = map_of m' j" by (metis not_None_eq)
qed

lemma distinct_swap:
  assumes "m \<noteq> []" "distinct (map fst m)"
  shows "distinct (map fst (last m # butlast m))"
proof -
  have "m = butlast m @ [last m]" using assms(1) by simp
  with assms(2) have "distinct (map fst (butlast m @ [last m]))" by metis
  then show ?thesis by auto
qed

lemma set_swap_remove:
  "distinct (map fst m) \<Longrightarrow> set (swap_remove k m) = {p \<in> set m. fst p \<noteq> k}"
proof (induction k m rule: swap_remove.induct)
  case (1 k)
  then show ?case by simp
next
  case (2 k k' v m)
  show ?case
  proof (cases "k = k'")
    case True
    with "2.prems" have "{p \<in> set ((k', v) # m). fst p \<noteq> k} = set m"
      by force
    with True show ?thesis
      using mset_last_butlast [of m] by (cases "m = []") auto
  next
    case False
    with 2 show ?thesis by auto
  qed
qed

lemma distinct_swap_remove: "distinct (map fst m) \<Longrightarrow> distinct (map fst (swap_remove k m))"
proof (induction k m rule: swap_remove.induct)
  case (1 k)
  then show ?case by simp
next
  case (2 k k' v m)
  show ?case
  proof (cases "k = k'")
    case True
    with "2.prems" distinct_swap [of m] show ?thesis by auto
  next
    case False
    from "2.prems" have d: "distinct (map fst m)" by simp
    have "k' \<notin> fst ` set (swap_remove k m)"
      using "2.prems" by (auto simp: set_swap_remove [OF d])
    with False 2 show ?thesis by simp
  qed
qed

lemma map_of_swap_remove [simp]:
  assumes "distinct (map fst m)"
  shows "map_of (swap_remove k m) = (map_of m)(k := None)"
proof
  fix j
  have d: "distinct (map fst (swap_remove k m))" using assms by (rule distinct_swap_remove)
  have "map_of (swap_remove k m) j = Some v \<longleftrightarrow> ((map_of m)(k := None)) j = Some v" for v
    using assms d set_swap_remove [OF assms, of k] by auto
  then show "map_of (swap_remove k m) j = ((map_of m)(k := None)) j"
    by (metis not_None_eq)
qed

lemma jget_jput [simp]: "jget (jput k v m) j = (if j = k then Some v else jget m j)"
  by (simp add: jget_def jput_def)

lemma jget_jor_insert: "jget (jor_insert k v m) j =
    (if j = k \<and> jget m k = None then Some v else jget m j)"
  by (auto simp: jor_insert_def jhas_def jget_def map_add_def split: option.splits)

lemma jget_swap_remove [simp]:
  "distinct (jkeys m) \<Longrightarrow> jget (swap_remove k m) j = (if j = k then None else jget m j)"
  by (simp add: jget_def jkeys_def)

lemma distinct_jkeys_jput [simp]: "distinct (jkeys m) \<Longrightarrow> distinct (jkeys (jput k v m))"
  by (simp add: jkeys_def jput_def)

lemma distinct_jkeys_swap_remove [simp]:
  "distinct (jkeys m) \<Longrightarrow> distinct (jkeys (swap_remove k m))"
  by (simp add: jkeys_def distinct_swap_remove)

lemma distinct_jkeys_jor_insert [simp]: "distinct (jkeys m) \<Longrightarrow> distinct (jkeys (jor_insert k v m))"
  by (auto simp: jkeys_def jor_insert_def jhas_def jget_def map_of_eq_None_iff)

lemma jget_in: "jget m k = Some v \<Longrightarrow> (k, v) \<in> set m"
  by (auto simp: jget_def dest: map_of_SomeD)

lemma jget_iff: "distinct (jkeys m) \<Longrightarrow> jget m k = Some v \<longleftrightarrow> (k, v) \<in> set m"
  by (simp add: jget_def jkeys_def)

lemma jget_size:
  "jget m k = Some v \<Longrightarrow> size v < Suc (size_list (size_prod (\<lambda>_. 0) size) m)"
  by (simp add: jget_def json_map_of_size)

lemma jget_size_snd [termination_simp]:
  "jget m k = Some v \<Longrightarrow> size v < Suc (size_list (\<lambda>p. Suc (size (snd p))) m)"
  unfolding jget_def by (induction m) (auto split: if_splits)

lemma jget_None: "jget m k = None \<longleftrightarrow> k \<notin> set (jkeys m)"
  by (simp add: jget_def jkeys_def map_of_eq_None_iff)

lemma jhas_iff: "jhas m k \<longleftrightarrow> k \<in> set (jkeys m)"
  by (simp add: jhas_def jget_None)

lemma set_swap_remove_subset: "set (swap_remove k m) \<subseteq> set m"
proof (induction k m rule: swap_remove.induct)
  case (1 k)
  then show ?case by simp
next
  case (2 k k' v m)
  then show ?case
    using mset_last_butlast [of m] by auto
qed

lemma set_jput_subset: "set (jput k v m) \<subseteq> insert (k, v) (set m)"
  unfolding jput_def by (induction k v m rule: alist_put.induct) auto

section \<open>The accessors of \<open>Value\<close>\<close>

fun as_object :: "json \<Rightarrow> jmap option" where
  "as_object (JObj m) = Some m"
| "as_object _ = None"

fun as_array :: "json \<Rightarrow> json list option" where
  "as_array (JArr a) = Some a"
| "as_array _ = None"

fun as_str :: "json \<Rightarrow> string option" where
  "as_str (JStr s) = Some s"
| "as_str _ = None"

fun as_bool :: "json \<Rightarrow> bool option" where
  "as_bool (JBool b) = Some b"
| "as_bool _ = None"

text \<open>\<open>Value::as_u64\<close>: a number literal that is a plain unsigned integer below \<open>2^64\<close>.\<close>

fun as_u64 :: "json \<Rightarrow> nat option" where
  "as_u64 (JNum s) =
     (if all_digits s \<and> digits_value s < 18446744073709551616 then Some (digits_value s) else None)"
| "as_u64 _ = None"

definition is_object :: "json \<Rightarrow> bool" where
  "is_object v \<longleftrightarrow> as_object v \<noteq> None"

definition is_array :: "json \<Rightarrow> bool" where
  "is_array v \<longleftrightarrow> as_array v \<noteq> None"

definition is_null :: "json \<Rightarrow> bool" where
  "is_null v \<longleftrightarrow> v = JNull"

text \<open>\<open>Value::get\<close> with a string key.\<close>

definition vget :: "json \<Rightarrow> string \<Rightarrow> json option" where
  "vget v k = Option.bind (as_object v) (\<lambda>m. jget m k)"

definition jnat :: "nat \<Rightarrow> json" where
  "jnat n = JNum (show_nat n)"

lemma as_object_Some [simp]: "as_object v = Some m \<longleftrightarrow> v = JObj m"
  by (cases v) auto

lemma as_array_Some [simp]: "as_array v = Some a \<longleftrightarrow> v = JArr a"
  by (cases v) auto

lemma as_str_Some [simp]: "as_str v = Some s \<longleftrightarrow> v = JStr s"
  by (cases v) auto

lemma as_bool_Some [simp]: "as_bool v = Some b \<longleftrightarrow> v = JBool b"
  by (cases v) auto

lemma vget_JObj [simp]: "vget (JObj m) k = jget m k"
  by (simp add: vget_def)

lemma vget_Some: "vget v k = Some x \<longleftrightarrow> (\<exists>m. v = JObj m \<and> jget m k = Some x)"
  by (cases v) (auto simp: vget_def)

lemma vget_size: "vget v k = Some x \<Longrightarrow> size x < size v"
  by (auto simp: vget_Some dest: jget_size)

lemma as_u64_jnat [simp]: "n < 18446744073709551616 \<Longrightarrow> as_u64 (jnat n) = Some n"
  by (simp add: jnat_def all_digits_def show_nat_digits)

section \<open>Well-formed values and equality\<close>

text \<open>An object has each key once, at every depth; every value the parser builds is so.\<close>

fun wf_json :: "json \<Rightarrow> bool" where
  "wf_json (JArr a) = list_all wf_json a"
| "wf_json (JObj m) = (distinct (jkeys m) \<and> list_all (\<lambda>p. wf_json (snd p)) m)"
| "wf_json _ = True"

text \<open>\<open>Value\<close>'s own equality: objects compare as maps, whatever the order of their entries.\<close>

fun json_eq :: "json \<Rightarrow> json \<Rightarrow> bool" where
  "json_eq (JArr a) (JArr b) = list_all2 json_eq a b"
| "json_eq (JObj m) (JObj n) =
     (length m = length n \<and>
      list_all (\<lambda>p. case jget n (fst p) of None \<Rightarrow> False | Some w \<Rightarrow> json_eq (snd p) w) m)"
| "json_eq v w = (v = w)"

lemma wf_json_get: "wf_json (JObj m) \<Longrightarrow> jget m k = Some v \<Longrightarrow> wf_json v"
  by (auto simp: list_all_iff dest!: jget_in)

lemma wf_json_vget: "wf_json v \<Longrightarrow> vget v k = Some x \<Longrightarrow> wf_json x"
  by (auto simp: vget_Some intro: wf_json_get)

lemma wf_json_jput [simp]: "wf_json (JObj m) \<Longrightarrow> wf_json v \<Longrightarrow> wf_json (JObj (jput k v m))"
  using set_jput_subset [of k v m] by (auto simp: list_all_iff)

lemma wf_json_swap_remove [simp]: "wf_json (JObj m) \<Longrightarrow> wf_json (JObj (swap_remove k m))"
  using set_swap_remove_subset [of k m] by (auto simp: list_all_iff)

lemma wf_json_jor_insert [simp]:
  "wf_json (JObj m) \<Longrightarrow> wf_json v \<Longrightarrow> wf_json (JObj (jor_insert k v m))"
proof -
  assume a: "wf_json (JObj m)" "wf_json v"
  then have "distinct (jkeys (jor_insert k v m))" by simp
  with a show ?thesis by (auto simp: jor_insert_def)
qed

lemma json_eq_refl [simp]: "wf_json v \<Longrightarrow> json_eq v v"
proof (induction v rule: wf_json.induct)
  case (1 a)
  then show ?case by (simp add: list_all_iff list_all2_same)
next
  case (2 m)
  then show ?case
    by (auto simp: list_all_iff jget_iff split: option.splits)
       (metis jget_iff option.distinct(1) option.inject prod.collapse)+
qed simp_all

text \<open>Every number literal is one that \<open>valid\<close> admits.\<close>

fun numbers_ok :: "(string \<Rightarrow> bool) \<Rightarrow> json \<Rightarrow> bool" where
  "numbers_ok valid (JArr a) = list_all (numbers_ok valid) a"
| "numbers_ok valid (JObj m) = list_all (\<lambda>p. numbers_ok valid (snd p)) m"
| "numbers_ok valid (JNum s) = valid s"
| "numbers_ok valid v = True"

section \<open>A concrete printer\<close>

text \<open>The compact JSON text of a value as the format documents it. The model takes the printer of the
  JSON library as an argument; this one instantiates it where a concrete one is called for.\<close>

definition json_escape_char :: "char \<Rightarrow> string" where
  "json_escape_char c =
     (if c = CHR 0x22 \<or> c = CHR 0x5C then [CHR 0x5C, c]
      else if byte c = (8 :: nat) then [CHR 0x5C, CHR ''b'']
      else if byte c = (9 :: nat) then [CHR 0x5C, CHR ''t'']
      else if byte c = (10 :: nat) then [CHR 0x5C, CHR ''n'']
      else if byte c = (12 :: nat) then [CHR 0x5C, CHR ''f'']
      else if byte c = (13 :: nat) then [CHR 0x5C, CHR ''r'']
      else if byte c < (32 :: nat) then
        [CHR 0x5C, CHR ''u'', CHR ''0'', CHR ''0'', hex_digit (byte c div 16), hex_digit (byte c mod 16)]
      else [c])"

definition json_string_text :: "string \<Rightarrow> string" where
  "json_string_text s = [CHR 0x22] @ concat (map json_escape_char s) @ [CHR 0x22]"

fun json_text :: "json \<Rightarrow> string" where
  "json_text JNull = ''null''"
| "json_text (JBool b) = (if b then ''true'' else ''false'')"
| "json_text (JNum s) = s"
| "json_text (JStr s) = json_string_text s"
| "json_text (JArr a) = ''['' @ join_with '','' (map json_text a) @ '']''"
| "json_text (JObj m) =
     ''{'' @ join_with '','' (map (\<lambda>p. json_string_text (fst p) @ '':'' @ json_text (snd p)) m) @ ''}''"

definition num_char :: "char \<Rightarrow> bool" where
  "num_char c \<longleftrightarrow> is_ascii_digit c \<or> c \<in> set ''+-.eE''"

definition num_literal :: "string \<Rightarrow> bool" where
  "num_literal s \<longleftrightarrow> s \<noteq> [] \<and> list_all num_char s"

definition hex_value :: "char \<Rightarrow> nat" where
  "hex_value c = (if byte c < (58 :: nat) then byte c - 48 else byte c - 87)"

lemma hex_value_digit: "d < 16 \<Longrightarrow> hex_value (hex_digit d) = d"
  by (simp add: hex_value_def hex_digit_def)

fun json_unescape :: "string \<Rightarrow> (char \<times> string) option" where
  "json_unescape (c # r) =
     (if c \<noteq> CHR 0x5C then Some (c, r)
      else (case r of
          a # r \<Rightarrow>
            if a = CHR ''b'' then Some (char_of (8 :: nat), r)
            else if a = CHR ''t'' then Some (char_of (9 :: nat), r)
            else if a = CHR ''n'' then Some (char_of (10 :: nat), r)
            else if a = CHR ''f'' then Some (char_of (12 :: nat), r)
            else if a = CHR ''r'' then Some (char_of (13 :: nat), r)
            else if a = CHR ''u'' then (case r of
                z # z' # h # l # r \<Rightarrow> Some (char_of (hex_value h * 16 + hex_value l), r) | _ \<Rightarrow> None)
            else Some (a, r)
        | [] \<Rightarrow> None))"
| "json_unescape [] = None"

lemma char_of_byte: "byte c = n \<Longrightarrow> char_of n = c" for n :: nat
  by auto

lemma json_unescape_escape: "json_unescape (json_escape_char c @ r) = Some (c, r)"
proof -
  have "hex_value (hex_digit (byte c div 16)) * 16 + hex_value (hex_digit (byte c mod 16)) = byte c"
    if "byte c < (32 :: nat)"
    using that by (simp add: hex_value_digit)
  then show ?thesis by (auto simp: json_escape_char_def char_of_byte)
qed

lemma json_escape_unique:
  "json_escape_char c @ r = json_escape_char d @ r' \<Longrightarrow> c = d \<and> r = r'"
  by (metis json_unescape_escape option.inject prod.inject)

lemma json_escape_start: "\<exists>a s. json_escape_char c = a # s \<and> a \<noteq> CHR 0x22"
  by (auto simp: json_escape_char_def)

lemma json_string_unique:
  "concat (map json_escape_char s) @ CHR 0x22 # x = concat (map json_escape_char t) @ CHR 0x22 # y \<Longrightarrow>
    s = t \<and> x = y"
proof (induction s arbitrary: t)
  case Nil
  then show ?case using json_escape_start [of "hd t"] by (cases t) auto
next
  case (Cons c s)
  then obtain d t' where t: "t = d # t'" using json_escape_start [of c] by (cases t) auto
  with Cons.prems have "json_escape_char c @ (concat (map json_escape_char s) @ CHR 0x22 # x) =
      json_escape_char d @ (concat (map json_escape_char t') @ CHR 0x22 # y)" by simp
  from json_escape_unique [OF this] Cons.IH [of t'] t show ?case by blast
qed

end
