(* ===== verification/Project.thy ===== *)
theory Project
  imports Json
begin

text \<open>
  Field projection and in-place edits of JSON payloads (\<open>src/src/project.rs\<close>): path parsing, the
  allowlist \<open>project\<close>, the denylist \<open>prune\<close>, and \<open>rename\<close>, \<open>set\<close>, \<open>set_default\<close>. A path is its
  list of segments; \<open>[]\<close> maps over an array. The specifications: \<open>part_of\<close>, what a projection may
  keep, \<open>hits\<close>, the values a path reaches, and \<open>key_get\<close>, plain navigation by keys.
\<close>

section \<open>Paths\<close>

definition parse_path :: "string \<Rightarrow> string list" where
  "parse_path p =
     filter (\<lambda>s. s \<noteq> []) (split_on (CHR ''.'')
       (replace_str ''.*.'' ''.[].'' (replace_str ''[]'' ''.[].'' p)))"

abbreviation wild :: string where
  "wild \<equiv> ''[]''"

section \<open>The edits\<close>

fun remove_at :: "string list \<Rightarrow> json \<Rightarrow> json" where
  "remove_at [] v = v"
| "remove_at [seg] v =
     (if seg = wild then (case v of JArr a \<Rightarrow> JArr [] | _ \<Rightarrow> v)
      else (case v of JObj m \<Rightarrow> JObj (swap_remove seg m) | _ \<Rightarrow> v))"
| "remove_at (seg # rest) v =
     (if seg = wild then (case v of JArr a \<Rightarrow> JArr (map (remove_at rest) a) | _ \<Rightarrow> v)
      else (case v of
          JObj m \<Rightarrow> (case jget m seg of
              Some child \<Rightarrow> JObj (jput seg (remove_at rest child) m) | None \<Rightarrow> v)
        | _ \<Rightarrow> v))"

definition prune :: "json \<Rightarrow> string list \<Rightarrow> json" where
  "prune v paths = foldl (\<lambda>v p. remove_at (parse_path p) v) v paths"

fun rename_at :: "string \<Rightarrow> string list \<Rightarrow> json \<Rightarrow> json" where
  "rename_at new [] v = v"
| "rename_at new (seg # rest) v =
     (if rest = [] \<and> seg \<noteq> wild then
        (case v of
          JObj m \<Rightarrow> (case jget m seg of
              Some val \<Rightarrow> JObj (jput new val (swap_remove seg m)) | None \<Rightarrow> v)
        | _ \<Rightarrow> v)
      else if seg = wild then (case v of JArr a \<Rightarrow> JArr (map (rename_at new rest) a) | _ \<Rightarrow> v)
      else
        (case v of
          JObj m \<Rightarrow> (case jget m seg of
              Some child \<Rightarrow> JObj (jput seg (rename_at new rest child) m) | None \<Rightarrow> v)
        | _ \<Rightarrow> v))"

definition rename :: "json \<Rightarrow> string \<Rightarrow> string \<Rightarrow> json" where
  "rename v path new = rename_at new (parse_path path) v"

text \<open>\<open>o.entry(seg).or_insert_with(empty object)\<close>, then the edit of that child.\<close>

definition with_child :: "string \<Rightarrow> (json \<Rightarrow> json) \<Rightarrow> jmap \<Rightarrow> jmap" where
  "with_child seg f m = jput seg (f (case jget m seg of Some c \<Rightarrow> c | None \<Rightarrow> JObj [])) m"

fun default_at :: "json \<Rightarrow> string list \<Rightarrow> json \<Rightarrow> json" where
  "default_at x [] v = v"
| "default_at x [seg] v = (case v of JObj m \<Rightarrow> JObj (jor_insert seg x m) | _ \<Rightarrow> v)"
| "default_at x (seg # rest) v =
     (case v of JObj m \<Rightarrow> JObj (with_child seg (default_at x rest) m) | _ \<Rightarrow> v)"

fun set_at :: "json \<Rightarrow> string list \<Rightarrow> json \<Rightarrow> json" where
  "set_at x [] v = v"
| "set_at x [seg] v = (case v of JObj m \<Rightarrow> JObj (jput seg x m) | _ \<Rightarrow> v)"
| "set_at x (seg # rest) v =
     (case v of JObj m \<Rightarrow> JObj (with_child seg (set_at x rest) m) | _ \<Rightarrow> v)"

definition set_path :: "json \<Rightarrow> string \<Rightarrow> json \<Rightarrow> json" where
  "set_path v path x = set_at x (parse_path path) v"

definition set_default :: "json \<Rightarrow> string \<Rightarrow> json \<Rightarrow> json" where
  "set_default v path x = default_at x (parse_path path) v"

section \<open>Projection\<close>

fun select_path :: "string list \<Rightarrow> json \<Rightarrow> json option" where
  "select_path [] v = Some v"
| "select_path (seg # rest) v =
     (if seg = wild then
        (case v of
          JArr a \<Rightarrow> Some (JArr (map (\<lambda>e. case select_path rest e of Some x \<Rightarrow> x | None \<Rightarrow> JNull) a))
        | _ \<Rightarrow> None)
      else
        (case v of
          JObj m \<Rightarrow> (case jget m seg of
              Some child \<Rightarrow> (case select_path rest child of
                  Some sub \<Rightarrow> Some (JObj [(seg, sub)]) | None \<Rightarrow> None)
            | None \<Rightarrow> None)
        | _ \<Rightarrow> None))"

lemma zip_right_size [termination_simp]:
  "(x, y) \<in> set (zip a b) \<Longrightarrow> size y < Suc (size_list size b)"
  by (drule set_zip_rightD) (rule json_arr_size)

fun deep_merge :: "json \<Rightarrow> json \<Rightarrow> json" where
  "deep_merge (JObj am) (JObj bm) =
     JObj (fold (\<lambda>(k, v) am. case jget am k of
         Some av \<Rightarrow> jput k (deep_merge av v) (swap_remove k am)
       | None \<Rightarrow> jput k v am) bm am)"
| "deep_merge (JArr aa) (JArr ba) =
     JArr (map (\<lambda>(x, y). deep_merge x y) (zip aa ba) @ drop (length ba) aa @ drop (length aa) ba)"
| "deep_merge JNull b = b"
| "deep_merge a b = a"

definition project :: "json \<Rightarrow> string list \<Rightarrow> json" where
  "project v paths =
     foldl (\<lambda>acc p. case select_path (parse_path p) v of
         Some sel \<Rightarrow> deep_merge acc sel | None \<Rightarrow> acc) JNull paths"

section \<open>What a projection keeps\<close>

text \<open>\<open>part_of a v\<close>: \<open>a\<close> is \<open>v\<close> with object fields left out and subtrees replaced by null; arrays
  keep their length, so positions correspond.\<close>

fun part_of :: "json \<Rightarrow> json \<Rightarrow> bool" where
  "part_of JNull v = True"
| "part_of (JObj a) (JObj b) =
     list_all (\<lambda>(k, x). case jget b k of None \<Rightarrow> False | Some w \<Rightarrow> part_of x w) a"
| "part_of (JArr a) (JArr b) = list_all2 part_of a b"
| "part_of a b = (a = b)"

lemma part_of_refl: "wf_json v \<Longrightarrow> part_of v v"
proof (induction v rule: wf_json.induct)
  case (1 a)
  then show ?case by (simp add: list_all_iff list_all2_same)
next
  case (2 m)
  have "jget m k = Some x \<and> part_of x x" if "(k, x) \<in> set m" for k x
    using "2.IH" [OF that] "2.prems" that by (simp add: jget_iff list_all_iff Ball_def)
  then show ?case by (auto simp: list_all_iff)
qed auto

lemma part_of_refl_arr: "list_all wf_json a \<Longrightarrow> list_all2 part_of a a"
  using part_of_refl [of "JArr a"] by simp

lemma part_of_JObj:
  "part_of (JObj a) (JObj b) \<longleftrightarrow> (\<forall>(k, x) \<in> set a. \<exists>w. jget b k = Some w \<and> part_of x w)"
  by (auto simp: list_all_iff split: option.splits)

declare part_of.simps(2) [simp del]

lemma part_of_in:
  "part_of (JObj a) (JObj b) \<Longrightarrow> (k, x) \<in> set a \<Longrightarrow> \<exists>w. jget b k = Some w \<and> part_of x w"
  by (auto simp: part_of_JObj)

lemma part_of_get:
  "part_of (JObj a) (JObj b) \<Longrightarrow> jget a k = Some x \<Longrightarrow> \<exists>w. jget b k = Some w \<and> part_of x w"
  by (blast intro: part_of_in dest: jget_in)

lemma part_of_obj_cases: "part_of (JObj a) v \<Longrightarrow> \<exists>b. v = JObj b"
  by (cases v) auto

lemma part_of_arr_cases: "part_of (JArr a) v \<Longrightarrow> \<exists>b. v = JArr b"
  by (cases v) auto

lemma part_of_null [simp]: "part_of a JNull \<longleftrightarrow> a = JNull"
  by (cases a) auto

lemma part_of_trans: "part_of x y \<Longrightarrow> part_of y z \<Longrightarrow> part_of x z"
proof (induction x y arbitrary: z rule: part_of.induct)
  case (2 a b)
  obtain c where z: "z = JObj c" using part_of_obj_cases [OF "2.prems"(2)] by blast
  show ?case unfolding z part_of_JObj
  proof (clarify)
    fix k x assume kx: "(k, x) \<in> set a"
    then obtain w where w: "jget b k = Some w" "part_of x w"
      using "2.prems"(1) part_of_in by blast
    then obtain u where u: "jget c k = Some u" "part_of w u"
      using "2.prems"(2) z part_of_get by blast
    have "part_of x u" using "2.IH" [OF kx refl w(1)] w(2) u(2) by simp
    with u show "\<exists>u. jget c k = Some u \<and> part_of x u" by blast
  qed
next
  case (3 a b)
  obtain c where z: "z = JArr c" using part_of_arr_cases [OF "3.prems"(2)] by blast
  with "3.prems" have "list_all2 part_of a b" "list_all2 part_of b c" by simp_all
  then have "length a = length c" "\<And>i. i < length a \<Longrightarrow> part_of (a ! i) (c ! i)"
    using "3.IH" by (auto simp: list_all2_conv_all_nth) (metis nth_mem)
  then show ?case by (simp add: z list_all2_conv_all_nth)
qed auto

lemma select_part_of: "wf_json v \<Longrightarrow> select_path segs v = Some s \<Longrightarrow> part_of s v \<and> wf_json s"
proof (induction segs v arbitrary: s rule: select_path.induct)
  case (1 v)
  then show ?case by (simp add: part_of_refl)
next
  case (2 seg rest v)
  show ?case
  proof (cases "seg = wild")
    case True
    with "2.prems" obtain a where a: "v = JArr a"
      "s = JArr (map (\<lambda>e. case select_path rest e of Some x \<Rightarrow> x | None \<Rightarrow> JNull) a)"
      by (cases v) auto
    have "part_of (case select_path rest e of Some x \<Rightarrow> x | None \<Rightarrow> JNull) e \<and>
        wf_json (case select_path rest e of Some x \<Rightarrow> x | None \<Rightarrow> JNull)" if "e \<in> set a" for e
      using "2.IH"(1) [OF True a(1) that] "2.prems"(1) a(1) that
      by (auto simp: list_all_iff split: option.splits)
    then show ?thesis by (auto simp: a list_all2_map1 list_all2_same list_all_iff)
  next
    case False
    with "2.prems" obtain m c sub where m: "v = JObj m" "jget m seg = Some c"
      "select_path rest c = Some sub" "s = JObj [(seg, sub)]"
      by (cases v) (auto split: option.splits)
    have "wf_json c" using "2.prems"(1) m(1,2) wf_json_get by blast
    with "2.IH"(2) [OF False m(1,2)] m(3) have "part_of sub c \<and> wf_json sub" by blast
    with m show ?thesis by (simp add: part_of_JObj jkeys_def)
  qed
qed

section \<open>Merging selections\<close>

abbreviation merge_entry :: "string \<times> json \<Rightarrow> jmap \<Rightarrow> jmap" where
  "merge_entry \<equiv> \<lambda>(k, v) am. case jget am k of
     Some av \<Rightarrow> jput k (deep_merge av v) (swap_remove k am) | None \<Rightarrow> jput k v am"

lemma part_of_jput:
  "part_of (JObj a) (JObj b) \<Longrightarrow> jget b k = Some w \<Longrightarrow> part_of x w \<Longrightarrow> part_of (JObj (jput k x a)) (JObj b)"
  using set_jput_subset [of k x a] by (fastforce simp: part_of_JObj)

lemma part_of_swap_remove:
  "part_of (JObj a) (JObj b) \<Longrightarrow> part_of (JObj (swap_remove k a)) (JObj b)"
  using set_swap_remove_subset [of k a] by (auto simp: part_of_JObj)

lemma merge_fold_part:
  assumes "\<And>k v av w. (k, v) \<in> set bm \<Longrightarrow> part_of av w \<Longrightarrow> part_of v w \<Longrightarrow> part_of (deep_merge av v) w"
    and "part_of (JObj am) (JObj m)" "part_of (JObj bm) (JObj m)"
  shows "part_of (JObj (fold merge_entry bm am)) (JObj m)"
  using assms
proof (induction bm arbitrary: am)
  case Nil
  then show ?case by simp
next
  case (Cons p bm)
  obtain k v where p: "p = (k, v)" by (cases p)
  obtain w where w: "jget m k = Some w" "part_of v w"
    using part_of_in [OF Cons.prems(3)] p by (meson list.set_intros(1))
  have "part_of (JObj (merge_entry p am)) (JObj m)"
  proof (cases "jget am k")
    case None
    with w Cons.prems(2) show ?thesis by (simp add: p part_of_jput)
  next
    case (Some av)
    then have "part_of av w" using part_of_get [OF Cons.prems(2)] w(1) by fastforce
    then have "part_of (deep_merge av v) w" using Cons.prems(1) w(2) p by (meson list.set_intros(1))
    with Some w(1) Cons.prems(2) show ?thesis by (simp add: p part_of_jput part_of_swap_remove)
  qed
  moreover have "part_of (JObj bm) (JObj m)" using Cons.prems(3) by (simp add: part_of_JObj)
  moreover have "part_of (deep_merge av x) w"
    if "(j, x) \<in> set bm" "part_of av w" "part_of x w" for j x av w
    using Cons.prems(1) that by (meson list.set_intros(2))
  ultimately have "part_of (JObj (fold merge_entry bm (merge_entry p am))) (JObj m)"
    by (blast intro: Cons.IH)
  then show ?case by simp
qed

lemma merge_fold_get:
  "distinct (jkeys am) \<Longrightarrow> distinct (jkeys bm) \<Longrightarrow>
    distinct (jkeys (fold merge_entry bm am)) \<and>
    jget (fold merge_entry bm am) k =
      (case jget bm k of None \<Rightarrow> jget am k
       | Some v \<Rightarrow> (case jget am k of None \<Rightarrow> Some v | Some av \<Rightarrow> Some (deep_merge av v)))"
proof (induction bm arbitrary: am)
  case Nil
  then show ?case by (simp add: jget_def)
next
  case (Cons p bm)
  obtain j v where p: "p = (j, v)" by (cases p)
  have d: "distinct (jkeys (merge_entry p am))"
    using Cons.prems by (simp add: p split: option.split)
  have e: "distinct (jkeys bm)" "jget bm j = None"
    using Cons.prems(2) by (simp_all add: p jget_None jkeys_def)
  have g: "jget (p # bm) k = (if k = j then Some v else jget bm k)"
    by (simp add: p jget_def)
  have s: "jget (merge_entry p am) i =
      (if i = j then (case jget am j of None \<Rightarrow> Some v | Some av \<Rightarrow> Some (deep_merge av v)) else jget am i)" for i
    using Cons.prems by (simp add: p split: option.splits)
  show ?case
    using Cons.IH [OF d e(1)] e(2) by (auto simp: g s split: option.splits)
qed

lemma merge_part_of: "part_of a v \<Longrightarrow> part_of b v \<Longrightarrow> part_of (deep_merge a b) v"
proof (induction a b arbitrary: v rule: deep_merge.induct)
  case (1 am bm)
  obtain m where m: "v = JObj m" using part_of_obj_cases [OF "1.prems"(1)] by blast
  have "part_of (deep_merge av x) w" if "(k, x) \<in> set bm" "part_of av w" "part_of x w" for k x av w
    using "1.IH" [OF that(1) refl, of "[(k, av)]" av] that by (simp add: jget_def)
  with "1.prems" show ?case by (simp add: m merge_fold_part)
next
  case (2 aa ba)
  obtain va where v: "v = JArr va" using part_of_arr_cases [OF "2.prems"(1)] by blast
  have l: "length aa = length va" "length ba = length va"
    and p: "\<And>i. i < length va \<Longrightarrow> part_of (aa ! i) (va ! i)" "\<And>i. i < length va \<Longrightarrow> part_of (ba ! i) (va ! i)"
    using "2.prems" by (auto simp: v list_all2_conv_all_nth)
  have "part_of (deep_merge (aa ! i) (ba ! i)) (va ! i)" if "i < length va" for i
    using "2.IH" [of "(aa ! i, ba ! i)"] p [OF that] that l by (force simp: set_zip)
  with l show ?case by (simp add: v list_all2_conv_all_nth)
qed auto

lemma merge_wf: "wf_json a \<Longrightarrow> wf_json b \<Longrightarrow> wf_json (deep_merge a b)"
proof (induction a b rule: deep_merge.induct)
  case (1 am bm)
  have d: "distinct (jkeys am)" "distinct (jkeys bm)" using "1.prems" by simp_all
  have "wf_json x" if x: "jget (fold merge_entry bm am) k = Some x" for k x
  proof (cases "jget bm k")
    case None
    with merge_fold_get [OF d, of k] x "1.prems"(1) show ?thesis by (auto intro: wf_json_get)
  next
    case (Some v)
    then have v: "(k, v) \<in> set bm" "wf_json v" using "1.prems"(2) by (auto intro: jget_in wf_json_get)
    show ?thesis
    proof (cases "jget am k")
      case None
      with merge_fold_get [OF d, of k] x Some v show ?thesis by simp
    next
      case (Some av)
      then have "wf_json (deep_merge av v)"
        using "1.IH" [OF v(1) refl Some] v(2) "1.prems"(1) by (blast intro: wf_json_get)
      with merge_fold_get [OF d, of k] x Some \<open>jget bm k = Some v\<close> show ?thesis by simp
    qed
  qed
  moreover have "distinct (jkeys (fold merge_entry bm am))" using merge_fold_get [OF d] by blast
  ultimately show ?case by (fastforce simp: list_all_iff jget_iff)
next
  case (2 aa ba)
  have "wf_json (deep_merge x y)" if "(x, y) \<in> set (zip aa ba)" for x y
    using "2.IH" [OF that refl] "2.prems" set_zip_leftD [OF that] set_zip_rightD [OF that]
    by (simp add: list_all_iff)
  with "2.prems" show ?case by (auto simp: list_all_iff dest: in_set_dropD)
qed auto

lemma merge_upper:
  "part_of a v \<Longrightarrow> part_of b v \<Longrightarrow> wf_json a \<Longrightarrow> wf_json b \<Longrightarrow>
    part_of a (deep_merge a b) \<and> part_of b (deep_merge a b)"
proof (induction a b arbitrary: v rule: deep_merge.induct)
  case (1 am bm)
  obtain m where m: "v = JObj m" using part_of_obj_cases [OF "1.prems"(1)] by blast
  have d: "distinct (jkeys am)" "distinct (jkeys bm)" using "1.prems" by simp_all
  have both: "part_of av (deep_merge av x) \<and> part_of x (deep_merge av x)"
    if av: "jget am k = Some av" and x: "jget bm k = Some x" for k av x
  proof -
    obtain w where w: "jget m k = Some w" "part_of av w"
      using part_of_get [OF "1.prems"(1) [unfolded m] av] by blast
    moreover have "part_of x w" using part_of_get [OF "1.prems"(2) [unfolded m] x] w(1) by simp
    ultimately show ?thesis
      using "1.IH" [OF jget_in [OF x] refl av] av x "1.prems"(3,4) by (blast intro: wf_json_get)
  qed
  have refl': "jget am k = Some x \<Longrightarrow> part_of x x" "jget bm k = Some x \<Longrightarrow> part_of x x" for k x
    using "1.prems"(3,4) by (blast intro: wf_json_get part_of_refl)+
  have "part_of (JObj am) (JObj (fold merge_entry bm am))"
    unfolding part_of_JObj using merge_fold_get [OF d] both refl'
    by (auto simp: d jget_iff [symmetric] split: option.splits)
  moreover have "part_of (JObj bm) (JObj (fold merge_entry bm am))"
    unfolding part_of_JObj using merge_fold_get [OF d] both refl'
    by (auto simp: d jget_iff [symmetric] split: option.splits)
  ultimately show ?case by simp
next
  case (2 aa ba)
  obtain va where v: "v = JArr va" using part_of_arr_cases [OF "2.prems"(1)] by blast
  have l: "length aa = length va" "length ba = length va"
    and p: "\<And>i. i < length va \<Longrightarrow> part_of (aa ! i) (va ! i)" "\<And>i. i < length va \<Longrightarrow> part_of (ba ! i) (va ! i)"
    using "2.prems" by (auto simp: v list_all2_conv_all_nth)
  have "part_of (aa ! i) (deep_merge (aa ! i) (ba ! i)) \<and> part_of (ba ! i) (deep_merge (aa ! i) (ba ! i))"
    if i: "i < length va" for i
  proof -
    have "(aa ! i, ba ! i) \<in> set (zip aa ba)" using i l by (auto simp: set_zip)
    moreover have "wf_json (aa ! i)" "wf_json (ba ! i)" using i l "2.prems"(3,4) by (simp_all add: list_all_iff)
    ultimately show ?thesis using "2.IH" [OF _ refl] p [OF i] by blast
  qed
  with l show ?case by (simp add: v list_all2_conv_all_nth)
qed (auto simp: part_of_refl part_of_refl_arr elim: part_of.elims)

lemma project_fold:
  assumes "wf_json v" "part_of acc v" "wf_json acc"
  shows "let r = foldl (\<lambda>acc p. case select_path (parse_path p) v of
      Some sel \<Rightarrow> deep_merge acc sel | None \<Rightarrow> acc) acc paths in
    wf_json r \<and> part_of r v \<and> part_of acc r \<and>
    (\<forall>p \<in> set paths. \<forall>s. select_path (parse_path p) v = Some s \<longrightarrow> part_of s r)"
  using assms(2,3)
proof (induction paths arbitrary: acc)
  case Nil
  then show ?case using part_of_refl by simp
next
  case (Cons p ps)
  define acc' where "acc' = (case select_path (parse_path p) v of Some sel \<Rightarrow> deep_merge acc sel | None \<Rightarrow> acc)"
  have acc': "part_of acc' v \<and> wf_json acc' \<and> part_of acc acc' \<and>
      (\<forall>s. select_path (parse_path p) v = Some s \<longrightarrow> part_of s acc')"
    using Cons.prems select_part_of [OF assms(1)]
    by (auto simp: acc'_def merge_part_of merge_wf part_of_refl merge_upper split: option.splits
        dest: merge_upper)
  with Cons.IH [of acc'] show ?case
    by (auto simp: Let_def acc'_def [symmetric] intro: part_of_trans)
qed

lemma project_least_fold:
  assumes "\<forall>p \<in> set paths. \<forall>s. select_path (parse_path p) v = Some s \<longrightarrow> part_of s u" "part_of acc u"
  shows "part_of (foldl (\<lambda>acc p. case select_path (parse_path p) v of
      Some sel \<Rightarrow> deep_merge acc sel | None \<Rightarrow> acc) acc paths) u"
  using assms
  by (induction paths arbitrary: acc) (auto simp: merge_part_of split: option.split)

text \<open>C14: a projection is exactly the union of the selected paths: it lies within the value, holds
  every selection that matches, and is the least structure that does.\<close>

theorem project_union:
  assumes "wf_json v"
  shows "part_of (project v paths) v \<and>
    (\<forall>p \<in> set paths. \<forall>s. select_path (parse_path p) v = Some s \<longrightarrow> part_of s (project v paths)) \<and>
    (\<forall>u. (\<forall>p \<in> set paths. \<forall>s. select_path (parse_path p) v = Some s \<longrightarrow> part_of s u) \<longrightarrow>
      part_of (project v paths) u)"
  using project_fold [OF assms, of JNull paths] project_least_fold [of paths v _ JNull]
  by (auto simp: project_def Let_def)

theorem project_union_witness:
  "let v = JObj [(''data'', JArr [JObj [(''a'', JNum ''1''), (''b'', JNum ''2'')], JObj [(''a'', JNum ''3'')]]),
                 (''url'', JStr ''x'')]
   in wf_json v \<and> part_of (project v [''data[].a'', ''data[].b'']) v \<and>
     project v [''data[].a'', ''data[].b''] =
       JObj [(''data'', JArr [JObj [(''a'', JNum ''1''), (''b'', JNum ''2'')], JObj [(''a'', JNum ''3'')]])]"
proof -
  let ?v = "JObj [(''data'', JArr [JObj [(''a'', JNum ''1''), (''b'', JNum ''2'')], JObj [(''a'', JNum ''3'')]]),
                 (''url'', JStr ''x'')]"
  have "wf_json ?v" by code_simp
  moreover have "part_of (project ?v [''data[].a'', ''data[].b'']) ?v"
    using project_union [OF \<open>wf_json ?v\<close>] by blast
  moreover have "project ?v [''data[].a'', ''data[].b''] =
       JObj [(''data'', JArr [JObj [(''a'', JNum ''1''), (''b'', JNum ''2'')], JObj [(''a'', JNum ''3'')]])]"
    by code_simp
  ultimately show ?thesis unfolding Let_def by blast
qed

section \<open>What a prune removes\<close>

text \<open>The values a path reaches.\<close>

fun reach :: "string list \<Rightarrow> json \<Rightarrow> json list" where
  "reach [] v = [v]"
| "reach (seg # rest) v =
     (if seg = wild then (case v of JArr a \<Rightarrow> concat (map (reach rest) a) | _ \<Rightarrow> [])
      else (case vget v seg of Some c \<Rightarrow> reach rest c | None \<Rightarrow> []))"

lemma wf_remove_at: "wf_json v \<Longrightarrow> wf_json (remove_at segs v)"
proof (induction segs v rule: remove_at.induct)
  case (2 seg v)
  then show ?case by (cases v) (simp_all del: wf_json.simps(2))
next
  case (3 seg s2 rest v)
  show ?case
  proof (cases v)
    case (JArr a)
    with 3 show ?thesis by (auto simp: list_all_iff)
  next
    case (JObj m)
    with 3 show ?thesis
      by (auto split: option.split simp del: wf_json.simps intro!: wf_json_jput dest: wf_json_get)
  qed (use 3 in auto)
qed auto

lemma vget_remove_other:
  assumes "wf_json v" "seg \<noteq> key"
  shows "vget (remove_at (seg # rest) v) key = vget v key"
  using assms by (cases v; cases rest) (auto simp: vget_def split: option.split)

lemma remove_at_key_single: "seg \<noteq> wild \<Longrightarrow> wf_json v \<Longrightarrow> vget (remove_at [seg] v) seg = None"
  by (cases v) (auto simp: vget_def)

lemma remove_at_key: "seg \<noteq> wild \<Longrightarrow> rest \<noteq> [] \<Longrightarrow>
    vget (remove_at (seg # rest) v) seg = map_option (remove_at rest) (vget v seg)"
  by (cases v; cases rest) (auto simp: vget_def split: option.split)

lemma remove_at_wild: "rest \<noteq> [] \<Longrightarrow>
    remove_at (wild # rest) v = (case v of JArr a \<Rightarrow> JArr (map (remove_at rest) a) | _ \<Rightarrow> v)"
  by (cases rest) auto

lemma remove_at_key_arr: "seg \<noteq> wild \<Longrightarrow> remove_at (seg # rest) (JArr a) = JArr a"
  by (cases rest) auto

lemma vget_remove_wild: "vget (remove_at (wild # rest) v) key = vget v key"
  by (cases v; cases rest) (auto simp: vget_def)

lemma reach_remove_self: "segs \<noteq> [] \<Longrightarrow> wf_json v \<Longrightarrow> reach segs (remove_at segs v) = []"
proof (induction segs arbitrary: v)
  case Nil
  then show ?case by simp
next
  case (Cons seg rest)
  show ?case
  proof (cases "rest = []")
    case True
    then show ?thesis using Cons.prems remove_at_key_single [of seg v]
      by (cases v) (auto simp: vget_def)
  next
    case False
    show ?thesis
    proof (cases "seg = wild")
      case True
      with False Cons show ?thesis
        by (cases v) (auto simp: remove_at_wild list_all_iff)
    next
      case seg: False
      with False Cons.prems Cons.IH show ?thesis
        by (auto simp: remove_at_key [OF seg False] split: option.split dest: wf_json_vget)
    qed
  qed
qed

lemma reach_remove_mono:
  "wf_json v \<Longrightarrow> reach q v = [] \<Longrightarrow> reach q (remove_at p v) = []"
proof (induction q arbitrary: p v)
  case Nil
  then show ?case by simp
next
  case (Cons k q)
  show ?case
  proof (cases p)
    case Nil
    with Cons.prems show ?thesis by simp
  next
    case (Cons s p')
    show ?thesis
    proof (cases "k = wild")
      case True
      with Cons.prems Cons.IH show ?thesis
        by (cases v; cases p'; cases "s = wild") 
           (auto simp: Cons remove_at_wild remove_at_key_arr list_all_iff split: option.split)
    next
      case False
      then show ?thesis
        using Cons.prems Cons.IH vget_remove_other [of v s k p'] vget_remove_wild [of p' v k]
          remove_at_key_single [of k v] remove_at_key [of k p' v]
        by (cases "s = k"; cases "p' = []") (auto simp: Cons split: option.splits dest: wf_json_vget)
    qed
  qed
qed

lemma reach_remove_other:
  assumes "wf_json v" "take (length p) q \<noteq> p" "take (length q) p \<noteq> q"
  shows "reach q (remove_at p v) = reach q v"
  using assms
proof (induction q arbitrary: p v)
  case Nil
  then show ?case by simp
next
  case (Cons k q)
  then obtain s p' where p: "p = s # p'" by (cases p) auto
  show ?case
  proof (cases "s = k")
    case False
    then show ?thesis
      using Cons.prems vget_remove_other [of v s k p'] vget_remove_wild [of p' v k]
      by (cases v; cases "k = wild"; cases "s = wild"; cases p')
         (auto simp: p remove_at_key_arr split: option.split)
  next
    case True
    with Cons.prems p have r: "p' \<noteq> []" "take (length p') q \<noteq> p'" "take (length q) p' \<noteq> q"
      by auto
    show ?thesis
    proof (cases "k = wild")
      case True
      have "concat (map (reach q \<circ> remove_at p') a) = concat (map (reach q) a)" if "v = JArr a" for a
        using Cons.IH [OF _ r(2,3)] Cons.prems(1) that
        by (auto simp: list_all_iff intro!: arg_cong [where f = concat])
      with True \<open>s = k\<close> r(1) show ?thesis
        by (cases v) (auto simp: p remove_at_wild)
    next
      case False
      with \<open>s = k\<close> r Cons show ?thesis
        by (auto simp: p remove_at_key split: option.split dest: wf_json_vget)
    qed
  qed
qed

lemma prune_fold:
  assumes "wf_json v"
  shows "wf_json (prune v paths) \<and> (\<forall>q. reach q v = [] \<longrightarrow> reach q (prune v paths) = [])"
  using assms
proof (induction paths arbitrary: v)
  case Nil
  then show ?case by (simp add: prune_def)
next
  case (Cons p ps)
  from Cons.IH [OF wf_remove_at [OF Cons.prems]] show ?case
    using reach_remove_mono [OF Cons.prems] by (auto simp: prune_def)
qed

text \<open>C10: a denylisted field never survives: after a prune no pruned path reaches any value, and no
  path that reached nothing before reaches anything; paths that neither contain nor
  extend a pruned one still reach exactly the same values.\<close>

theorem prune_removes:
  assumes "wf_json v"
  shows "(\<forall>p \<in> set paths. parse_path p \<noteq> [] \<longrightarrow> reach (parse_path p) (prune v paths) = []) \<and>
    (\<forall>q. reach q v = [] \<longrightarrow> reach q (prune v paths) = []) \<and>
    (\<forall>q. (\<forall>p \<in> set paths. take (length (parse_path p)) q \<noteq> parse_path p \<and>
                          take (length q) (parse_path p) \<noteq> q) \<longrightarrow>
      reach q (prune v paths) = reach q v)"
proof (intro conjI)
  show "\<forall>q. reach q v = [] \<longrightarrow> reach q (prune v paths) = []"
    using prune_fold [OF assms] by blast
  show "\<forall>p \<in> set paths. parse_path p \<noteq> [] \<longrightarrow> reach (parse_path p) (prune v paths) = []"
    using assms
  proof (induction paths arbitrary: v)
    case (Cons p ps)
    have w: "wf_json (remove_at (parse_path p) v)" using Cons.prems by (rule wf_remove_at)
    have "prune v (p # ps) = prune (remove_at (parse_path p) v) ps" by (simp add: prune_def)
    then show ?case
      using Cons.IH [OF w] prune_fold [OF w] reach_remove_self [OF _ Cons.prems] by auto
  qed simp
  show "\<forall>q. (\<forall>p \<in> set paths. take (length (parse_path p)) q \<noteq> parse_path p \<and>
                          take (length q) (parse_path p) \<noteq> q) \<longrightarrow>
      reach q (prune v paths) = reach q v"
    using assms
  proof (induction paths arbitrary: v)
    case (Cons p ps)
    have "prune v (p # ps) = prune (remove_at (parse_path p) v) ps" by (simp add: prune_def)
    then show ?case
      using Cons.IH [OF wf_remove_at [OF Cons.prems]] reach_remove_other [OF Cons.prems] by auto
  qed (simp add: prune_def)
qed

theorem prune_removes_witness:
  "let v = JObj [(''data'', JArr [JObj [(''id'', JNum ''1''), (''key'', JStr ''s'')]]), (''live'', JBool True)]
   in wf_json v \<and> parse_path ''data[].key'' \<noteq> [] \<and> reach (parse_path ''data[].key'') v = [JStr ''s''] \<and>
     reach (parse_path ''data[].key'') (prune v [''data[].key'', ''live'']) = [] \<and>
     reach (parse_path ''data[].id'') (prune v [''data[].key'', ''live'']) = [JNum ''1'']"
proof -
  let ?v = "JObj [(''data'', JArr [JObj [(''id'', JNum ''1''), (''key'', JStr ''s'')]]), (''live'', JBool True)]"
  let ?ps = "[''data[].key'', ''live'']"
  have w: "wf_json ?v" by code_simp
  have e: "parse_path ''data[].key'' = [''data'', wild, ''key'']" "parse_path ''live'' = [''live'']"
      "parse_path ''data[].id'' = [''data'', wild, ''id'']"
    by code_simp+
  have r: "reach [''data'', wild, ''key''] ?v = [JStr ''s'']" "reach [''data'', wild, ''id''] ?v = [JNum ''1'']"
    by code_simp+
  have n: "parse_path ''data[].key'' \<noteq> []" and apart: "\<forall>p \<in> set ?ps.
      take (length (parse_path p)) (parse_path ''data[].id'') \<noteq> parse_path p \<and>
      take (length (parse_path ''data[].id'')) (parse_path p) \<noteq> parse_path ''data[].id''"
    by (simp_all add: e)
  have "reach (parse_path ''data[].key'') (prune ?v ?ps) = []"
    using prune_removes [OF w, of ?ps] n by (meson list.set_intros(1))
  moreover have "reach (parse_path ''data[].id'') (prune ?v ?ps) = reach (parse_path ''data[].id'') ?v"
    using prune_removes [OF w, of ?ps] apart by blast
  ultimately show ?thesis unfolding Let_def using w r n by (simp only: e) blast
qed

section \<open>Writing at a path\<close>

text \<open>Navigation by keys alone, as the two writers navigate.\<close>

fun key_get :: "string list \<Rightarrow> json \<Rightarrow> json option" where
  "key_get [] v = Some v"
| "key_get (k # ks) v = Option.bind (vget v k) (key_get ks)"

text \<open>Every value on the way that exists is an object, so the path can be written.\<close>

fun writable :: "string list \<Rightarrow> json \<Rightarrow> bool" where
  "writable [] v = True"
| "writable (k # ks) v = (case v of JObj m \<Rightarrow>
     ks = [] \<or> (case jget m k of None \<Rightarrow> True | Some c \<Rightarrow> writable ks c) | _ \<Rightarrow> False)"

lemma writable_empty [simp]: "writable ks (JObj [])"
  by (cases ks) (auto simp: jget_def)

lemma key_get_set_at: "ks \<noteq> [] \<Longrightarrow> writable ks v \<Longrightarrow> key_get ks (set_at x ks v) = Some x"
proof (induction x ks v rule: set_at.induct)
  case (3 x seg s2 rest v)
  then obtain m where m: "v = JObj m" by (cases v) auto
  let ?c = "case jget m seg of Some c \<Rightarrow> c | None \<Rightarrow> JObj []"
  have "writable (s2 # rest) ?c"
  proof (cases "jget m seg")
    case None
    then show ?thesis using writable_empty [of "s2 # rest"] by (simp only: option.case)
  next
    case (Some c)
    with "3.prems"(2) m show ?thesis by simp
  qed
  with "3.IH" [OF m, of ?c] have "key_get (s2 # rest) (set_at x (s2 # rest) ?c) = Some x" by simp
  then show ?case by (simp add: m with_child_def)
qed (auto split: json.splits)

lemma key_get_empty: "q \<noteq> [] \<Longrightarrow> key_get q (JObj []) = None"
  by (cases q) (auto simp: jget_def)

lemma key_get_set_other:
  assumes "take (length ks) q \<noteq> ks" "take (length q) ks \<noteq> q"
  shows "key_get q (set_at x ks v) = key_get q v"
  using assms
proof (induction x ks v arbitrary: q rule: set_at.induct)
  case (2 x seg v)
  then show ?case by (cases q; cases v) auto
next
  case (3 x seg s2 rest v)
  then obtain k q' where q: "q = k # q'" by (cases q) auto
  show ?case
  proof (cases v)
    case (JObj m)
    show ?thesis
    proof (cases "k = seg")
      case True
      let ?c = "case jget m seg of Some c \<Rightarrow> c | None \<Rightarrow> JObj []"
      have r: "take (length (s2 # rest)) q' \<noteq> s2 # rest" "take (length q') (s2 # rest) \<noteq> q'"
        using "3.prems" q True by auto
      then have "q' \<noteq> []" by auto
      moreover have "key_get q' (set_at x (s2 # rest) ?c) = key_get q' ?c"
        using "3.IH" [OF JObj r] by simp
      ultimately show ?thesis
        using JObj q True key_get_empty [of q'] by (simp add: with_child_def split: option.split)
    next
      case False
      with 3 q JObj show ?thesis by (simp add: with_child_def)
    qed
  qed (use 3 q in auto)
qed auto

lemma jput_same: "jget m k = Some v \<Longrightarrow> jput k v m = m"
  unfolding jget_def jput_def by (induction m) auto

lemma jput_absent: "jget m k = None \<Longrightarrow> jput k v m = m @ [(k, v)]"
  unfolding jget_def jput_def by (induction m) (auto split: if_splits)

lemma default_at_set_at:
  "default_at x ks v = (case key_get ks v of Some _ \<Rightarrow> v | None \<Rightarrow> set_at x ks v)"
proof (induction x ks v rule: default_at.induct)
  case (2 x seg v)
  then show ?case
    by (cases v) (auto simp: jor_insert_def jhas_def jput_absent vget_def split: option.splits)
next
  case (3 x seg s2 rest v)
  show ?case
  proof (cases v)
    case (JObj m)
    let ?c = "case jget m seg of Some c \<Rightarrow> c | None \<Rightarrow> JObj []"
    have "key_get (s2 # rest) ?c = key_get (seg # s2 # rest) v"
      using JObj key_get_empty [of "s2 # rest"] by (simp split: option.split)
    with "3.IH" [OF JObj, of ?c] JObj show ?thesis
      by (auto simp: with_child_def jput_same split: option.splits)
  qed (simp_all add: vget_def)
qed simp

text \<open>\<open>set\<close> reads back: where the path can be written, the value is the one read there
  afterwards, and no path that diverges from it changes; \<open>set_default\<close> leaves a payload that already
  has the value entirely alone and is otherwise \<open>set\<close>.\<close>

theorem set_then_get:
  "(parse_path p \<noteq> [] \<longrightarrow> writable (parse_path p) v \<longrightarrow>
      key_get (parse_path p) (set_path v p x) = Some x) \<and>
    (take (length (parse_path p)) q \<noteq> parse_path p \<longrightarrow> take (length q) (parse_path p) \<noteq> q \<longrightarrow>
      key_get q (set_path v p x) = key_get q v) \<and>
    set_default v p x = (case key_get (parse_path p) v of Some _ \<Rightarrow> v | None \<Rightarrow> set_path v p x)"
  by (simp add: set_path_def set_default_def key_get_set_at key_get_set_other default_at_set_at
      split: option.split)

theorem set_then_get_witness:
  "let v = JObj [(''a'', JNum ''1'')] in
    parse_path ''meta.src'' = [''meta'', ''src''] \<and> writable [''meta'', ''src''] v \<and>
    key_get (parse_path ''meta.src'') (set_path v ''meta.src'' (JStr ''m'')) = Some (JStr ''m'') \<and>
    key_get [''a''] (set_path v ''meta.src'' (JStr ''m'')) = Some (JNum ''1'')"
proof -
  let ?v = "JObj [(''a'', JNum ''1'')]"
  have e: "parse_path ''meta.src'' = [''meta'', ''src'']" "writable [''meta'', ''src''] ?v"
      "key_get [''a''] ?v = Some (JNum ''1'')"
    by code_simp+
  show ?thesis unfolding Let_def
    using set_then_get [of "''meta.src''" ?v "JStr ''m''" "[''a'']"] e by (simp only: e) simp
qed

end
