(* ===== verification/Config.thy ===== *)
theory Config
  imports Json
begin

text \<open>
  The configuration (\<open>src/src/config.rs\<close>): its data types, the cross-field validation a document must
  pass, the static filters, the scope rules, and the per-tool overlay lookup. Field names carry a
  prefix for their struct, because one namespace holds all of them. A \<open>HashMap\<close> field is its list of
  entries in the order the run iterates it; \<open>u32\<close>, \<open>u64\<close> and \<open>usize\<close> values are natural numbers
  whose width is written out where an operation can reach it. Defaults of the deserializer are the
  \<open>default_\<dots>\<close> definitions. The YAML parser and the URL parser are arguments.
\<close>

section \<open>Upstreams\<close>

datatype result_format = RF_Json | RF_Raw

datatype mode = Passthrough | ThreeTool

definition default_mode :: mode where
  "default_mode = ThreeTool"

record oauth_config =
  oa_token_url :: string
  oa_client_id :: string
  oa_client_secret :: string
  oa_scope :: "string option"
  oa_resource :: "string option"

record upstream_config =
  up_name :: string
  up_optional :: bool
  up_command :: "string option"
  up_args :: "string list"
  up_env :: "(string \<times> string) list"
  up_url :: "string option"
  up_headers :: "(string \<times> string) list"
  up_oauth :: "oauth_config option"
  up_cwd :: "string option"
  up_spec :: "string option"
  up_base_url :: "string option"
  up_auth_env :: "string option"
  up_api_key :: "string option"
  up_accept :: "string option"
  up_result_format :: "result_format option"

definition is_spec :: "upstream_config \<Rightarrow> bool" where
  "is_spec u \<longleftrightarrow> up_spec u \<noteq> None"

definition is_http :: "upstream_config \<Rightarrow> bool" where
  "is_http u \<longleftrightarrow> up_url u \<noteq> None"

definition result_format_of :: "upstream_config \<Rightarrow> result_format" where
  "result_format_of u =
     (case up_result_format u of Some f \<Rightarrow> f | None \<Rightarrow> if is_spec u then RF_Json else RF_Raw)"

section \<open>Rate limits and secrets\<close>

record limit =
  l_calls :: nat
  l_per_s :: nat

definition default_per_s :: nat where
  "default_per_s = 60"

definition default_max_concurrent_calls :: nat where
  "default_max_concurrent_calls = 256"

record rate_limits =
  rl_per_caller :: "limit option"
  rl_per_tool :: "limit option"
  rl_report_only :: bool

definition rl_any :: "rate_limits \<Rightarrow> bool" where
  "rl_any r \<longleftrightarrow> rl_per_caller r \<noteq> None \<or> rl_per_tool r \<noteq> None"

definition rl_report_only_active :: "rate_limits \<Rightarrow> bool" where
  "rl_report_only_active r \<longleftrightarrow> rl_report_only r \<and> rl_any r"

record vault_app_role =
  var_role_id :: string
  var_secret_id :: string
  var_mount :: string

record vault_kubernetes =
  vk_role :: string
  vk_jwt_path :: string
  vk_mount :: string

record vault_auth =
  va_token_env :: "string option"
  va_approle :: "vault_app_role option"
  va_kubernetes :: "vault_kubernetes option"

record vault_config =
  vc_address :: "string option"
  vc_namespace :: "string option"
  vc_mount :: string
  vc_ca_cert :: "string option"
  vc_auth :: vault_auth

record secrets_config =
  sc_vault :: "vault_config option"
  sc_cache_ttl_s :: nat

definition default_secret_ttl :: nat where
  "default_secret_ttl = 300"

definition default_secrets_config :: secrets_config where
  "default_secrets_config = \<lparr>sc_vault = None, sc_cache_ttl_s = default_secret_ttl\<rparr>"

section \<open>Workflows, hints, transforms\<close>

record step =
  st_id :: string
  st_tool :: string
  st_input :: json
  st_output :: "(string \<times> string) list"

record workflow =
  wf_id :: string
  wf_description :: string
  wf_inputs :: json
  wf_steps :: "step list"
  wf_outputs :: "(string \<times> json) list"

record scope_rule =
  sr_scope :: string
  sr_tools :: "string list"

record error_hint =
  eh_contains :: string
  eh_hint :: string
  eh_field :: "string option"
  eh_retryable :: "bool option"

record paginate_config =
  pg_items :: string
  pg_cursor :: string
  pg_into :: string
  pg_more :: "string option"
  pg_max_pages :: nat

definition default_max_pages :: nat where
  "default_max_pages = 10"

datatype when_gate = Always | Success | OnError

record response_transform =
  rt_keep :: "string list"
  rt_remove :: "string list"
  rt_rename :: "(string \<times> string) list"
  rt_set :: "(string \<times> json) list"
  rt_jq :: "string option"
  rt_when :: when_gate

definition is_noop :: "response_transform \<Rightarrow> bool" where
  "is_noop r \<longleftrightarrow> rt_keep r = [] \<and> rt_remove r = [] \<and> rt_rename r = [] \<and> rt_set r = [] \<and> rt_jq r = None"

definition applies :: "response_transform \<Rightarrow> bool \<Rightarrow> bool" where
  "applies r is_error \<longleftrightarrow> (case rt_when r of Always \<Rightarrow> True | Success \<Rightarrow> \<not> is_error | OnError \<Rightarrow> is_error)"

section \<open>Overlays\<close>

datatype binding_policy = BP_Warn | BP_Strict

datatype poisoning_policy = PP_Off | PP_Warn | PP_Strict

datatype binding_strength = Weak | Strong

record field_spec =
  fs_description :: "string option"
  fs_required :: "bool option"
  fs_example :: "json option"
  fs_enum_values :: "json list option"
  fs_ty :: "string option"
  fs_format :: "string option"
  fs_hide :: "bool option"
  fs_user_supplied :: "string option"

definition default_field_spec :: field_spec where
  "default_field_spec = \<lparr>fs_description = None, fs_required = None, fs_example = None,
     fs_enum_values = None, fs_ty = None, fs_format = None, fs_hide = None, fs_user_supplied = None\<rparr>"

datatype field_patch = Description string | PatchSpec field_spec

fun patch_spec :: "field_patch \<Rightarrow> field_spec" where
  "patch_spec (Description d) = default_field_spec\<lparr>fs_description := Some d\<rparr>"
| "patch_spec (PatchSpec s) = s"

record expect =
  ex_status :: "nat option"
  ex_is_error :: "bool option"
  ex_has :: "string list"
  ex_missing :: "string list"
  ex_contains :: "string option"

record verify_check =
  vk_name :: "string option"
  vk_arguments :: json
  vk_expect :: expect

record breaker_config =
  br_consecutive_failures :: nat
  br_cooldown_s :: nat

definition default_breaker_failures :: nat where
  "default_breaker_failures = 5"

definition default_breaker_cooldown :: nat where
  "default_breaker_cooldown = 60"

record overlay =
  ov_tool :: string
  ov_authored_sha :: "string option"
  ov_binding :: "binding_strength option"
  ov_description :: "string option"
  ov_fields :: "(string \<times> field_patch) list"
  ov_aliases :: "string list"
  ov_headers :: "(string \<times> string) list"
  ov_defaults :: "(string \<times> json) list"
  ov_error_hints :: "error_hint list"
  ov_response :: response_transform
  ov_verify :: "verify_check list"
  ov_paginate :: "paginate_config option"
  ov_preflight :: "bool option"
  ov_cacheable :: "bool option"
  ov_timeout_s :: "nat option"
  ov_rate_limit :: "limit option"
  ov_breaker :: "breaker_config option"

definition strength :: "overlay \<Rightarrow> binding_policy \<Rightarrow> binding_strength" where
  "strength ov policy = (case ov_binding ov of Some s \<Rightarrow> s
     | None \<Rightarrow> (case policy of BP_Strict \<Rightarrow> Strong | BP_Warn \<Rightarrow> Weak))"

section \<open>Scopes, filters, identity, HTTP\<close>

record scopes =
  sc_rules :: "scope_rule list"
  sc_report_only :: bool

definition scopes_report_only_active :: "scopes \<Rightarrow> bool" where
  "scopes_report_only_active s \<longleftrightarrow> sc_report_only s \<and> sc_rules s \<noteq> []"

record filters =
  f_include :: "string list"
  f_exclude :: "string list"

record trusted_headers =
  th_scopes :: string
  th_subject :: "string option"

record introspection_config =
  ic_url :: string
  ic_client_id :: string
  ic_client_secret :: string
  ic_cache_ttl_s :: nat
  ic_fail_open :: bool

definition default_introspection_ttl :: nat where
  "default_introspection_ttl = 60"

record protected_resource =
  pr_resource :: string
  pr_authorization_servers :: "string list"
  pr_scopes_supported :: "string list"

record auth =
  au_jwt_secret :: "string option"
  au_jwt_public_key :: "string option"
  au_jwt_public_key_file :: "string option"
  au_jwks_url :: "string option"
  au_scope_claim :: string
  au_audience :: "string option"
  au_issuer :: "string option"
  au_subject_claim :: string
  au_trusted_headers :: "trusted_headers option"
  au_introspection :: "introspection_config option"
  au_allow_anonymous :: bool
  au_protected_resource :: "protected_resource option"

definition default_auth :: auth where
  "default_auth = \<lparr>au_jwt_secret = None, au_jwt_public_key = None, au_jwt_public_key_file = None,
     au_jwks_url = None, au_scope_claim = ''scope'', au_audience = None, au_issuer = None,
     au_subject_claim = ''sub'', au_trusted_headers = None, au_introspection = None,
     au_allow_anonymous = False, au_protected_resource = None\<rparr>"

text \<open>\<open>env\<close> is the value of \<open>MINMCP_JWT_SECRET\<close>.\<close>

definition auth_secret :: "string option \<Rightarrow> auth \<Rightarrow> string option" where
  "auth_secret env a = (case env of Some s \<Rightarrow> Some s | None \<Rightarrow> au_jwt_secret a)"

definition has_verifier :: "string option \<Rightarrow> auth \<Rightarrow> bool" where
  "has_verifier env a \<longleftrightarrow> au_jwks_url a \<noteq> None \<or> au_jwt_public_key a \<noteq> None \<or>
     au_jwt_public_key_file a \<noteq> None \<or> auth_secret env a \<noteq> None"

definition names_the_caller :: "string option \<Rightarrow> auth \<Rightarrow> bool" where
  "names_the_caller env a = (case au_trusted_headers a of
     Some t \<Rightarrow> th_subject t \<noteq> None | None \<Rightarrow> has_verifier env a)"

record tls_config =
  tls_cert_file :: string
  tls_key_file :: string
  tls_client_ca_file :: "string option"

record http_limits =
  hl_max_body_bytes :: nat
  hl_max_in_flight :: nat

definition default_http_limits :: http_limits where
  "default_http_limits = \<lparr>hl_max_body_bytes = 1024 * 1024, hl_max_in_flight = 256\<rparr>"

record http_config =
  hc_tls :: "tls_config option"
  hc_limits :: http_limits

record config =
  c_shadow :: bool
  c_mode :: mode
  c_upstreams :: "upstream_config list"
  c_scopes :: scopes
  c_filters :: filters
  c_auth :: auth
  c_http :: http_config
  c_overlays :: "overlay list"
  c_workflows :: "workflow list"
  c_binding_policy :: binding_policy
  c_poisoning_policy :: poisoning_policy
  c_preflight :: bool
  c_read_cache_ttl_s :: nat
  c_error_hints :: "error_hint list"
  c_log_file :: "string option"
  c_log_hmac_key :: "string option"
  c_rate_limits :: rate_limits
  c_max_concurrent_calls :: nat
  c_secrets :: secrets_config
  c_overlay_index :: "(string \<times> nat) list"

section \<open>Validation\<close>

text \<open>One constructor per \<open>bail!\<close>.\<close>

datatype config_error =
    InvalidYaml
  | DuplicateUpstream string
  | UpstreamNeedsOneKind string
  | UpstreamManyKinds string
  | SpecNeedsBaseUrl string
  | AuthEnvAndApiKey string
  | VaultTwoMethods
  | TrustedHeadersNoScopes
  | TooManyConcurrentCalls nat
  | MaxBodyZero
  | MaxInFlightZero
  | MaxInFlightTooLarge nat
  | AnonymousWithoutIdentity
  | ResourceNeedsVerifier
  | ResourceNotUrl string
  | ResourceBadUrl
  | ResourceNoServers
  | DuplicateOverlay string
  | DuplicateWorkflow string
  | UnreadableConfig
  | UnreadableKeyFile string

definition upstream_kinds :: "upstream_config \<Rightarrow> nat" where
  "upstream_kinds u = length (filter id [up_command u \<noteq> None, up_url u \<noteq> None, up_spec u \<noteq> None])"

fun validate_upstreams :: "string list \<Rightarrow> upstream_config list \<Rightarrow> config_error + unit" where
  "validate_upstreams seen [] = Inr ()"
| "validate_upstreams seen (u # us) =
     (if up_name u \<in> set seen then Inl (DuplicateUpstream (up_name u))
      else if upstream_kinds u = 0 then Inl (UpstreamNeedsOneKind (up_name u))
      else if upstream_kinds u \<noteq> 1 then Inl (UpstreamManyKinds (up_name u))
      else if is_spec u \<and> up_base_url u = None then Inl (SpecNeedsBaseUrl (up_name u))
      else if up_auth_env u \<noteq> None \<and> up_api_key u \<noteq> None then Inl (AuthEnvAndApiKey (up_name u))
      else validate_upstreams (up_name u # seen) us)"

text \<open>\<open>max_permits\<close> is \<open>Semaphore::MAX_PERMITS\<close>.\<close>

definition validate_limits :: "nat \<Rightarrow> config \<Rightarrow> config_error + unit" where
  "validate_limits max_permits cfg =
     (if (case sc_vault (c_secrets cfg) of None \<Rightarrow> False
          | Some v \<Rightarrow> va_approle (vc_auth v) \<noteq> None \<and> va_kubernetes (vc_auth v) \<noteq> None)
      then Inl VaultTwoMethods
      else if (case au_trusted_headers (c_auth cfg) of None \<Rightarrow> False
               | Some t \<Rightarrow> trim (th_scopes t) = [])
      then Inl TrustedHeadersNoScopes
      else if c_max_concurrent_calls cfg > max_permits
      then Inl (TooManyConcurrentCalls (c_max_concurrent_calls cfg))
      else if hl_max_body_bytes (hc_limits (c_http cfg)) = 0 then Inl MaxBodyZero
      else if hl_max_in_flight (hc_limits (c_http cfg)) = 0 then Inl MaxInFlightZero
      else if hl_max_in_flight (hc_limits (c_http cfg)) > max_permits
      then Inl (MaxInFlightTooLarge (hl_max_in_flight (hc_limits (c_http cfg))))
      else Inr ())"

text \<open>\<open>url\<close> parses a URL into its scheme and whether it has a fragment (\<open>reqwest::Url\<close>).\<close>

definition validate_identity ::
  "(string \<Rightarrow> (string \<times> bool) option) \<Rightarrow> string option \<Rightarrow> config \<Rightarrow> config_error + unit" where
  "validate_identity url env cfg =
     (let a = c_auth cfg in
      if au_allow_anonymous a \<and> \<not> has_verifier env a \<and> au_trusted_headers a = None
      then Inl AnonymousWithoutIdentity
      else (case au_protected_resource a of
          None \<Rightarrow> Inr ()
        | Some pr \<Rightarrow>
            if \<not> has_verifier env a then Inl ResourceNeedsVerifier
            else (case url (pr_resource pr) of
                None \<Rightarrow> Inl (ResourceNotUrl (pr_resource pr))
              | Some (scheme, fragment) \<Rightarrow>
                  if fragment \<or> scheme \<notin> {''https'', ''http''} then Inl ResourceBadUrl
                  else if pr_authorization_servers pr = [] then Inl ResourceNoServers
                  else Inr ())))"

fun first_duplicate :: "string list \<Rightarrow> string list \<Rightarrow> string option" where
  "first_duplicate seen [] = None"
| "first_duplicate seen (x # xs) = (if x \<in> set seen then Some x else first_duplicate (x # seen) xs)"

definition validate_names :: "config \<Rightarrow> config_error + unit" where
  "validate_names cfg =
     (case first_duplicate [] (map ov_tool (c_overlays cfg)) of
        Some t \<Rightarrow> Inl (DuplicateOverlay t)
      | None \<Rightarrow> (case first_duplicate [] (map wf_id (c_workflows cfg)) of
          Some w \<Rightarrow> Inl (DuplicateWorkflow w) | None \<Rightarrow> Inr ()))"

definition and_then :: "('e + unit) \<Rightarrow> ('e + unit) \<Rightarrow> 'e + unit" where
  "and_then a b = (case a of Inl e \<Rightarrow> Inl e | Inr _ \<Rightarrow> b)"

definition validate ::
  "nat \<Rightarrow> (string \<Rightarrow> (string \<times> bool) option) \<Rightarrow> string option \<Rightarrow> config \<Rightarrow> config_error + unit" where
  "validate max_permits url env cfg =
     and_then (validate_upstreams [] (c_upstreams cfg))
       (and_then (validate_limits max_permits cfg)
         (and_then (validate_identity url env cfg) (validate_names cfg)))"

section \<open>Overlay lookup\<close>

text \<open>Collecting pairs into a \<open>HashMap\<close>: a later pair replaces an earlier one of its key.\<close>

definition collect_map :: "('k \<times> 'v) list \<Rightarrow> ('k \<times> 'v) list" where
  "collect_map ps = fold (\<lambda>(k, v) m. alist_put k v m) ps []"

definition index_overlays :: "config \<Rightarrow> config" where
  "index_overlays cfg = cfg\<lparr>c_overlay_index :=
     collect_map (map (\<lambda>(i, ov). (ov_tool ov, i)) (enumerate 0 (c_overlays cfg)))\<rparr>"

definition overlay_for :: "config \<Rightarrow> string \<Rightarrow> overlay option" where
  "overlay_for cfg tool_id =
     (if c_overlay_index cfg \<noteq> []
      then map_option (\<lambda>i. c_overlays cfg ! i) (map_of (c_overlay_index cfg) tool_id)
      else List.find (\<lambda>ov. ov_tool ov = tool_id) (c_overlays cfg))"

definition error_hints_for :: "config \<Rightarrow> string \<Rightarrow> error_hint list" where
  "error_hints_for cfg tool_id =
     c_error_hints cfg @ (case overlay_for cfg tool_id of Some ov \<Rightarrow> ov_error_hints ov | None \<Rightarrow> [])"

text \<open>\<open>yaml\<close> is the deserializer.\<close>

definition from_yaml ::
  "(string \<Rightarrow> config option) \<Rightarrow> nat \<Rightarrow> (string \<Rightarrow> (string \<times> bool) option) \<Rightarrow> string option \<Rightarrow> string
    \<Rightarrow> config_error + config" where
  "from_yaml yaml max_permits url env text =
     (case yaml text of
        None \<Rightarrow> Inl InvalidYaml
      | Some cfg \<Rightarrow> (case validate max_permits url env cfg of
          Inl e \<Rightarrow> Inl e | Inr _ \<Rightarrow> Inr (index_overlays cfg)))"

section \<open>Loading from a file\<close>

text \<open>\<open>Path::join\<close> and \<open>is_absolute\<close> on Unix. \<open>base\<close> is the config file's directory, when it has one.\<close>

definition path_join :: "string \<Rightarrow> string \<Rightarrow> string" where
  "path_join base p = (if starts_with ''/'' p then p
     else if base = [] \<or> ends_with ''/'' base then base @ p else base @ ''/'' @ p)"

definition resolve_rel :: "string \<Rightarrow> string \<Rightarrow> string" where
  "resolve_rel base p = (if starts_with ''/'' p then p else path_join base p)"

definition resolve_paths :: "string \<Rightarrow> config \<Rightarrow> config" where
  "resolve_paths base cfg = cfg\<lparr>
     c_upstreams := map (\<lambda>u. u\<lparr>
       up_cwd := Some (case up_cwd u of Some d \<Rightarrow> d | None \<Rightarrow> base),
       up_spec := map_option (resolve_rel base) (up_spec u)\<rparr>) (c_upstreams cfg),
     c_auth := (c_auth cfg)\<lparr>au_jwt_public_key_file :=
       map_option (resolve_rel base) (au_jwt_public_key_file (c_auth cfg))\<rparr>,
     c_log_file := map_option (\<lambda>l. if l \<noteq> ''stderr'' then resolve_rel base l else l) (c_log_file cfg),
     c_http := (c_http cfg)\<lparr>hc_tls := map_option (\<lambda>t. t\<lparr>
       tls_cert_file := resolve_rel base (tls_cert_file t),
       tls_key_file := resolve_rel base (tls_key_file t),
       tls_client_ca_file := map_option (resolve_rel base) (tls_client_ca_file t)\<rparr>) (hc_tls (c_http cfg))\<rparr>\<rparr>"

text \<open>\<open>read\<close> reads a file.\<close>

definition load ::
  "(string \<Rightarrow> string option) \<Rightarrow> (string \<Rightarrow> config option) \<Rightarrow> nat \<Rightarrow> (string \<Rightarrow> (string \<times> bool) option)
    \<Rightarrow> string option \<Rightarrow> string option \<Rightarrow> string \<Rightarrow> config_error + config" where
  "load read yaml max_permits url env base path =
     (case read path of
        None \<Rightarrow> Inl UnreadableConfig
      | Some text \<Rightarrow> (case from_yaml yaml max_permits url env text of
          Inl e \<Rightarrow> Inl e
        | Inr cfg \<Rightarrow> Inr (case base of None \<Rightarrow> cfg | Some b \<Rightarrow> resolve_paths b cfg)))"

definition public_key_pem :: "(string \<Rightarrow> string option) \<Rightarrow> auth \<Rightarrow> config_error + string option" where
  "public_key_pem read a =
     (case au_jwt_public_key a of Some pem \<Rightarrow> Inr (Some pem)
      | None \<Rightarrow> (case au_jwt_public_key_file a of
          Some path \<Rightarrow> (case read path of Some pem \<Rightarrow> Inr (Some pem) | None \<Rightarrow> Inl (UnreadableKeyFile path))
        | None \<Rightarrow> Inr None))"

section \<open>Filters and scopes\<close>

definition pattern_match :: "string \<Rightarrow> string \<Rightarrow> bool" where
  "pattern_match pattern value = (case strip_suffix ''*'' pattern of
     Some prefix \<Rightarrow> starts_with prefix value | None \<Rightarrow> pattern = value)"

definition filter_match :: "string \<Rightarrow> string \<Rightarrow> string \<Rightarrow> bool" where
  "filter_match pattern upstream tool_id =
     (if CHR ''.'' \<notin> set pattern \<and> CHR ''*'' \<notin> set pattern then pattern = upstream
      else pattern_match pattern tool_id)"

definition references_upstream :: "string \<Rightarrow> string \<Rightarrow> bool" where
  "references_upstream pattern upstream =
     (let core = (case strip_suffix ''*'' pattern of Some c \<Rightarrow> c | None \<Rightarrow> pattern)
      in core = upstream \<or> starts_with (upstream @ ''.'') core)"

definition covers_whole_upstream :: "string \<Rightarrow> string \<Rightarrow> bool" where
  "covers_whole_upstream pattern upstream \<longleftrightarrow> pattern = upstream \<or> pattern = upstream @ ''.*''"

definition passes_filter :: "config \<Rightarrow> string \<Rightarrow> string \<Rightarrow> bool" where
  "passes_filter cfg upstream tool_id =
     (let m = (\<lambda>p. filter_match p upstream tool_id) in
      if f_include (c_filters cfg) \<noteq> [] \<and> \<not> list_ex m (f_include (c_filters cfg)) then False
      else \<not> list_ex m (f_exclude (c_filters cfg)))"

definition upstream_enabled :: "config \<Rightarrow> string \<Rightarrow> bool" where
  "upstream_enabled cfg upstream =
     (if f_include (c_filters cfg) \<noteq> [] \<and>
         \<not> list_ex (\<lambda>p. references_upstream p upstream) (f_include (c_filters cfg)) then False
      else \<not> list_ex (\<lambda>p. covers_whole_upstream p upstream) (f_exclude (c_filters cfg)))"

definition allowed :: "config \<Rightarrow> string \<Rightarrow> string list \<Rightarrow> bool" where
  "allowed cfg tool_id granted =
     (if sc_rules (c_scopes cfg) = [] then True
      else list_ex (\<lambda>rule. list_ex (\<lambda>g. g = sr_scope rule) granted \<and>
             list_ex (\<lambda>p. pattern_match p tool_id) (sr_tools rule)) (sc_rules (c_scopes cfg)))"

section \<open>What a loaded configuration guarantees\<close>

definition good_upstream :: "upstream_config \<Rightarrow> bool" where
  "good_upstream u \<longleftrightarrow>
     (up_command u \<noteq> None \<and> up_url u = None \<and> up_spec u = None \<or>
      up_command u = None \<and> up_url u \<noteq> None \<and> up_spec u = None \<or>
      up_command u = None \<and> up_url u = None \<and> up_spec u \<noteq> None \<and> up_base_url u \<noteq> None) \<and>
     (up_auth_env u = None \<or> up_api_key u = None)"

definition valid_config :: "nat \<Rightarrow> (string \<Rightarrow> (string \<times> bool) option) \<Rightarrow> string option \<Rightarrow> config \<Rightarrow> bool" where
  "valid_config max_permits url env cfg \<longleftrightarrow>
     distinct (map up_name (c_upstreams cfg)) \<and> list_all good_upstream (c_upstreams cfg) \<and>
     validate_limits max_permits cfg = Inr () \<and> validate_identity url env cfg = Inr () \<and>
     distinct (map ov_tool (c_overlays cfg)) \<and> distinct (map wf_id (c_workflows cfg))"

lemma good_upstream_kinds:
  "good_upstream u \<longleftrightarrow> upstream_kinds u = 1 \<and> (is_spec u \<longrightarrow> up_base_url u \<noteq> None) \<and>
    (up_auth_env u = None \<or> up_api_key u = None)"
  by (auto simp: good_upstream_def upstream_kinds_def is_spec_def)

lemma validate_upstreams_iff:
  "validate_upstreams seen us = Inr () \<longleftrightarrow>
    distinct (map up_name us) \<and> set (map up_name us) \<inter> set seen = {} \<and> list_all good_upstream us"
  by (induction seen us rule: validate_upstreams.induct) (auto simp: good_upstream_kinds)

lemma first_duplicate_None: "first_duplicate seen xs = None \<longleftrightarrow> distinct xs \<and> set xs \<inter> set seen = {}"
  by (induction seen xs rule: first_duplicate.induct) auto

lemma first_duplicate_Some: "first_duplicate [] xs = Some x \<Longrightarrow> \<not> distinct xs"
  using first_duplicate_None [of "[]" xs] by auto

lemma and_then_Inr: "and_then a b = Inr () \<longleftrightarrow> a = Inr () \<and> b = Inr ()"
  by (auto simp: and_then_def split: sum.splits)

lemma validate_iff: "validate max_permits url env cfg = Inr () \<longleftrightarrow> valid_config max_permits url env cfg"
  by (auto simp: validate_def valid_config_def and_then_Inr validate_upstreams_iff validate_names_def
      first_duplicate_None dest: first_duplicate_Some split: option.splits)

lemma validate_limits_iff:
  "validate_limits max_permits cfg = Inr () \<longleftrightarrow>
    (\<forall>v. sc_vault (c_secrets cfg) = Some v \<longrightarrow> va_approle (vc_auth v) = None \<or> va_kubernetes (vc_auth v) = None) \<and>
    (\<forall>t. au_trusted_headers (c_auth cfg) = Some t \<longrightarrow> trim (th_scopes t) \<noteq> []) \<and>
    c_max_concurrent_calls cfg \<le> max_permits \<and> 0 < hl_max_body_bytes (hc_limits (c_http cfg)) \<and>
    0 < hl_max_in_flight (hc_limits (c_http cfg)) \<and> hl_max_in_flight (hc_limits (c_http cfg)) \<le> max_permits"
  by (auto simp: validate_limits_def split: option.splits)

lemma fold_alist_put_map_of: "map_of (fold (\<lambda>(k, v) m. alist_put k v m) ps m) = map_of m ++ map_of (rev ps)"
  by (induction ps arbitrary: m) (auto simp: map_add_def fun_eq_iff split: option.splits)

lemma collect_map_of: "map_of (collect_map ps) = map_of (rev ps)"
  by (simp add: collect_map_def fold_alist_put_map_of)

lemma collect_map_distinct: "distinct (map fst ps) \<Longrightarrow> map_of (collect_map ps) = map_of ps"
  unfolding collect_map_of by (rule map_of_distinct_set) (simp_all flip: rev_map)

lemma find_map_of: "distinct (map f xs) \<Longrightarrow>
    map_option (\<lambda>i. xs ! (i - n)) (map_of (map (\<lambda>(i, x). (f x, i)) (enumerate n xs)) k) =
    List.find (\<lambda>x. f x = k) xs"
proof (induction xs arbitrary: n)
  case Nil
  then show ?case by simp
next
  case (Cons x xs)
  have ge: "map_of (map (\<lambda>(i, x). (f x, i)) (enumerate (Suc n) xs)) k = Some i \<Longrightarrow> Suc n \<le> i" for i
    by (auto dest!: map_of_SomeD simp: in_set_enumerate_eq)
  have "map_option (\<lambda>i. (x # xs) ! (i - n)) (map_of (map (\<lambda>(i, x). (f x, i)) (enumerate (Suc n) xs)) k) =
      map_option (\<lambda>i. xs ! (i - Suc n)) (map_of (map (\<lambda>(i, x). (f x, i)) (enumerate (Suc n) xs)) k)"
    using ge by (auto intro!: option.map_cong simp: Suc_diff_le nth_Cons')
  with Cons.IH [of "Suc n"] Cons.prems show ?case by auto
qed

lemma enumerate_keys: "map fst (map (\<lambda>(i, x). (f x, i)) (enumerate n xs)) = map f xs"
  by (induction xs arbitrary: n) auto

lemma overlay_for_indexed:
  assumes "distinct (map ov_tool (c_overlays cfg))"
  shows "overlay_for (index_overlays cfg) tid = List.find (\<lambda>ov. ov_tool ov = tid) (c_overlays cfg)"
proof -
  let ?ps = "map (\<lambda>(i, ov). (ov_tool ov, i)) (enumerate 0 (c_overlays cfg))"
  have m: "map_of (collect_map ?ps) = map_of ?ps"
    using assms by (simp only: collect_map_distinct enumerate_keys)
  show ?thesis
  proof (cases "c_overlays cfg = []")
    case True
    then show ?thesis by (simp add: overlay_for_def index_overlays_def collect_map_def)
  next
    case False
    then have "map_of ?ps (ov_tool (hd (c_overlays cfg))) \<noteq> None"
      by (cases "c_overlays cfg") auto
    then have "collect_map ?ps \<noteq> []" using m by (metis map_of.simps(1))
    then show ?thesis
      using find_map_of [OF assms, of 0 tid] m by (simp add: overlay_for_def index_overlays_def)
  qed
qed

text \<open>The configuration a document with only \<open>upstreams\<close> parses to.\<close>

definition config_of_upstreams :: "upstream_config list \<Rightarrow> config" where
  "config_of_upstreams ups = \<lparr>c_shadow = False, c_mode = default_mode, c_upstreams = ups,
     c_scopes = \<lparr>sc_rules = [], sc_report_only = False\<rparr>, c_filters = \<lparr>f_include = [], f_exclude = []\<rparr>,
     c_auth = default_auth, c_http = \<lparr>hc_tls = None, hc_limits = default_http_limits\<rparr>,
     c_overlays = [], c_workflows = [], c_binding_policy = BP_Warn, c_poisoning_policy = PP_Warn,
     c_preflight = True, c_read_cache_ttl_s = 0, c_error_hints = [], c_log_file = None,
     c_log_hmac_key = None,
     c_rate_limits = \<lparr>rl_per_caller = None, rl_per_tool = None, rl_report_only = False\<rparr>,
     c_max_concurrent_calls = default_max_concurrent_calls, c_secrets = default_secrets_config,
     c_overlay_index = []\<rparr>"

definition default_transform :: response_transform where
  "default_transform = \<lparr>rt_keep = [], rt_remove = [], rt_rename = [], rt_set = [], rt_jq = None, rt_when = Always\<rparr>"

definition default_overlay :: "string \<Rightarrow> overlay" where
  "default_overlay tool = \<lparr>ov_tool = tool, ov_authored_sha = None, ov_binding = None, ov_description = None,
     ov_fields = [], ov_aliases = [], ov_headers = [], ov_defaults = [], ov_error_hints = [],
     ov_response = default_transform, ov_verify = [], ov_paginate = None, ov_preflight = None,
     ov_cacheable = None, ov_timeout_s = None, ov_rate_limit = None, ov_breaker = None\<rparr>"

definition stdio_upstream :: "string \<Rightarrow> string \<Rightarrow> upstream_config" where
  "stdio_upstream name command = \<lparr>up_name = name, up_optional = False, up_command = Some command,
     up_args = [], up_env = [], up_url = None, up_headers = [], up_oauth = None, up_cwd = None,
     up_spec = None, up_base_url = None, up_auth_env = None, up_api_key = None, up_accept = None,
     up_result_format = None\<rparr>"

lemma valid_config_index:
  "valid_config max_permits url env (index_overlays cfg) = valid_config max_permits url env cfg"
proof -
  have "validate_limits max_permits (index_overlays cfg) = validate_limits max_permits cfg"
    by (simp add: validate_limits_def index_overlays_def)
  moreover have "validate_identity url env (index_overlays cfg) = validate_identity url env cfg"
    by (simp add: validate_identity_def index_overlays_def)
  ultimately show ?thesis by (simp add: valid_config_def) (simp add: index_overlays_def)
qed



section \<open>Filters and scopes: what they decide\<close>

lemma prefix_cases: "pre @ a = up @ b \<Longrightarrow> (\<exists>c. up = pre @ c) \<or> (\<exists>c. pre = up @ c)"
  by (metis append_eq_append_conv2)

lemma references_of_match:
  assumes "filter_match p up (up @ ''.'' @ x)"
    and "\<And>pre. p = pre @ ''*'' \<Longrightarrow> \<not> (\<exists>c. c \<noteq> [] \<and> up = pre @ c)"
  shows "references_upstream p up"
proof (cases "CHR ''.'' \<notin> set p \<and> CHR ''*'' \<notin> set p")
  case True
  with assms(1) have "p = up" by (simp add: filter_match_def)
  moreover have "strip_suffix ''*'' p = None" using True by (auto simp: strip_suffix_None)
  ultimately show ?thesis by (simp add: references_upstream_def)
next
  case False
  with assms(1) have m: "pattern_match p (up @ ''.'' @ x)" by (simp add: filter_match_def)
  show ?thesis
  proof (cases "strip_suffix ''*'' p")
    case None
    with m have "p = up @ ''.'' @ x" by (simp add: pattern_match_def)
    with None show ?thesis by (auto simp: references_upstream_def starts_with_append)
  next
    case (Some pre)
    then have p: "p = pre @ ''*''" by (simp add: strip_suffix_Some)
    with m Some obtain r where r: "up @ ''.'' @ x = pre @ r" by (auto simp: pattern_match_def starts_with_append)
    then consider (a) c where "up = pre @ c" | (b) c where "pre = up @ c"
      by (metis prefix_cases)
    then show ?thesis
    proof cases
      case a
      with assms(2) [OF p] have "up = pre" by auto
      with Some show ?thesis by (simp add: references_upstream_def)
    next
      case b
      with r have "''.'' @ x = c @ r" by simp
      then have "c = [] \<or> (\<exists>c'. c = CHR ''.'' # c')" by (cases c) auto
      with b Some show ?thesis by (auto simp: references_upstream_def starts_with_append)
    qed
  qed
qed

lemma match_of_covers:
  assumes "covers_whole_upstream p up" "CHR ''.'' \<notin> set up" "CHR ''*'' \<notin> set up"
  shows "filter_match p up (up @ ''.'' @ x)"
proof -
  consider "p = up" | "p = up @ ''.*''" using assms(1) by (auto simp: covers_whole_upstream_def)
  then show ?thesis
  proof cases
    case 1
    with assms show ?thesis by (simp add: filter_match_def)
  next
    case 2
    then have "strip_suffix ''*'' p = Some (up @ ''.'')" by (simp add: strip_suffix_Some)
    with 2 show ?thesis by (auto simp: filter_match_def pattern_match_def starts_with_append)
  qed
qed

text \<open>An upstream the filters switch off (so it is never spawned) has no tool that would pass them,
  provided its name has no dot or star and every include wildcard spells the upstream's name out.\<close>

theorem upstream_enabled_conservative:
  assumes "\<not> upstream_enabled cfg up"
    and "CHR ''.'' \<notin> set up" "CHR ''*'' \<notin> set up"
    and "\<And>pre c. pre @ ''*'' \<in> set (f_include (c_filters cfg)) \<Longrightarrow> up = pre @ c \<Longrightarrow> c = []"
  shows "\<not> passes_filter cfg up (up @ ''.'' @ x)"
proof (cases "f_include (c_filters cfg) \<noteq> [] \<and>
    \<not> list_ex (\<lambda>p. references_upstream p up) (f_include (c_filters cfg))")
  case True
  have "\<not> filter_match p up (up @ ''.'' @ x)" if "p \<in> set (f_include (c_filters cfg))" for p
    using references_of_match [of p up x] True assms(4) that by (auto simp: list_ex_iff)
  with True show ?thesis by (auto simp: passes_filter_def list_ex_iff)
next
  case False
  with assms(1) have "list_ex (\<lambda>p. covers_whole_upstream p up) (f_exclude (c_filters cfg))"
    unfolding upstream_enabled_def by auto
  then have "list_ex (\<lambda>p. filter_match p up (up @ ''.'' @ x)) (f_exclude (c_filters cfg))"
    using match_of_covers [OF _ assms(2,3)] by (auto simp: list_ex_iff)
  then show ?thesis by (simp add: passes_filter_def Let_def)
qed

theorem upstream_enabled_conservative_witness:
  "let cfg = (config_of_upstreams [stdio_upstream ''git'' ''x''])
       \<lparr>c_filters := \<lparr>f_include = [''stripe.*''], f_exclude = []\<rparr>\<rparr>
   in \<not> upstream_enabled cfg ''git'' \<and> \<not> passes_filter cfg ''git'' (''git'' @ ''.'' @ ''commit'')"
proof -
  let ?c = "(config_of_upstreams [stdio_upstream ''git'' ''x''])
       \<lparr>c_filters := \<lparr>f_include = [''stripe.*''], f_exclude = []\<rparr>\<rparr>"
  have e: "\<not> upstream_enabled ?c ''git''"
    by (simp add: upstream_enabled_def references_upstream_def strip_suffix_def starts_with_def)
  have "\<not> passes_filter ?c ''git'' (''git'' @ ''.'' @ ''commit'')"
    by (rule upstream_enabled_conservative [OF e])
       (auto simp: append_eq_Cons_conv Cons_eq_append_conv)
  with e show ?thesis unfolding Let_def by blast
qed

text \<open>the check is not conservative for a wildcard that stops short of the name: with
  \<open>include: ["*"]\<close> every tool of every upstream passes the filters, and yet no named upstream is
  enabled, so none is ever spawned.\<close>

theorem include_star_disables_upstreams:
  assumes "f_include (c_filters cfg) = [''*'']" "f_exclude (c_filters cfg) = []" "up \<noteq> []"
  shows "passes_filter cfg up tool_id \<and> \<not> upstream_enabled cfg up"
  using assms
  by (simp add: passes_filter_def upstream_enabled_def filter_match_def pattern_match_def
      references_upstream_def strip_suffix_def starts_with_def)
     (cases up; simp)

theorem include_star_disables_upstreams_witness:
  "let cfg = (config_of_upstreams [stdio_upstream ''git'' ''x''])
       \<lparr>c_filters := \<lparr>f_include = [''*''], f_exclude = []\<rparr>\<rparr>
   in passes_filter cfg ''git'' ''git.commit'' \<and> \<not> upstream_enabled cfg ''git''"
  unfolding Let_def by (rule include_star_disables_upstreams) simp_all

end
