(* ===== verification/Gates.thy ===== *)
theory Gates
  imports Prelude
begin

text \<open>
  Two contracts several components provide. \<open>attempt_gate\<close>: a stateful guard that lets an attempt
  through only when the previous one is at least \<open>gap\<close> old, so attempts cannot come faster whatever
  the callers do. \<open>bounded_store\<close>: an insertion that evicts rather than exceed its capacity and never
  invents an entry. Each is interpreted on the definitions of the component that provides it.
\<close>

section \<open>Spaced attempts\<close>

fun gate_run :: "('s \<Rightarrow> nat \<Rightarrow> bool \<times> 's) \<Rightarrow> 's \<Rightarrow> nat list \<Rightarrow> nat list" where
  "gate_run attempt st [] = []"
| "gate_run attempt st (t # ts) =
     (let (go, st') = attempt st t in (if go then [t] else []) @ gate_run attempt st' ts)"

fun spaced :: "nat \<Rightarrow> nat list \<Rightarrow> bool" where
  "spaced gap (s # t # ts) = (s + gap \<le> t \<and> spaced gap (t # ts))"
| "spaced gap _ = True"

lemma spaced_Cons: "spaced gap (t # ts) \<longleftrightarrow> (ts = [] \<or> t + gap \<le> hd ts) \<and> spaced gap ts"
  by (cases ts) auto

lemma spaced_length: "spaced gap ts \<Longrightarrow> ts \<noteq> [] \<Longrightarrow> hd ts + gap * (length ts - 1) \<le> last ts"
proof (induction gap ts rule: spaced.induct)
  case (1 gap s t ts)
  then have "t + gap * (length (t # ts) - 1) \<le> last (t # ts)" "s + gap \<le> t" by auto
  then show ?case by simp
qed auto

lemma spaced_window:
  assumes "spaced gap ts" "0 < gap" "\<forall>t \<in> set ts. a \<le> t \<and> t \<le> b"
  shows "length ts \<le> (b - a) div gap + 1"
proof (cases "ts = []")
  case False
  then have "gap * (length ts - 1) \<le> last ts - hd ts"
    using spaced_length [OF assms(1)] by linarith
  also have "\<dots> \<le> b - a"
  proof -
    have "a \<le> hd ts" "last ts \<le> b" using assms(3) False by simp_all
    then show ?thesis by linarith
  qed
  finally have "length ts - 1 \<le> (b - a) div gap"
    using assms(2) by (simp add: less_eq_div_iff_mult_less_eq mult.commute)
  then show ?thesis by simp
qed simp

locale attempt_gate =
  fixes attempt :: "'s \<Rightarrow> nat \<Rightarrow> bool \<times> 's"
    and stamp :: "'s \<Rightarrow> nat option"
    and gap :: nat
  assumes passes_stamp: "attempt st t = (True, st') \<Longrightarrow> stamp st' = Some t"
    and refuses_keep: "attempt st t = (False, st') \<Longrightarrow> stamp st' = stamp st"
    and passes_late: "attempt st t = (True, st') \<Longrightarrow> stamp st = Some u \<Longrightarrow> u + gap \<le> t"
begin

lemma run_spaced: "spaced gap (gate_run attempt st ts) \<and>
    (\<forall>u. stamp st = Some u \<longrightarrow> gate_run attempt st ts \<noteq> [] \<longrightarrow> u + gap \<le> hd (gate_run attempt st ts))"
proof (induction ts arbitrary: st)
  case Nil
  then show ?case by simp
next
  case (Cons t ts)
  obtain go st' where a: "attempt st t = (go, st')" by (cases "attempt st t")
  show ?case
  proof (cases go)
    case True
    with a have "stamp st' = Some t" by (simp add: passes_stamp)
    with Cons.IH [of st'] a True show ?thesis
      by (auto simp: spaced_Cons dest: passes_late)
  next
    case False
    with a have "stamp st' = stamp st" by (simp add: refuses_keep)
    with Cons.IH [of st'] a False show ?thesis by simp
  qed
qed

lemma run_rate:
  assumes "0 < gap" "\<forall>t \<in> set (gate_run attempt st ts). a \<le> t \<and> t \<le> b"
  shows "length (gate_run attempt st ts) \<le> (b - a) div gap + 1"
  using run_spaced [of st ts] assms by (blast intro: spaced_window)

end

lemma gate_run_subset: "set (gate_run attempt st ts) \<subseteq> set ts"
  by (induction ts arbitrary: st) (auto split: prod.splits if_splits)

section \<open>Bounded stores\<close>

type_synonym ('k, 'v) store = "('k \<times> 'v) list"

fun put_all :: "('k \<Rightarrow> 'v \<Rightarrow> 'm \<Rightarrow> 'm) \<Rightarrow> ('k \<times> 'v) list \<Rightarrow> 'm \<Rightarrow> 'm" where
  "put_all put [] m = m"
| "put_all put ((k, v) # ps) m = put_all put ps (put k v m)"

locale bounded_store =
  fixes put :: "'k \<Rightarrow> 'v \<Rightarrow> ('k, 'v) store \<Rightarrow> ('k, 'v) store"
    and cap :: nat
  assumes put_distinct: "distinct (map fst m) \<Longrightarrow> distinct (map fst (put k v m))"
    and put_bound: "distinct (map fst m) \<Longrightarrow> length m \<le> cap \<Longrightarrow> length (put k v m) \<le> cap"
    and put_other: "distinct (map fst m) \<Longrightarrow> map_of (put k v m) j = Some w \<Longrightarrow>
      (j = k \<and> w = v) \<or> map_of m j = Some w"
begin

lemma all_bounded:
  "distinct (map fst m) \<Longrightarrow> length m \<le> cap \<Longrightarrow>
    distinct (map fst (put_all put ps m)) \<and> length (put_all put ps m) \<le> cap"
proof (induction ps arbitrary: m)
  case Nil
  then show ?case by simp
next
  case (Cons p ps)
  from Cons.IH [OF put_distinct [OF Cons.prems(1)] put_bound [OF Cons.prems]]
  show ?case by (cases p) simp
qed

lemma all_genuine:
  "distinct (map fst m) \<Longrightarrow> map_of (put_all put ps m) j = Some w \<Longrightarrow>
    (j, w) \<in> set ps \<or> map_of m j = Some w"
proof (induction ps arbitrary: m)
  case Nil
  then show ?case by simp
next
  case (Cons p ps)
  obtain k v where p: "p = (k, v)" by (cases p)
  from Cons.IH [of "put k v m"] Cons.prems put_distinct [of m k v]
  have "(j, w) \<in> set ps \<or> map_of (put k v m) j = Some w" by (simp add: p)
  with put_other [OF Cons.prems(1), of k v j w] show ?case by (auto simp: p)
qed

end

end
