(* ===== verification/Breaker.thy ===== *)
theory Breaker
  imports Config Gates
begin

text \<open>
  The per-tool circuit breaker (\<open>src/src/surface/breaker.rs\<close>): closed, open for a cooldown, half-open
  with one probe at a time. An \<open>Instant\<close> is a number of nanoseconds; \<open>consecutive\<close> saturates at the
  top of \<open>u32\<close>, and an expiry past the top of the clock falls back to one year.
\<close>

datatype decision = Allow bool | Block nat nat

abbreviation sec :: nat where
  "sec \<equiv> 1000000000"

definition stale_probe_after :: nat where
  "stale_probe_after = 180 * sec"

record breaker_state =
  bs_consecutive :: nat
  bs_open_until :: "nat option"
  bs_probe_started :: "nat option"

definition default_breaker_state :: breaker_state where
  "default_breaker_state = \<lparr>bs_consecutive = 0, bs_open_until = None, bs_probe_started = None\<rparr>"

definition breaker_check :: "breaker_state \<Rightarrow> nat \<Rightarrow> decision \<times> breaker_state" where
  "breaker_check st now =
     (case bs_open_until st of
        None \<Rightarrow> (Allow False, st)
      | Some until \<Rightarrow>
          if now < until then (Block (bs_consecutive st) (max ((until - now) div sec) 1), st)
          else if (case bs_probe_started st of None \<Rightarrow> False | Some at \<Rightarrow> \<not> now - at \<ge> stale_probe_after)
          then (Block (bs_consecutive st) 1, st)
          else (Allow True, st\<lparr>bs_probe_started := Some now\<rparr>))"

text \<open>\<open>Instant::checked_add\<close>: the seconds of an instant are a signed 64-bit count.\<close>

definition instant_checked_add :: "nat \<Rightarrow> nat \<Rightarrow> nat option" where
  "instant_checked_add now secs =
     (if now div sec + secs < 2 ^ 63 then Some (now + secs * sec) else None)"

definition on_result :: "breaker_config \<Rightarrow> bool \<Rightarrow> bool \<Rightarrow> nat \<Rightarrow> breaker_state \<Rightarrow> breaker_state" where
  "on_result cfg is_error was_probe now st =
     (let st = (if was_probe then st\<lparr>bs_probe_started := None\<rparr> else st) in
      if \<not> is_error then st\<lparr>bs_consecutive := 0, bs_open_until := None\<rparr>
      else
        (let st = st\<lparr>bs_consecutive := min (bs_consecutive st + 1) (2 ^ 32 - 1)\<rparr> in
         if was_probe \<or> bs_consecutive st \<ge> br_consecutive_failures cfg
         then st\<lparr>bs_open_until := Some (case instant_checked_add now (br_cooldown_s cfg) of
                Some t \<Rightarrow> t | None \<Rightarrow> now + 60 * 60 * 24 * 365 * sec)\<rparr>
         else st))"

section \<open>Runs\<close>

text \<open>What happens to one breaker, in order: a call asks, or an admitted call's outcome arrives.\<close>

datatype breaker_event = Ask nat | Outcome bool bool nat

fun event_time :: "breaker_event \<Rightarrow> nat" where
  "event_time (Ask t) = t"
| "event_time (Outcome e p t) = t"

fun breaker_step :: "breaker_config \<Rightarrow> breaker_event \<Rightarrow> breaker_state \<Rightarrow> decision option \<times> breaker_state" where
  "breaker_step cfg (Ask t) st = (case breaker_check st t of (d, st') \<Rightarrow> (Some d, st'))"
| "breaker_step cfg (Outcome e p t) st = (None, on_result cfg e p t st)"

fun breaker_run :: "breaker_config \<Rightarrow> breaker_state \<Rightarrow> breaker_event list \<Rightarrow> decision list \<times> breaker_state" where
  "breaker_run cfg st [] = ([], st)"
| "breaker_run cfg st (e # es) =
     (case breaker_step cfg e st of (d, st') \<Rightarrow>
        case breaker_run cfg st' es of (ds, st'') \<Rightarrow>
          ((case d of Some d \<Rightarrow> d # ds | None \<Rightarrow> ds), st''))"

definition is_block :: "decision \<Rightarrow> bool" where
  "is_block d \<longleftrightarrow> (\<exists>n r. d = Block n r)"

definition open_at :: "breaker_state \<Rightarrow> nat \<Rightarrow> bool" where
  "open_at st t \<longleftrightarrow> (\<exists>u. bs_open_until st = Some u \<and> t < u)"

definition cooldown_end :: "breaker_config \<Rightarrow> nat \<Rightarrow> nat" where
  "cooldown_end cfg t = (case instant_checked_add t (br_cooldown_s cfg) of
     Some u \<Rightarrow> u | None \<Rightarrow> t + 60 * 60 * 24 * 365 * sec)"

fun failed_result :: "breaker_event \<Rightarrow> bool" where
  "failed_result (Ask t) = True"
| "failed_result (Outcome e p t) = e"

lemma check_open: "open_at st t \<Longrightarrow> \<exists>n r. breaker_check st t = (Block n r, st) \<and> 1 \<le> r"
  by (auto simp: open_at_def breaker_check_def)

lemma on_result_open:
  "on_result cfg True p t st = st' \<Longrightarrow>
    bs_open_until st' = bs_open_until st \<or> bs_open_until st' = Some (cooldown_end cfg t)"
  by (auto simp: on_result_def cooldown_end_def Let_def split: if_splits)

text \<open>\<open>blocked_until u\<close>: the breaker is open at least to \<open>u\<close>.\<close>

definition blocked_until :: "nat \<Rightarrow> breaker_state \<Rightarrow> bool" where
  "blocked_until u st \<longleftrightarrow> (\<exists>w. bs_open_until st = Some w \<and> u \<le> w)"

lemma run_blocked:
  assumes "blocked_until u st" "\<forall>e \<in> set es. failed_result e \<and> event_time e < u \<and> u \<le> cooldown_end cfg (event_time e)"
  shows "\<forall>d \<in> set (fst (breaker_run cfg st es)). is_block d"
  using assms
proof (induction es arbitrary: st)
  case Nil
  then show ?case by simp
next
  case (Cons e es)
  show ?case
  proof (cases e)
    case (Ask t)
    with Cons.prems have "open_at st t" by (auto simp: blocked_until_def open_at_def)
    then obtain n r where "breaker_check st t = (Block n r, st)" using check_open by blast
    with Cons Ask show ?thesis by (auto simp: is_block_def split: prod.splits)
  next
    case (Outcome er p t)
    with Cons.prems have "er" by simp
    with Outcome Cons.prems have "blocked_until u (on_result cfg er p t st)"
      using on_result_open [of cfg p t st] by (auto simp: blocked_until_def)
    with Cons Outcome show ?thesis by (auto split: prod.splits)
  qed
qed

section \<open>What the breaker guarantees\<close>

definition clock_ok :: "breaker_config \<Rightarrow> nat \<Rightarrow> bool" where
  "clock_ok cfg t \<longleftrightarrow> t div sec + br_cooldown_s cfg < 2 ^ 63"

lemma cooldown_end_ok: "clock_ok cfg t \<Longrightarrow> cooldown_end cfg t = t + br_cooldown_s cfg * sec"
  by (simp add: clock_ok_def cooldown_end_def instant_checked_add_def)

text \<open>C20: once a failure trips the breaker, every call asked for within the cooldown is refused, however
  many callers ask and however many late failures of calls already in flight arrive meanwhile.\<close>

theorem breaker_open_blocks:
  assumes "probe \<or> br_consecutive_failures cfg \<le> bs_consecutive st + 1"
    and "br_consecutive_failures cfg < 2 ^ 32" "clock_ok cfg t"
    and "\<forall>e \<in> set es. failed_result e \<and> t \<le> event_time e \<and>
      event_time e < t + br_cooldown_s cfg * sec \<and> clock_ok cfg (event_time e)"
  shows "\<forall>d \<in> set (fst (breaker_run cfg (on_result cfg True probe t st) es)). is_block d"
proof (rule run_blocked [where u = "t + br_cooldown_s cfg * sec"])
  have "cooldown_end cfg t = t + br_cooldown_s cfg * sec" using assms(3) by (rule cooldown_end_ok)
  then show "blocked_until (t + br_cooldown_s cfg * sec) (on_result cfg True probe t st)"
    using assms(1,2) by (auto simp: blocked_until_def on_result_def Let_def cooldown_end_def)
  show "\<forall>e \<in> set es. failed_result e \<and> event_time e < t + br_cooldown_s cfg * sec \<and>
      t + br_cooldown_s cfg * sec \<le> cooldown_end cfg (event_time e)"
    using assms(4) by (auto simp: cooldown_end_ok)
qed

theorem breaker_open_blocks_witness:
  "list_all is_block (fst (breaker_run \<lparr>br_consecutive_failures = 1, br_cooldown_s = 60\<rparr>
      (on_result \<lparr>br_consecutive_failures = 1, br_cooldown_s = 60\<rparr> True False 5 default_breaker_state)
      [Ask 10, Outcome True False 12, Ask 59]))"
  unfolding list_all_iff
  by (rule breaker_open_blocks) (simp_all add: clock_ok_def default_breaker_state_def)

fun repeat_failure :: "breaker_config \<Rightarrow> nat \<Rightarrow> nat \<Rightarrow> breaker_state \<Rightarrow> breaker_state" where
  "repeat_failure cfg t 0 st = st"
| "repeat_failure cfg t (Suc n) st = on_result cfg True False t (repeat_failure cfg t n st)"

lemma repeat_failure_count:
  "n < 2 ^ 32 \<Longrightarrow> bs_consecutive st = 0 \<Longrightarrow> bs_consecutive (repeat_failure cfg t n st) = n"
  by (induction n) (auto simp: on_result_def Let_def)

text \<open>From a closed breaker, a run of failures opens it exactly at the threshold, and one success at
  any point closes it and starts the count again.\<close>

theorem breaker_trips_at_threshold:
  assumes "bs_consecutive st = 0" "bs_open_until st = None"
    and "br_consecutive_failures cfg < 2 ^ 32" "n < 2 ^ 32"
  shows "(bs_open_until (repeat_failure cfg t n st) = None \<longleftrightarrow>
      n = 0 \<or> n < br_consecutive_failures cfg) \<and>
    fst (breaker_check (on_result cfg False p t (repeat_failure cfg t n st)) t') = Allow False \<and>
    bs_consecutive (on_result cfg False p t (repeat_failure cfg t n st)) = 0"
proof -
  have "bs_open_until (repeat_failure cfg t n st) = None \<longleftrightarrow> n = 0 \<or> n < br_consecutive_failures cfg"
    using assms(4)
  proof (induction n)
    case 0
    then show ?case using assms(2) by simp
  next
    case (Suc n)
    then have c: "bs_consecutive (repeat_failure cfg t n st) = n" using assms(1) repeat_failure_count by simp
    from Suc have m: "min (Suc n) (2 ^ 32 - 1) = Suc n" by simp
    show ?case using Suc c m by (auto simp: on_result_def Let_def)
  qed
  then show ?thesis by (simp add: on_result_def breaker_check_def Let_def)
qed

theorem breaker_trips_at_threshold_witness:
  "bs_open_until (repeat_failure \<lparr>br_consecutive_failures = 5, br_cooldown_s = 60\<rparr> 7 4 default_breaker_state) = None \<and>
   bs_open_until (repeat_failure \<lparr>br_consecutive_failures = 5, br_cooldown_s = 60\<rparr> 7 5 default_breaker_state) \<noteq> None"
  using breaker_trips_at_threshold [of default_breaker_state "\<lparr>br_consecutive_failures = 5, br_cooldown_s = 60\<rparr>" 4 7]
    breaker_trips_at_threshold [of default_breaker_state "\<lparr>br_consecutive_failures = 5, br_cooldown_s = 60\<rparr>" 5 7]
  by (simp add: default_breaker_state_def)

section \<open>Probes are spaced\<close>

definition probe_attempt :: "breaker_state \<Rightarrow> nat \<Rightarrow> bool \<times> breaker_state" where
  "probe_attempt st t = (case breaker_check st t of (d, st') \<Rightarrow> (d = Allow True, st'))"

interpretation probes: attempt_gate probe_attempt bs_probe_started stale_probe_after
proof
  fix st st' :: breaker_state and t u :: nat
  show "probe_attempt st t = (True, st') \<Longrightarrow> bs_probe_started st' = Some t"
    by (auto simp: probe_attempt_def breaker_check_def split: prod.splits option.splits if_splits)
  show "probe_attempt st t = (False, st') \<Longrightarrow> bs_probe_started st' = bs_probe_started st"
    by (auto simp: probe_attempt_def breaker_check_def split: prod.splits option.splits if_splits)
  show "u + stale_probe_after \<le> t" if "probe_attempt st t = (True, st')" "bs_probe_started st = Some u"
  proof -
    have "\<not> t - u < stale_probe_after"
      using that by (auto simp: probe_attempt_def breaker_check_def split: prod.splits option.splits if_splits)
    moreover have "0 < stale_probe_after" by (simp add: stale_probe_after_def)
    ultimately show ?thesis by linarith
  qed
qed

text \<open>C21: half-open admits one probe at a time: as long as no outcome is reported, the calls let through
  as probes are at least 180 s apart, so any window of \<open>b - a\<close> ns holds at most
  \<open>(b - a) / 180 s + 1\<close> of them; and a probe's failure reopens the breaker for a full cooldown.\<close>

theorem breaker_one_probe:
  "spaced stale_probe_after (gate_run probe_attempt st ts) \<and>
    ((\<forall>t \<in> set ts. a \<le> t \<and> t \<le> b) \<longrightarrow>
      length (gate_run probe_attempt st ts) \<le> (b - a) div stale_probe_after + 1) \<and>
    (clock_ok cfg t \<longrightarrow> bs_open_until (on_result cfg True True t st) = Some (t + br_cooldown_s cfg * sec) \<and>
      bs_probe_started (on_result cfg True True t st) = None)"
proof -
  have "length (gate_run probe_attempt st ts) \<le> (b - a) div stale_probe_after + 1"
    if "\<forall>t \<in> set ts. a \<le> t \<and> t \<le> b"
    using that gate_run_subset [of probe_attempt st ts]
    by (intro probes.run_rate) (auto simp: stale_probe_after_def)
  moreover have "clock_ok cfg t \<longrightarrow> bs_open_until (on_result cfg True True t st) = Some (t + br_cooldown_s cfg * sec) \<and>
      bs_probe_started (on_result cfg True True t st) = None"
    by (simp add: on_result_def Let_def clock_ok_def instant_checked_add_def)
  ultimately show ?thesis using probes.run_spaced [of st ts] by blast
qed

theorem breaker_one_probe_witness:
  "let st = default_breaker_state\<lparr>bs_open_until := Some 5, bs_consecutive := 9\<rparr>;
       ts = [6, 7, 8, 180000000006] in
    gate_run probe_attempt st ts = [6, 180000000006] \<and>
    length (gate_run probe_attempt st ts) \<le> (180000000006 - 6) div stale_probe_after + 1"
proof -
  let ?st = "default_breaker_state\<lparr>bs_open_until := Some 5, bs_consecutive := 9\<rparr>"
  let ?ts = "[6, 7, 8, 180000000006 :: nat]"
  have "gate_run probe_attempt ?st ?ts = [6, 180000000006]"
    by (simp add: probe_attempt_def breaker_check_def default_breaker_state_def stale_probe_after_def)
  moreover have "(\<forall>t \<in> set ?ts. 6 \<le> t \<and> t \<le> 180000000006)" by simp
  then have "length (gate_run probe_attempt ?st ?ts) \<le> (180000000006 - 6) div stale_probe_after + 1"
    using breaker_one_probe [of ?st ?ts 6 180000000006] by blast
  ultimately show ?thesis unfolding Let_def by blast
qed

end
