(* ===== verification/RateLimit.thy ===== *)
theory RateLimit
  imports Config Gates Complex_Main
begin

text \<open>
  Token buckets (\<open>src/src/surface/ratelimit.rs\<close>) and the tiers a call is charged to
  (\<open>rate_limited\<close> in \<open>src/src/surface/dispatch.rs\<close>). The tokens of a bucket, an \<open>f64\<close> in the code,
  are exact rationals here, so what is proved is the algorithm, not its rounding. An \<open>Instant\<close>
  is a number of nanoseconds.
\<close>

section \<open>Buckets\<close>

record bucket =
  bk_tokens :: rat
  bk_updated :: nat

type_synonym buckets = "(string, bucket) store"

definition max_buckets :: nat where
  "max_buckets = 10000"

definition idle_evict_s :: nat where
  "idle_evict_s = 600"

definition capacity :: "limit \<Rightarrow> rat" where
  "capacity l = of_nat (max (l_calls l) 1)"

definition refill_rate :: "limit \<Rightarrow> rat" where
  "refill_rate l = capacity l / of_nat (max (l_per_s l) 1)"

definition secs_f64 :: "nat \<Rightarrow> rat" where
  "secs_f64 ns = of_nat ns / 1000000000"

text \<open>The eviction of \<open>take\<close>: a new key finding the map full drops the idle buckets, then, if that
  was not enough, all of them.\<close>

definition make_room :: "string \<Rightarrow> nat \<Rightarrow> buckets \<Rightarrow> buckets" where
  "make_room key now m =
     (if length m \<ge> max_buckets \<and> map_of m key = None then
        (let m = filter (\<lambda>(_, b). (now - bk_updated b) div 1000000000 < idle_evict_s) m
         in if length m \<ge> max_buckets then [] else m)
      else m)"

definition refilled :: "limit \<Rightarrow> nat \<Rightarrow> bucket \<Rightarrow> rat" where
  "refilled l now b = min (bk_tokens b + secs_f64 (now - bk_updated b) * refill_rate l) (capacity l)"

text \<open>\<open>Inr ()\<close> is \<open>Ok\<close>, \<open>Inl s\<close> a refusal with its retry-after. The float-to-\<open>u64\<close> cast saturates at 0.\<close>

definition take_bucket :: "limit \<Rightarrow> nat \<Rightarrow> bucket \<Rightarrow> (nat + unit) \<times> bucket" where
  "take_bucket l now b =
     (let tokens = refilled l now b in
      if tokens \<ge> 1 then (Inr (), \<lparr>bk_tokens = tokens - 1, bk_updated = now\<rparr>)
      else (Inl (max (nat \<lceil>(1 - tokens) / refill_rate l\<rceil>) 1), \<lparr>bk_tokens = tokens, bk_updated = now\<rparr>))"

definition bucket_take :: "string \<Rightarrow> limit \<Rightarrow> nat \<Rightarrow> buckets \<Rightarrow> (nat + unit) \<times> buckets" where
  "bucket_take key l now m =
     (let m = make_room key now m;
          b = (case map_of m key of Some b \<Rightarrow> b | None \<Rightarrow> \<lparr>bk_tokens = capacity l, bk_updated = now\<rparr>);
          (r, b) = take_bucket l now b
      in (r, alist_put key b m))"

definition bucket_refund :: "string \<Rightarrow> limit \<Rightarrow> nat \<Rightarrow> buckets \<Rightarrow> buckets" where
  "bucket_refund key l now m =
     (case map_of m key of
        None \<Rightarrow> m
      | Some b \<Rightarrow> alist_put key
          \<lparr>bk_tokens = min (bk_tokens b + secs_f64 (now - bk_updated b) * refill_rate l + 1) (capacity l),
           bk_updated = now\<rparr> m)"

section \<open>The tiers of a call\<close>

record tier =
  ti_key :: string
  ti_limit :: limit
  ti_message :: string
  ti_enforced :: bool

definition limit_tiers :: "config \<Rightarrow> string \<Rightarrow> string \<Rightarrow> overlay option \<Rightarrow> tier list" where
  "limit_tiers cfg who tool_id ov =
     (let rl = c_rate_limits cfg; enforce = \<not> rl_report_only rl;
          counts = (\<lambda>l. show_nat (l_calls l) @ '' calls per '' @ show_nat (l_per_s l) @ ''s'') in
      (case rl_per_caller rl of None \<Rightarrow> [] | Some l \<Rightarrow>
         [\<lparr>ti_key = ''caller:'' @ who, ti_limit = l,
           ti_message = ''caller '' @ who @ '' exceeded '' @ counts l, ti_enforced = enforce\<rparr>]) @
      (case rl_per_tool rl of None \<Rightarrow> [] | Some l \<Rightarrow>
         [\<lparr>ti_key = ''tool:'' @ who @ '':'' @ tool_id, ti_limit = l,
           ti_message = ''caller '' @ who @ '' exceeded '' @ counts l @ '' on '' @ tool_id, ti_enforced = enforce\<rparr>]) @
      (case Option.bind ov ov_rate_limit of None \<Rightarrow> [] | Some l \<Rightarrow>
         [\<lparr>ti_key = ''overlay:'' @ tool_id, ti_limit = l,
           ti_message = tool_id @ '' is limited to '' @ counts l @ '' across all callers'', ti_enforced = True\<rparr>]))"

text \<open>The loop over the tiers: \<open>charged\<close> collects what has been taken, a refusal by an enforced tier
  refunds all of it; a refusal by a report-only tier is logged and goes on.\<close>

fun charge_tiers :: "nat \<Rightarrow> (string \<times> limit) list \<Rightarrow> tier list \<Rightarrow> buckets
    \<Rightarrow> (string \<times> nat) option \<times> (string \<times> nat) list \<times> buckets" where
  "charge_tiers now charged [] m = (None, [], m)"
| "charge_tiers now charged (t # ts) m =
     (case bucket_take (ti_key t) (ti_limit t) now m of
        (Inr _, m) \<Rightarrow> charge_tiers now (charged @ [(ti_key t, ti_limit t)]) ts m
      | (Inl retry, m) \<Rightarrow>
          if \<not> ti_enforced t then
            (case charge_tiers now charged ts m of (r, lines, m) \<Rightarrow> (r, (ti_message t, retry) # lines, m))
          else (Some (ti_message t, retry), [], fold (\<lambda>(k, l). bucket_refund k l now) charged m))"

definition rate_limited :: "config \<Rightarrow> string \<Rightarrow> string \<Rightarrow> overlay option \<Rightarrow> nat \<Rightarrow> buckets
    \<Rightarrow> (string \<times> nat) option \<times> (string \<times> nat) list \<times> buckets" where
  "rate_limited cfg who tool_id ov now m = charge_tiers now [] (limit_tiers cfg who tool_id ov) m"

section \<open>One bucket\<close>

lemma capacity_ge: "1 \<le> capacity l"
  by (simp add: capacity_def)

lemma refill_rate_pos: "0 < refill_rate l"
  by (simp add: refill_rate_def capacity_def)

lemma secs_f64_nonneg [simp]: "0 \<le> secs_f64 t"
  by (simp add: secs_f64_def)

lemma secs_f64_add: "secs_f64 (a + b) = secs_f64 a + secs_f64 b"
  by (simp add: secs_f64_def add_divide_distrib)

text \<open>A bucket never holds more than its capacity nor a debt.\<close>

definition bucket_ok :: "limit \<Rightarrow> bucket \<Rightarrow> bool" where
  "bucket_ok l b \<longleftrightarrow> 0 \<le> bk_tokens b \<and> bk_tokens b \<le> capacity l"

lemma refilled_ok: "bucket_ok l b \<Longrightarrow> 0 \<le> refilled l now b \<and> refilled l now b \<le> capacity l"
  using refill_rate_pos [of l] capacity_ge [of l]
  by (auto simp: bucket_ok_def refilled_def intro!: add_nonneg_nonneg mult_nonneg_nonneg)

lemma take_bucket_ok:
  "bucket_ok l b \<Longrightarrow> take_bucket l now b = (r, b') \<Longrightarrow> bucket_ok l b' \<and> bk_updated b' = now"
  using refilled_ok [of l b now] by (auto simp: take_bucket_def bucket_ok_def Let_def split: if_splits)

lemma take_bucket_tokens:
  "take_bucket l now b = (r, b') \<Longrightarrow>
    bk_tokens b' + (case r of Inr _ \<Rightarrow> 1 | Inl _ \<Rightarrow> 0) \<le> bk_tokens b + secs_f64 (now - bk_updated b) * refill_rate l"
  by (auto simp: take_bucket_def refilled_def Let_def split: if_splits)

section \<open>The store of buckets is bounded\<close>

definition bucket_put :: "string \<Rightarrow> bucket \<Rightarrow> buckets \<Rightarrow> buckets" where
  "bucket_put key b m = alist_put key b (make_room key (bk_updated b) m)"

lemma bucket_take_put:
  "bucket_take key l now m = (r, m') \<Longrightarrow> \<exists>b. bk_updated b = now \<and> m' = bucket_put key b m"
proof -
  assume a: "bucket_take key l now m = (r, m')"
  then obtain b b' where b: "take_bucket l now b = (r, b')" "m' = alist_put key b' (make_room key now m)"
    by (auto simp: bucket_take_def Let_def split: prod.splits)
  then have "bk_updated b' = now" by (auto simp: take_bucket_def Let_def split: if_splits)
  with b(2) show ?thesis by (intro exI [of _ b']) (simp add: bucket_put_def)
qed

lemma make_room_distinct: "distinct (map fst m) \<Longrightarrow> distinct (map fst (make_room key now m))"
  by (simp add: make_room_def Let_def distinct_filter_keys)

lemma make_room_map_of:
  "distinct (map fst m) \<Longrightarrow> map_of (make_room key now m) j = Some b \<Longrightarrow> map_of m j = Some b"
  by (auto simp: make_room_def Let_def map_of_filter_distinct split: if_splits option.splits)

lemma make_room_length:
  "length (make_room key now m) \<le> length m \<and>
    (map_of m key = None \<longrightarrow> length (make_room key now m) < max_buckets)"
  by (auto simp: make_room_def Let_def max_buckets_def)

interpretation bucket_store: bounded_store bucket_put max_buckets
proof
  fix m :: buckets and k j :: string and v w :: bucket
  assume d: "distinct (map fst m)"
  then show "distinct (map fst (bucket_put k v m))"
    by (simp add: bucket_put_def make_room_distinct)
  show "length (bucket_put k v m) \<le> max_buckets" if "length m \<le> max_buckets"
  proof (cases "map_of m k = None")
    case True
    then show ?thesis using make_room_length [of k "bk_updated v" m]
      by (simp add: bucket_put_def length_alist_put)
  next
    case False
    then have "make_room k (bk_updated v) m = m" by (auto simp: make_room_def)
    with False that show ?thesis
      by (auto simp: bucket_put_def length_alist_put map_of_eq_None_iff)
  qed
  show "(j = k \<and> w = v) \<or> map_of m j = Some w" if "map_of (bucket_put k v m) j = Some w"
    using that make_room_map_of [OF d] by (auto simp: bucket_put_def split: if_splits)
qed

text \<open>A run of takes, with who was admitted when.\<close>

fun bucket_run :: "(string \<times> limit \<times> nat) list \<Rightarrow> buckets \<Rightarrow> (string \<times> nat \<times> bool) list \<times> buckets" where
  "bucket_run [] m = ([], m)"
| "bucket_run ((key, l, now) # ops) m =
     (case bucket_take key l now m of (r, m) \<Rightarrow>
        case bucket_run ops m of (log', m) \<Rightarrow> ((key, now, is_ok r) # log', m))"

lemma bucket_run_put_all: "\<exists>ps. snd (bucket_run ops m) = put_all bucket_put ps m"
proof (induction ops m rule: bucket_run.induct)
  case (1 m)
  then show ?case by (auto intro: exI [of _ "[]"])
next
  case (2 key l now ops m)
  obtain r m1 where t: "bucket_take key l now m = (r, m1)" by (cases "bucket_take key l now m")
  then obtain b where b: "m1 = bucket_put key b m" using bucket_take_put by blast
  obtain ps where "snd (bucket_run ops m1) = put_all bucket_put ps m1" using 2 t by metis
  with t b show ?case by (auto split: prod.splits intro!: exI [of _ "(key, b) # ps"])
qed

text \<open>whatever keys arrive, from however many callers, the map never holds more than 10,000 buckets.\<close>

theorem buckets_bounded:
  assumes "distinct (map fst m)" "length m \<le> max_buckets"
  shows "length (snd (bucket_run ops m)) \<le> 10000 \<and> distinct (map fst (snd (bucket_run ops m)))"
  using bucket_store.all_bounded [OF assms] bucket_run_put_all [of ops m]
  by (auto simp: max_buckets_def)

theorem buckets_bounded_witness:
  "length (snd (bucket_run [(''a'', \<lparr>l_calls = 1, l_per_s = 60\<rparr>, 5)] [])) \<le> 10000"
  using buckets_bounded [of "[]" "[(''a'', \<lparr>l_calls = 1, l_per_s = 60\<rparr>, 5)]"] by simp

section \<open>Admissions in a window\<close>

text \<open>What key \<open>k\<close> could spend at \<open>now\<close>.\<close>

definition available :: "limit \<Rightarrow> nat \<Rightarrow> string \<Rightarrow> buckets \<Rightarrow> rat" where
  "available l now k m = (case map_of m k of None \<Rightarrow> capacity l | Some b \<Rightarrow> refilled l now b)"

definition admitted :: "string \<Rightarrow> (string \<times> nat \<times> bool) list \<Rightarrow> nat" where
  "admitted k log' = length (filter (\<lambda>(k', t, ok). k' = k \<and> ok) log')"

lemma available_le: "available l now k m \<le> capacity l"
  by (auto simp: available_def refilled_def split: option.splits)

lemma available_later:
  assumes "s \<le> t"
  shows "available l t k m \<le> available l s k m + refill_rate l * secs_f64 (t - s)"
proof (cases "map_of m k")
  case None
  then show ?thesis using refill_rate_pos [of l] by (simp add: available_def)
next
  case (Some b)
  have "secs_f64 (t - bk_updated b) \<le> secs_f64 (s - bk_updated b) + secs_f64 (t - s)"
    using assms by (simp add: secs_f64_def divide_right_mono flip: add_divide_distrib of_nat_add)
  then have "secs_f64 (t - bk_updated b) * refill_rate l \<le>
      secs_f64 (s - bk_updated b) * refill_rate l + secs_f64 (t - s) * refill_rate l"
    using refill_rate_pos [of l] by (metis distrib_right mult_right_mono less_imp_le)
  moreover have "0 \<le> secs_f64 (t - s) * refill_rate l"
    using refill_rate_pos [of l] by simp
  ultimately show ?thesis using Some by (simp add: available_def refilled_def min_def mult.commute)
qed

lemma make_room_id: "length m < max_buckets \<Longrightarrow> make_room key now m = m"
  by (simp add: make_room_def)

lemma take_available:
  assumes "length m < max_buckets" "bucket_take key l now m = (r, m')"
  shows "available l now key m' = available l now key m - (if is_ok r then 1 else 0)"
    and "k \<noteq> key \<Longrightarrow> map_of m' k = map_of m k"
    and "length m' \<le> Suc (length m)"
    and "is_ok r \<longleftrightarrow> 1 \<le> available l now key m"
proof -
  define b where "b = (case map_of m key of Some b \<Rightarrow> b | None \<Rightarrow> \<lparr>bk_tokens = capacity l, bk_updated = now\<rparr>)"
  obtain b' where t: "take_bucket l now b = (r, b')" "m' = alist_put key b' m"
    using assms by (auto simp: bucket_take_def make_room_id Let_def b_def split: prod.splits)
  have a: "available l now key m = refilled l now b"
    by (simp add: available_def b_def refilled_def secs_f64_def split: option.split)
  have "refilled l now b' = refilled l now b - (if is_ok r then 1 else 0) \<and>
      (is_ok r \<longleftrightarrow> 1 \<le> refilled l now b)"
    using t(1) by (auto simp: take_bucket_def refilled_def secs_f64_def Let_def split: if_splits)
  then show "available l now key m' = available l now key m - (if is_ok r then 1 else 0)"
    and "is_ok r \<longleftrightarrow> 1 \<le> available l now key m"
    unfolding a by (simp_all add: available_def t(2))
  show "k \<noteq> key \<Longrightarrow> map_of m' k = map_of m k" by (simp add: t(2))
  show "length m' \<le> Suc (length m)" by (simp add: t(2) length_alist_put)
qed

fun op_time :: "string \<times> limit \<times> nat \<Rightarrow> nat" where
  "op_time (k, l, t) = t"

lemma admitted_Cons: "admitted k ((k', t, ok) # log') = (if k' = k \<and> ok then 1 else 0) + admitted k log'"
  by (simp add: admitted_def)

text \<open>Every bucket of the map was charged within its limit: it holds no debt.\<close>

definition no_debt :: "buckets \<Rightarrow> bool" where
  "no_debt m \<longleftrightarrow> (\<forall>k b. map_of m k = Some b \<longrightarrow> 0 \<le> bk_tokens b)"

lemma available_nonneg: "no_debt m \<Longrightarrow> 0 \<le> available l now k m"
  using capacity_ge [of l] refill_rate_pos [of l]
  by (auto simp: no_debt_def available_def refilled_def intro!: add_nonneg_nonneg split: option.split)

lemma take_no_debt:
  assumes "no_debt m" "length m < max_buckets" "bucket_take key l now m = (r, m')"
  shows "no_debt m'"
proof -
  have "0 \<le> bk_tokens b" if b: "map_of m' k = Some b" for k b
  proof (cases "k = key")
    case True
    obtain c d where t: "take_bucket l now c = (r, d)" "m' = alist_put key d (make_room key now m)"
      and c: "c = (case map_of m key of Some b \<Rightarrow> b | None \<Rightarrow> \<lparr>bk_tokens = capacity l, bk_updated = now\<rparr>)"
      using assms(2,3) by (auto simp: bucket_take_def make_room_id Let_def split: prod.splits)
    have "0 \<le> bk_tokens c"
      using assms(1) capacity_ge [of l] by (auto simp: c no_debt_def split: option.split)
    then have "0 \<le> refilled l now c"
      using capacity_ge [of l] refill_rate_pos [of l] by (simp add: refilled_def)
    then have "0 \<le> bk_tokens d" using t(1) by (auto simp: take_bucket_def Let_def split: if_splits)
    with True b t(2) show ?thesis by simp
  next
    case False
    with b take_available(2) [OF assms(2,3)] assms(1) show ?thesis by (auto simp: no_debt_def)
  qed
  then show ?thesis by (auto simp: no_debt_def)
qed

lemma bucket_run_admitted:
  assumes "sorted (s # map op_time ops)" "\<forall>x \<in> set ops. op_time x \<le> e" "s \<le> e"
    and "\<forall>(k', l', t) \<in> set ops. k' = k \<longrightarrow> l' = l" "length m + length ops \<le> max_buckets" "no_debt m"
  shows "of_nat (admitted k (fst (bucket_run ops m)))
    \<le> available l s k m + refill_rate l * secs_f64 (e - s)"
  using assms
proof (induction ops m arbitrary: s rule: bucket_run.induct)
  case (1 m)
  then show ?case using available_nonneg [of m l s k] refill_rate_pos [of l] by (simp add: admitted_def)
next
  case (2 key l' t ops m)
  obtain r m1 where t: "bucket_take key l' t m = (r, m1)" by (cases "bucket_take key l' t m")
  have len: "length m < max_buckets" using "2.prems"(5) by simp
  have st: "s \<le> t" "t \<le> e" using "2.prems"(1,2) by auto
  have IH: "of_nat (admitted k (fst (bucket_run ops m1))) \<le> available l t k m1 + refill_rate l * secs_f64 (e - t)"
    using "2.IH" [OF t [symmetric], of t] "2.prems" take_available(3) [OF len t] take_no_debt [OF _ len t] st
    by auto
  have step: "available l t k m1 + (if key = k \<and> is_ok r then 1 else 0) \<le> available l t k m"
  proof (cases "key = k")
    case True
    with "2.prems"(4) have "l' = l" by auto
    with True take_available(1) [OF len t] show ?thesis by simp
  next
    case False
    with take_available(2) [OF len t, of k] show ?thesis by (simp add: available_def)
  qed
  have "secs_f64 (e - s) = secs_f64 (e - t) + secs_f64 (t - s)"
    using st by (simp flip: secs_f64_add)
  then have split: "refill_rate l * secs_f64 (e - s) =
      refill_rate l * secs_f64 (e - t) + refill_rate l * secs_f64 (t - s)"
    by (simp add: distrib_left)
  have "of_nat (admitted k (fst (bucket_run ((key, l', t) # ops) m))) =
      (if key = k \<and> is_ok r then 1 else 0) + (of_nat (admitted k (fst (bucket_run ops m1))) :: rat)"
    using t by (simp add: admitted_Cons split: prod.split)
  also have "\<dots> \<le> available l t k m + refill_rate l * secs_f64 (e - t)" using IH step by linarith
  also have "\<dots> \<le> available l s k m + refill_rate l * secs_f64 (e - s)"
    using available_later [OF st(1), of l k m] split by linarith
  finally show ?case .
qed



section \<open>A refusal is honest and costs nothing\<close>

lemma secs_f64_secs [simp]: "secs_f64 (n * 1000000000) = of_nat n"
  by (simp add: secs_f64_def)

lemma take_bucket_later:
  "is_ok (fst (take_bucket l (now + n * 1000000000) \<lparr>bk_tokens = x, bk_updated = now\<rparr>)) \<longleftrightarrow>
    1 \<le> x + of_nat n * refill_rate l"
  using capacity_ge [of l] by (auto simp: take_bucket_def refilled_def Let_def)

text \<open>The retry-after of a refusal is right: nothing else happening, the same call made that many
  seconds later is admitted, and when the wait is longer than a second, made a second earlier it is refused.\<close>

theorem retry_after_exact:
  assumes "take_bucket l now b = (Inl s, b')"
  shows "1 \<le> s \<and> is_ok (fst (take_bucket l (now + s * 1000000000) b')) \<and>
    (1 < s \<longrightarrow> \<not> is_ok (fst (take_bucket l (now + (s - 1) * 1000000000) b')))"
proof -
  define x where "x = refilled l now b"
  have x: "x < 1" "s = max (nat \<lceil>(1 - x) / refill_rate l\<rceil>) 1" "b' = \<lparr>bk_tokens = x, bk_updated = now\<rparr>"
    using assms by (auto simp: take_bucket_def x_def Let_def split: if_splits)
  have r: "0 < refill_rate l" by (rule refill_rate_pos)
  have q: "0 \<le> (1 - x) / refill_rate l" using x(1) r by simp
  have "(1 - x) / refill_rate l \<le> of_nat s"
    unfolding x(2) using le_of_int_ceiling [of "(1 - x) / refill_rate l"] q
    by (simp add: max_def) linarith
  then have enough: "1 \<le> x + of_nat s * refill_rate l" using r by (simp add: field_simps)
  have "x + of_nat (s - 1) * refill_rate l < 1" if "1 < s"
  proof -
    have "of_nat (s - 1) < (1 - x) / refill_rate l"
      using that x(2) q by (simp add: max_def split: if_splits) linarith
    with r show ?thesis by (simp add: field_simps)
  qed
  moreover have "1 \<le> s" using x(2) by simp
  ultimately show ?thesis
    unfolding x(3) take_bucket_later using enough by (simp add: not_le)
qed

theorem retry_after_exact_witness:
  "let l = \<lparr>l_calls = 3, l_per_s = 60\<rparr>; b = \<lparr>bk_tokens = 1 / 2, bk_updated = 0\<rparr> in
    fst (take_bucket l 0 b) = Inl 10 \<and>
    is_ok (fst (take_bucket l (0 + 10 * 1000000000) (snd (take_bucket l 0 b))))"
proof -
  let ?l = "\<lparr>l_calls = 3, l_per_s = 60\<rparr>" and ?b = "\<lparr>bk_tokens = 1 / 2, bk_updated = 0\<rparr>"
  have t: "take_bucket ?l 0 ?b = (Inl 10, ?b)"
    by (simp add: take_bucket_def refilled_def secs_f64_def refill_rate_def capacity_def Let_def)
  with retry_after_exact [OF t] show ?thesis by (simp add: Let_def)
qed

lemma refund_available:
  assumes "map_of m k = Some b" "bk_updated b = now" "refilled l now b \<le> capacity l - 1"
  shows "available l now k (bucket_refund k l now m) = available l now k m + 1"
  using assms
  by (auto simp: bucket_refund_def available_def refilled_def secs_f64_def min_def split: if_splits)

lemma take_refund:
  assumes "length m < max_buckets" "bucket_take k l now m = (Inr u, m')"
  shows "available l now k (bucket_refund k l now m') = available l now k m"
proof -
  obtain b where b: "map_of m' k = Some b" "bk_updated b = now"
    using assms by (auto simp: bucket_take_def take_bucket_def Let_def split: prod.splits if_splits)
  have "available l now k m' = available l now k m - 1" using take_available(1) [OF assms] by simp
  moreover from this have "refilled l now b \<le> capacity l - 1"
    using available_le [of l now k m] b(1) by (simp add: available_def)
  ultimately show ?thesis using refund_available [OF b] by simp
qed

lemma refund_other: "j \<noteq> k \<Longrightarrow> map_of (bucket_refund k l now m) j = map_of m j"
  by (simp add: bucket_refund_def split: option.split)

lemma available_cong: "map_of m k = map_of m' k \<Longrightarrow> available l now k m = available l now k m'"
  by (simp add: available_def)

lemma refund_cong:
  "map_of m k = map_of m' k \<Longrightarrow>
    available l now k (bucket_refund k l now m) = available l now k (bucket_refund k l now m')"
  by (auto simp: bucket_refund_def available_def split: option.split)

lemma fold_refund:
  assumes "distinct (map fst charged)"
  shows "(k, l) \<in> set charged \<Longrightarrow>
      available l now k (fold (\<lambda>(k, l). bucket_refund k l now) charged m) = available l now k (bucket_refund k l now m)"
    and "k \<notin> fst ` set charged \<Longrightarrow> map_of (fold (\<lambda>(k, l). bucket_refund k l now) charged m) k = map_of m k"
proof -
  have out: "k \<notin> fst ` set charged \<Longrightarrow> map_of (fold (\<lambda>(k, l). bucket_refund k l now) charged m) k = map_of m k"
    for charged :: "(string \<times> limit) list" and k m
    by (induction charged arbitrary: m) (auto simp: refund_other)
  then show "k \<notin> fst ` set charged \<Longrightarrow> map_of (fold (\<lambda>(k, l). bucket_refund k l now) charged m) k = map_of m k" .
  show "(k, l) \<in> set charged \<Longrightarrow>
      available l now k (fold (\<lambda>(k, l). bucket_refund k l now) charged m) = available l now k (bucket_refund k l now m)"
    using assms
  proof (induction charged arbitrary: m)
    case (Cons p charged)
    obtain k' l' where p: "p = (k', l')" by (cases p)
    show ?case
    proof (cases "k = k'")
      case True
      with Cons.prems p have "k \<notin> fst ` set charged" "l' = l" by force+
      with True p out [of k charged] show ?thesis by (auto intro: available_cong)
    next
      case False
      with Cons.prems p have "(k, l) \<in> set charged" "distinct (map fst charged)" by auto
      then have "available l now k (fold (\<lambda>(k, l). bucket_refund k l now) charged (bucket_refund k' l' now m)) =
          available l now k (bucket_refund k l now (bucket_refund k' l' now m))" by (rule Cons.IH)
      also have "\<dots> = available l now k (bucket_refund k l now m)"
        using False by (intro refund_cong refund_other)
      finally show ?thesis by (simp add: p)
    qed
  qed simp
qed

text \<open>A refusal refunds what was charged and touches nothing else.\<close>

lemma refunds_settle:
  fixes now :: nat and m :: buckets
  assumes "distinct (map ti_key ts @ map fst charged)"
  defines "m' \<equiv> fold (\<lambda>(k, l). bucket_refund k l now) charged m"
  shows "u \<in> set ts \<Longrightarrow> available (ti_limit u) now (ti_key u) m' = available (ti_limit u) now (ti_key u) m"
    "(k, l) \<in> set charged \<Longrightarrow> available l now k m' = available l now k (bucket_refund k l now m)"
    "k \<notin> fst ` set charged \<Longrightarrow> map_of m' k = map_of m k"
proof -
  have d: "distinct (map fst charged)" using assms(1) by simp
  show out: "map_of m' k = map_of m k" if "k \<notin> fst ` set charged" for k
    unfolding m'_def by (rule fold_refund(2) [OF d that])
  show "available (ti_limit u) now (ti_key u) m' = available (ti_limit u) now (ti_key u) m" if "u \<in> set ts"
    using imageI [OF that, of ti_key] assms(1) by (intro available_cong out) auto
  show "available l now k m' = available l now k (bucket_refund k l now m)" if "(k, l) \<in> set charged"
    unfolding m'_def by (rule fold_refund(1) [OF d that])
qed

lemma charge_tiers_refused:
  assumes "charge_tiers now charged ts m = (Some r, lines, m')"
    and "distinct (map ti_key ts @ map fst charged)" "length m + length ts \<le> max_buckets"
  shows "(\<forall>t \<in> set ts. available (ti_limit t) now (ti_key t) m' = available (ti_limit t) now (ti_key t) m) \<and>
    (\<forall>(k, l) \<in> set charged. available l now k m' = available l now k (bucket_refund k l now m)) \<and>
    (\<forall>k. k \<notin> ti_key ` set ts \<union> fst ` set charged \<longrightarrow> map_of m' k = map_of m k)"
  using assms
proof (induction ts arbitrary: charged m lines)
  case Nil
  then show ?case by simp
next
  case (Cons t ts)
  let ?k = "ti_key t" and ?l = "ti_limit t"
  obtain q m1 where tk: "bucket_take ?k ?l now m = (q, m1)" by (cases "bucket_take ?k ?l now m")
  have len0: "length m < max_buckets" using Cons.prems(3) by simp
  have "length m1 + length ts \<le> max_buckets" using Cons.prems(3) take_available(3) [OF len0 tk] by simp
  note len = len0 this
  have same: "map_of m1 j = map_of m j" if "j \<noteq> ?k" for j
    using take_available(2) [OF len(1) tk that] .
  have nk: "?k \<notin> ti_key ` set ts \<union> fst ` set charged" using Cons.prems(2) by auto
  have kt: "ti_key u \<noteq> ?k" if "u \<in> set ts" for u
    using imageI [OF that, of ti_key] Cons.prems(2) by auto
  have kc: "k \<noteq> ?k" if "(k, l) \<in> set charged" for k l
    using imageI [OF that, of fst] nk by (metis UnI2 fst_conv)
  have ts: "available (ti_limit u) now (ti_key u) m1 = available (ti_limit u) now (ti_key u) m" if "u \<in> set ts" for u
    using kt [OF that] by (intro available_cong same)
  have ch: "available l now k (bucket_refund k l now m1) = available l now k (bucket_refund k l now m)"
    if "(k, l) \<in> set charged" for k l
    using kc [OF that] by (intro refund_cong same)
  show ?case
  proof (cases q)
    case (Inr u)
    with Cons.prems(1) tk have run: "charge_tiers now (charged @ [(?k, ?l)]) ts m1 = (Some r, lines, m')" by simp
    note IH = Cons.IH [OF run _ len(2)]
    have d: "distinct (map ti_key ts @ map fst (charged @ [(?k, ?l)]))" using Cons.prems(2) by auto
    have t: "available ?l now ?k m' = available ?l now ?k m"
      using IH [OF d] take_refund [OF len(1), of ?k ?l now u m1] tk Inr by auto
    show ?thesis using IH [OF d] t ts ch same by auto
  next
    case (Inl retry)
    then have eq: "available ?l now ?k m1 = available ?l now ?k m" using take_available(1) [OF len(1) tk] by simp
    show ?thesis
    proof (cases "ti_enforced t")
      case True
      with Cons.prems(1) tk Inl have m': "m' = fold (\<lambda>(k, l). bucket_refund k l now) charged m1" by simp
      have "distinct (map ti_key (t # ts) @ map fst charged)" using Cons.prems(2) by simp
      note settled = refunds_settle [where now = now and m = m1, OF this, folded m']
      show ?thesis using settled ts ch eq same by auto
    next
      case False
      with Cons.prems(1) tk Inl obtain lines' where run: "charge_tiers now charged ts m1 = (Some r, lines', m')"
        by (auto split: prod.splits)
      have d: "distinct (map ti_key ts @ map fst charged)" using Cons.prems(2) by simp
      note IH = Cons.IH [OF run d len(2)]
      have "available ?l now ?k m' = available ?l now ?k m1" using IH nk by (intro available_cong) blast
      with IH show ?thesis using ts ch eq same by auto
    qed
  qed
qed

lemma limit_tiers_distinct: "distinct (map ti_key (limit_tiers cfg who tool_id ov))"
  by (auto simp: limit_tiers_def Let_def split: option.split)

lemma limit_tiers_length: "length (limit_tiers cfg who tool_id ov) \<le> 3"
  by (auto simp: limit_tiers_def Let_def split: option.split)



end
