(* ===== verification/Names.thy ===== *)
theory Names
  imports Config "HOL-Library.Product_Lexorder"
begin

text \<open>
  Who is calling (\<open>src/src/caller.rs\<close>), what a tool is (\<open>ToolDef\<close> in \<open>src/src/upstream.rs\<close>), and tool
  names: the MCP-safe form, the near-miss matcher with its two-row edit distance
  (\<open>src/src/surface/ids.rs\<close>, \<open>normalize_id\<close> of \<open>src/src/index.rs\<close>), and the names passthrough mode
  exposes (\<open>exposed_names\<close> in \<open>src/src/surface/catalog.rs\<close>). The Unicode tables beyond ASCII
  (\<open>is_alphanumeric\<close> and \<open>to_lowercase\<close> of a non-ASCII character) are arguments.
\<close>

section \<open>The caller\<close>

record caller =
  ca_scopes :: "string list"
  ca_subject :: "string option"
  ca_origin :: "string option"

definition new_caller :: "string list \<Rightarrow> string option \<Rightarrow> caller" where
  "new_caller scopes subject = \<lparr>ca_scopes = scopes, ca_subject = subject, ca_origin = None\<rparr>"

definition with_scopes :: "string list \<Rightarrow> caller" where
  "with_scopes scopes = \<lparr>ca_scopes = scopes, ca_subject = None, ca_origin = None\<rparr>"

definition with_origin :: "string option \<Rightarrow> caller \<Rightarrow> caller" where
  "with_origin origin c = c\<lparr>ca_origin := origin\<rparr>"

definition caller_label :: "caller \<Rightarrow> string" where
  "caller_label c = (case ca_subject c of Some s \<Rightarrow> s | None \<Rightarrow> ''anonymous'')"

definition rate_key :: "caller \<Rightarrow> string" where
  "rate_key c = (case ca_subject c of Some s \<Rightarrow> s
     | None \<Rightarrow> (case ca_origin c of Some s \<Rightarrow> s | None \<Rightarrow> ''anonymous''))"

section \<open>Tool definitions\<close>

record tool_def =
  td_upstream_idx :: nat
  td_name :: string
  td_description :: string
  td_input_schema :: json
  td_id :: string
  td_read_only :: "bool option"
  td_extra :: jmap

definition forwarded_fields :: "string list" where
  "forwarded_fields = [''title'', ''annotations'', ''outputSchema'', ''icons'', ''_meta'']"

definition str_or_empty :: "json option \<Rightarrow> string" where
  "str_or_empty v = (case Option.bind v as_str of Some s \<Rightarrow> s | None \<Rightarrow> [])"

definition tool_of_json :: "string \<Rightarrow> nat \<Rightarrow> json \<Rightarrow> tool_def" where
  "tool_of_json upstream_name upstream_idx t =
     (let name = str_or_empty (vget t ''name'') in
      \<lparr>td_upstream_idx = upstream_idx, td_name = name,
       td_description = str_or_empty (vget t ''description''),
       td_input_schema = (case vget t ''inputSchema'' of Some s \<Rightarrow> s
         | None \<Rightarrow> JObj [(''type'', JStr ''object''), (''properties'', JObj [])]),
       td_id = upstream_name @ ''.'' @ name,
       td_read_only = Option.bind (Option.bind (vget t ''annotations'') (\<lambda>a. vget a ''readOnlyHint'')) as_bool,
       td_extra = concat (map (\<lambda>k. case vget t k of Some v \<Rightarrow> [(k, v)] | None \<Rightarrow> []) forwarded_fields)\<rparr>)"

text \<open>The tools of one \<open>tools/list\<close> page, appended, and its next cursor.\<close>

definition push_tools_page :: "json \<Rightarrow> string \<Rightarrow> nat \<Rightarrow> tool_def list \<Rightarrow> tool_def list \<times> string option" where
  "push_tools_page result upstream_name upstream_idx out =
     (out @ map (tool_of_json upstream_name upstream_idx)
        (case Option.bind (vget result ''tools'') as_array of Some ts \<Rightarrow> ts | None \<Rightarrow> []),
      Option.bind (vget result ''nextCursor'') as_str)"

section \<open>Sanitized names\<close>

definition max_name_len :: nat where
  "max_name_len = 64"

definition name_char :: "char \<Rightarrow> bool" where
  "name_char c \<longleftrightarrow> is_ascii_alphanumeric c \<or> c = CHR ''_'' \<or> c = CHR ''-''"

definition sanitize_char :: "string \<Rightarrow> char" where
  "sanitize_char c = (case c of [b] \<Rightarrow> if name_char b then b else CHR ''_'' | _ \<Rightarrow> CHR ''_'')"

definition sanitize_name :: "string \<Rightarrow> nat \<Rightarrow> string" where
  "sanitize_name s reserve = take (max_name_len - reserve) (map sanitize_char (utf8_chars s))"

section \<open>Near misses\<close>

definition normalize_id :: "(string \<Rightarrow> bool) \<Rightarrow> (string \<Rightarrow> string) \<Rightarrow> string \<Rightarrow> string" where
  "normalize_id alnum lower s = concat (map (\<lambda>c. case c of
       [b] \<Rightarrow> if is_ascii_alphanumeric b then [ascii_lower b] else []
     | _ \<Rightarrow> if alnum c then lower c else []) (utf8_chars s))"

text \<open>One row of the table: \<open>c\<close> is \<open>cur[j]\<close>, \<open>prev\<close> the previous row from column \<open>j\<close> on.\<close>

fun edit_row :: "'a \<Rightarrow> 'a list \<Rightarrow> nat list \<Rightarrow> nat \<Rightarrow> nat list" where
  "edit_row ca (cb # b) (p # q # prev) c =
     c # edit_row ca b (q # prev) (min (min (p + (if ca \<noteq> cb then 1 else 0)) (q + 1)) (c + 1))"
| "edit_row ca b prev c = [c]"

fun edit_rows :: "nat \<Rightarrow> 'a list \<Rightarrow> 'a list \<Rightarrow> nat list \<Rightarrow> nat list" where
  "edit_rows i [] b prev = prev"
| "edit_rows i (ca # a) b prev = edit_rows (Suc i) a b (edit_row ca b prev (Suc i))"

definition edit_distance :: "string \<Rightarrow> string \<Rightarrow> nat" where
  "edit_distance a b =
     (let b = utf8_chars b in edit_rows 0 (utf8_chars a) b [0..<length b + 1] ! length b)"

definition abs_diff :: "nat \<Rightarrow> nat \<Rightarrow> nat" where
  "abs_diff m n = (if m < n then n - m else m - n)"

definition closest_matches ::
  "(string \<Rightarrow> bool) \<Rightarrow> (string \<Rightarrow> string) \<Rightarrow> string \<Rightarrow> string list \<Rightarrow> nat \<Rightarrow> string list" where
  "closest_matches alnum lower wrong candidates n =
     (let wnorm = normalize_id alnum lower wrong in
      if wnorm = [] then []
      else
        (let max_d = max 2 (length (utf8_chars wnorm) div 4);
             scored = concat (map (\<lambda>cand.
               let cnorm = normalize_id alnum lower cand in
               if abs_diff (length (utf8_chars cnorm)) (length (utf8_chars wnorm)) > max_d then []
               else (let d = edit_distance wnorm cnorm in if d \<le> max_d then [(d, cand)] else [])) candidates)
         in map snd (take n (sort scored))))"

text \<open>A string's \<open>Debug\<close> form, exact on ASCII; other characters are kept.\<close>

definition debug_char :: "char \<Rightarrow> string" where
  "debug_char c =
     (if c = CHR 0x22 then [CHR 0x5C, CHR 0x22] else if c = CHR 0x5C then [CHR 0x5C, CHR 0x5C]
      else if byte c = (10 :: nat) then [CHR 0x5C, CHR ''n'']
      else if byte c = (13 :: nat) then [CHR 0x5C, CHR ''r'']
      else if byte c = (9 :: nat) then [CHR 0x5C, CHR ''t'']
      else if byte c = (0 :: nat) then [CHR 0x5C, CHR ''0'']
      else if byte c < (32 :: nat) \<or> byte c = (127 :: nat) then
        [CHR 0x5C, CHR ''u'', CHR 0x7B] @
        (if byte c < (16 :: nat) then [hex_digit (byte c)] else [hex_digit (byte c div 16), hex_digit (byte c mod 16)]) @
        [CHR 0x7D]
      else [c])"

definition debug_str :: "string \<Rightarrow> string" where
  "debug_str s = [CHR 0x22] @ concat (map debug_char s) @ [CHR 0x22]"

definition did_you_mean ::
  "(string \<Rightarrow> bool) \<Rightarrow> (string \<Rightarrow> string) \<Rightarrow> string \<Rightarrow> string list \<Rightarrow> string" where
  "did_you_mean alnum lower wrong candidates =
     (let close = closest_matches alnum lower wrong candidates 2 in
      if close = [] then [] else '' did you mean '' @ join_with '' or '' (map debug_str close) @ ''?'')"

section \<open>Exposed names\<close>

text \<open>The loop over the suffixes \<open>_2\<close>, \<open>_3\<close>, \<dots>; \<open>fuel\<close> bounds the tries.\<close>

fun free_name :: "nat \<Rightarrow> string \<Rightarrow> string list \<Rightarrow> nat \<Rightarrow> string option" where
  "free_name 0 base taken n = None"
| "free_name (Suc fuel) base taken n =
     (let name = base @ ''_'' @ show_nat n in
      if name \<in> set taken then free_name fuel base taken (Suc n) else Some name)"

text \<open>The name of one tool; more tries than there are taken names always find a free one.\<close>

definition expose_one :: "string list \<Rightarrow> (string \<times> string) list \<Rightarrow> string \<times> string \<Rightarrow> (string \<times> string) list" where
  "expose_one bares exposed = (\<lambda>(tid, bare).
     let name = (if count_list bares bare = 1 then bare else sanitize_name tid 0);
         name = (if name \<in> set (map fst exposed)
                 then (case free_name (Suc (length exposed)) (sanitize_name tid 4) (map fst exposed) 2 of
                     Some n \<Rightarrow> n | None \<Rightarrow> name)
                 else name)
     in alist_put name tid exposed)"

definition exposed_names :: "mode \<Rightarrow> tool_def list \<Rightarrow> (string \<times> string) list" where
  "exposed_names m tools =
     (let ids = (case m of
          Passthrough \<Rightarrow> map (\<lambda>t. (td_id t, sanitize_name (td_name t) 0)) tools
        | ThreeTool \<Rightarrow> [])
      in foldl (expose_one (map snd ids)) [] ids)"

section \<open>The edit distance is the Levenshtein distance\<close>

text \<open>The reference: \<open>edits a b n\<close>, \<open>a\<close> becomes \<open>b\<close> by \<open>n\<close> insertions, deletions and replacements.\<close>

inductive edits :: "'a list \<Rightarrow> 'a list \<Rightarrow> nat \<Rightarrow> bool" where
  empty: "edits [] [] 0"
| keep: "edits a b n \<Longrightarrow> edits (x # a) (x # b) n"
| replace: "edits a b n \<Longrightarrow> edits (x # a) (y # b) (Suc n)"
| delete: "edits a b n \<Longrightarrow> edits (x # a) b (Suc n)"
| insert: "edits a b n \<Longrightarrow> edits a (y # b) (Suc n)"

inductive_cases edits_ConsConsE: "edits (x # a) (y # b) n"
inductive_cases edits_NilE: "edits [] b n"
inductive_cases edits_ConsNilE: "edits (x # a) [] n"

fun lev :: "'a list \<Rightarrow> 'a list \<Rightarrow> nat" where
  "lev [] b = length b"
| "lev (x # a) [] = Suc (length a)"
| "lev (x # a) (y # b) = min (min (lev a b + (if x \<noteq> y then 1 else 0)) (lev a (y # b) + 1)) (lev (x # a) b + 1)"

lemma edits_inserts: "edits [] b (length b)"
  by (induction b) (auto intro: edits.intros)

lemma edits_deletes: "edits a [] (length a)"
  by (induction a) (auto intro: edits.intros)

lemma edits_lev: "edits a b (lev a b)"
proof (induction a b rule: lev.induct)
  case (1 b)
  then show ?case by (simp add: edits_inserts)
next
  case (2 x a)
  then show ?case using edits_deletes [of "x # a"] by simp
next
  case (3 x a y b)
  have "edits (x # a) (y # b) (lev a b + (if x \<noteq> y then 1 else 0))"
    using "3.IH"(1) by (auto intro: edits.intros)
  moreover have "edits (x # a) (y # b) (lev a (y # b) + 1)" using "3.IH"(2) by (auto intro: edits.intros)
  moreover have "edits (x # a) (y # b) (lev (x # a) b + 1)" using "3.IH"(3) by (auto intro: edits.intros)
  ultimately show ?case by (auto simp: min_def)
qed

lemma edits_length: "edits a b n \<Longrightarrow> length a \<le> length b + n \<and> length b \<le> length a + n"
  by (induction rule: edits.induct) auto

lemma lev_Nil2 [simp]: "lev a [] = length a"
  by (cases a) auto

lemma lev_insert: "lev a (y # b) \<le> Suc (lev a b)"
  by (cases a) auto

lemma lev_delete: "lev (x # a) b \<le> Suc (lev a b)"
  by (cases b) auto

lemma lev_le_edits: "edits a b n \<Longrightarrow> lev a b \<le> n"
proof (induction rule: edits.induct)
  case (delete a b n x)
  with lev_delete [of x a b] show ?case by simp
next
  case (insert a b n y)
  with lev_insert [of a y b] show ?case by simp
qed auto

lemma edits_append: "edits a b n \<Longrightarrow> edits c d m \<Longrightarrow> edits (a @ c) (b @ d) (n + m)"
  by (induction rule: edits.induct) (auto intro: edits.intros)

lemma edits_rev: "edits a b n \<Longrightarrow> edits (rev a) (rev b) n"
proof (induction rule: edits.induct)
  case (keep a b n x)
  with edits_append [OF keep.IH, of "[x]" "[x]" 0] show ?case by (auto intro: edits.intros)
next
  case (replace a b n x y)
  with edits_append [OF replace.IH, of "[x]" "[y]" 1] show ?case by (auto intro: edits.intros)
next
  case (delete a b n x)
  with edits_append [OF delete.IH, of "[x]" "[]" 1] show ?case by (auto intro: edits.intros)
next
  case (insert a b n y)
  with edits_append [OF insert.IH, of "[]" "[y]" 1] show ?case by (auto intro: edits.intros)
qed (auto intro: edits.intros)

lemma lev_rev: "lev (rev a) (rev b) = lev a b"
  by (metis antisym edits_lev edits_rev lev_le_edits rev_rev_ident)

text \<open>The entry of row \<open>i\<close>, column \<open>j\<close>: the distance of the prefixes of those lengths.\<close>

abbreviation dist_at :: "'a list \<Rightarrow> 'a list \<Rightarrow> nat \<Rightarrow> nat \<Rightarrow> nat" where
  "dist_at a b i j \<equiv> lev (rev (take i a)) (rev (take j b))"

lemma dist_at_step:
  assumes "i < length a" "j < length b"
  shows "dist_at a b (Suc i) (Suc j) =
    min (min (dist_at a b i j + (if a ! i \<noteq> b ! j then 1 else 0)) (dist_at a b i (Suc j) + 1)) (dist_at a b (Suc i) j + 1)"
  using assms by (simp add: take_Suc_conv_app_nth)

lemma edit_row_entries:
  assumes "i < length a" "j \<le> length b"
  shows "edit_row (a ! i) (drop j b) (map (dist_at a b i) [j..<Suc (length b)]) (dist_at a b (Suc i) j)
    = map (dist_at a b (Suc i)) [j..<Suc (length b)]"
  using assms(2)
proof (induction "length b - j" arbitrary: j)
  case 0
  then have "j = length b" by simp
  then show ?case by simp
next
  case (Suc k)
  then have j: "j < length b" by simp
  have u: "[j..<Suc (length b)] = j # Suc j # [Suc (Suc j)..<Suc (length b)]"
    using j by (simp add: upt_rec)
  have u': "[Suc j..<Suc (length b)] = Suc j # [Suc (Suc j)..<Suc (length b)]"
    using j by (simp add: upt_rec)
  have IH: "edit_row (a ! i) (drop (Suc j) b) (map (dist_at a b i) [Suc j..<Suc (length b)]) (dist_at a b (Suc i) (Suc j))
    = map (dist_at a b (Suc i)) [Suc j..<Suc (length b)]"
    using Suc by simp
  have d: "drop j b = b ! j # drop (Suc j) b" using j by (simp add: Cons_nth_drop_Suc)
  show ?case
    using IH dist_at_step [OF assms(1) j] unfolding d u u' by simp
qed

lemma edit_rows_entries:
  "i + length a' = length a \<Longrightarrow> a' = drop i a \<Longrightarrow>
    edit_rows i a' b (map (dist_at a b i) [0..<Suc (length b)]) = map (dist_at a b (length a)) [0..<Suc (length b)]"
proof (induction a' arbitrary: i)
  case Nil
  then show ?case by simp
next
  case (Cons x a')
  have d: "drop i a = x # a'" using Cons.prems(2) by simp
  have "i < length a" using Cons.prems(1) by simp
  moreover have "a ! i = x" using d by (rule nth_via_drop)
  moreover have "a' = drop (Suc i) a" using d by (metis drop_Suc tl_drop list.sel(3))
  ultimately have i: "i < length a" "a ! i = x" "a' = drop (Suc i) a" by blast+
  have "dist_at a b (Suc i) 0 = Suc i" using i by (simp add: take_Suc_conv_app_nth)
  then have "edit_row x b (map (dist_at a b i) [0..<Suc (length b)]) (Suc i)
      = map (dist_at a b (Suc i)) [0..<Suc (length b)]"
    using edit_row_entries [OF i(1), of 0 b] i(2) by (simp del: upt_Suc)
  with Cons.IH [of "Suc i"] Cons.prems(1) i(3) show ?case by (simp del: upt_Suc)
qed

lemma edit_distance_lev: "edit_distance a b = lev (utf8_chars a) (utf8_chars b)"
proof -
  let ?a = "utf8_chars a" and ?b = "utf8_chars b"
  have "map (dist_at ?a ?b 0) [0..<Suc (length ?b)] = [0..<Suc (length ?b)]"
    by (rule map_idI) (simp del: upt_Suc)
  then have "edit_rows 0 ?a ?b [0..<Suc (length ?b)] = map (dist_at ?a ?b (length ?a)) [0..<Suc (length ?b)]"
    using edit_rows_entries [of 0 ?a ?a ?b] by (simp del: upt_Suc)
  then show ?thesis
    by (simp add: edit_distance_def Let_def nth_append lev_rev del: upt_Suc)
qed

text \<open>the two-row table computes the edit distance: the least number of insertions, deletions and
  replacements of characters that turn one string into the other.\<close>

theorem edit_distance_least:
  "edit_distance a b = (LEAST n. edits (utf8_chars a) (utf8_chars b) n)"
  unfolding edit_distance_lev by (rule Least_equality [symmetric]) (rule edits_lev, rule lev_le_edits)

lemma abs_diff_le_lev: "abs_diff (length b) (length a) \<le> lev a b"
  using edits_length [OF edits_lev, of a b] by (auto simp: abs_diff_def)

text \<open>C30: the near-miss matcher returns the \<open>n\<close> candidates closest by edit distance of their normal
  forms, ties in string order, among exactly those within the budget \<open>max 2 (len / 4)\<close>: the length
  prefilter never drops one.\<close>

theorem closest_matches_spec:
  "closest_matches alnum lower wrong candidates n =
     (let norm = (\<lambda>s. utf8_chars (normalize_id alnum lower s)); budget = max 2 (length (norm wrong) div 4) in
      if norm wrong = [] then []
      else map snd (take n (sort (filter (\<lambda>(d, c). d \<le> budget)
        (map (\<lambda>c. (lev (norm wrong) (norm c), c)) candidates)))))"
proof -
  let ?norm = "\<lambda>s. utf8_chars (normalize_id alnum lower s)"
  have "concat (map (\<lambda>c. if abs_diff (length (?norm c)) (length (?norm wrong)) > B then []
        else (if edit_distance (normalize_id alnum lower wrong) (normalize_id alnum lower c) \<le> B
          then [(edit_distance (normalize_id alnum lower wrong) (normalize_id alnum lower c), c)] else [])) cs)
      = filter (\<lambda>(d, c). d \<le> B) (map (\<lambda>c. (lev (?norm wrong) (?norm c), c)) cs)" for B cs
  proof (induction cs)
    case (Cons c cs)
    with abs_diff_le_lev [of "?norm c" "?norm wrong"] show ?case by (simp add: edit_distance_lev)
  qed simp
  moreover have "?norm wrong = [] \<longleftrightarrow> normalize_id alnum lower wrong = []"
    by (cases "normalize_id alnum lower wrong") auto
  ultimately show ?thesis unfolding closest_matches_def Let_def by (simp only:)
qed

lemma closest_matches_subset: "set (closest_matches alnum lower wrong candidates n) \<subseteq> set candidates"
  unfolding closest_matches_spec Let_def by (auto dest!: in_set_takeD)

section \<open>Exposed names are valid and distinct\<close>

lemma sanitize_char_ok: "name_char (sanitize_char c)"
  by (auto simp: sanitize_char_def name_char_def split: list.split)

lemma sanitize_name_ok:
  "list_all name_char (sanitize_name s r) \<and> length (sanitize_name s r) \<le> max_name_len - r"
  by (auto simp: sanitize_name_def list_all_iff sanitize_char_ok dest!: in_set_takeD)

lemma free_name_Some:
  "free_name fuel base taken n = Some x \<Longrightarrow> x \<notin> set taken \<and> (\<exists>k. n \<le> k \<and> k < n + fuel \<and> x = base @ ''_'' @ show_nat k)"
  by (induction fuel base taken n rule: free_name.induct) (fastforce simp: Let_def split: if_splits)+

lemma free_name_None:
  "free_name fuel base taken n = None \<Longrightarrow> (\<lambda>k. base @ ''_'' @ show_nat k) ` {n..<n + fuel} \<subseteq> set taken"
proof (induction fuel base taken n rule: free_name.induct)
  case (2 fuel base taken n)
  have "{n..<n + Suc fuel} = insert n {Suc n..<Suc n + fuel}" by auto
  with 2 show ?case by (auto simp: Let_def split: if_splits)
qed simp

text \<open>With one try more than there are taken names a free one turns up.\<close>

lemma free_name_enough: "free_name (Suc (length taken)) base taken n \<noteq> None"
proof
  assume "free_name (Suc (length taken)) base taken n = None"
  then have "(\<lambda>k. base @ ''_'' @ show_nat k) ` {n..<n + Suc (length taken)} \<subseteq> set taken"
    by (rule free_name_None)
  then have "card ((\<lambda>k. base @ ''_'' @ show_nat k) ` {n..<n + Suc (length taken)}) \<le> card (set taken)"
    by (rule card_mono [rotated]) simp
  moreover have "card ((\<lambda>k. base @ ''_'' @ show_nat k) ` {n..<n + Suc (length taken)}) = Suc (length taken)"
    by (subst card_image) (auto simp: inj_on_def)
  ultimately show False using card_length [of taken] by simp
qed

lemma digit_name_char: "list_all is_ascii_digit s \<Longrightarrow> list_all name_char s"
  by (auto simp: list_all_iff name_char_def is_ascii_alphanumeric_def)

lemma alist_put_fresh: "k \<notin> fst ` set m \<Longrightarrow> alist_put k v m = m @ [(k, v)]"
  by (induction k v m rule: alist_put.induct) auto

lemma expose_one_appends:
  assumes "list_all name_char bare" "length bare \<le> 64"
  shows "\<exists>name. expose_one bares exposed (tid, bare) = exposed @ [(name, tid)] \<and>
    name \<notin> fst ` set exposed \<and> list_all name_char name \<and>
    (length exposed < 997 \<longrightarrow> length name \<le> 64)"
proof -
  let ?name = "if count_list bares bare = 1 then bare else sanitize_name tid 0"
  have ok: "list_all name_char ?name" "length ?name \<le> 64"
    using assms sanitize_name_ok [of tid 0] by (auto simp: max_name_len_def)
  show ?thesis
  proof (cases "?name \<in> set (map fst exposed)")
    case False
    then show ?thesis
      using ok by (intro exI [of _ ?name]) (simp add: expose_one_def Let_def alist_put_fresh)
  next
    case True
    obtain x where x: "free_name (Suc (length (map fst exposed))) (sanitize_name tid 4) (map fst exposed) 2 = Some x"
      using free_name_enough by blast
    from free_name_Some [OF this] obtain k where k: "x \<notin> set (map fst exposed)"
      "k < 2 + Suc (length exposed)" "x = sanitize_name tid 4 @ ''_'' @ show_nat k"
      by auto
    have chars: "list_all name_char x"
      using sanitize_name_ok [of tid 4] digit_name_char [OF show_nat_digits, of k]
      by (simp add: k(3) name_char_def)
    have "length x \<le> 64" if "length exposed < 997"
      using sanitize_name_ok [of tid 4] length_show_nat_le [of k 3] k(2) that
      by (simp add: k(3) max_name_len_def)
    with chars k(1) x True show ?thesis
      by (intro exI [of _ x]) (simp add: expose_one_def Let_def alist_put_fresh)
  qed
qed

lemma expose_all:
  assumes "\<forall>(tid, bare) \<in> set ids. list_all name_char bare \<and> length bare \<le> 64"
    and "distinct (map fst exposed)" "list_all (\<lambda>p. list_all name_char (fst p)) exposed"
    and "length exposed + length ids < 998 \<Longrightarrow> list_all (\<lambda>p. length (fst p) \<le> 64) exposed"
  shows "map snd (foldl (expose_one bares) exposed ids) = map snd exposed @ map fst ids \<and>
    distinct (map fst (foldl (expose_one bares) exposed ids)) \<and>
    list_all (\<lambda>p. list_all name_char (fst p)) (foldl (expose_one bares) exposed ids) \<and>
    (length exposed + length ids < 998 \<longrightarrow>
      list_all (\<lambda>p. length (fst p) \<le> 64) (foldl (expose_one bares) exposed ids))"
  using assms
proof (induction ids arbitrary: exposed)
  case Nil
  then show ?case by simp
next
  case (Cons p ids)
  obtain tid bare where p: "p = (tid, bare)" by (cases p)
  obtain name where n: "expose_one bares exposed p = exposed @ [(name, tid)]"
    "name \<notin> fst ` set exposed" "list_all name_char name" "length exposed < 997 \<longrightarrow> length name \<le> 64"
    using expose_one_appends [of bare bares exposed tid] Cons.prems(1) by (auto simp: p)
  have "distinct (map fst (exposed @ [(name, tid)]))" using Cons.prems(2) n(2) by simp
  moreover have "list_all (\<lambda>p. list_all name_char (fst p)) (exposed @ [(name, tid)])"
    using Cons.prems(3) n(3) by simp
  moreover have "list_all (\<lambda>p. length (fst p) \<le> 64) (exposed @ [(name, tid)])"
    if "length (exposed @ [(name, tid)]) + length ids < 998"
    using that Cons.prems(4) n(4) by simp
  ultimately show ?case
    using Cons.IH [of "exposed @ [(name, tid)]"] Cons.prems(1) n(1) by (simp add: p)
qed

text \<open>C31: passthrough exposes every tool exactly once, in order, under names that are pairwise distinct
  and use only the characters MCP allows; with fewer than 998 tools each fits the 64-character limit
  (a \<open>_N\<close> suffix has four characters reserved, so a four-digit \<open>N\<close> would not fit). Three-tool mode
  exposes none.\<close>

theorem exposed_names_valid:
  "map snd (exposed_names Passthrough tools) = map td_id tools \<and>
    distinct (map fst (exposed_names Passthrough tools)) \<and>
    (\<forall>name \<in> fst ` set (exposed_names Passthrough tools). list_all name_char name) \<and>
    (length tools < 998 \<longrightarrow> (\<forall>name \<in> fst ` set (exposed_names Passthrough tools). length name \<le> 64)) \<and>
    exposed_names ThreeTool tools = []"
proof -
  let ?ids = "map (\<lambda>t. (td_id t, sanitize_name (td_name t) 0)) tools"
  have "\<forall>(tid, bare) \<in> set ?ids. list_all name_char bare \<and> length bare \<le> 64"
    using sanitize_name_ok [of _ 0] by (auto simp: max_name_len_def)
  from expose_all [OF this, of "[]" "map snd ?ids"] show ?thesis
    by (simp add: exposed_names_def list_all_iff comp_def)
qed

definition tool_named :: "string \<Rightarrow> string \<Rightarrow> tool_def" where
  "tool_named up name = \<lparr>td_upstream_idx = 0, td_name = name, td_description = [],
     td_input_schema = JObj [], td_id = up @ ''.'' @ name, td_read_only = None, td_extra = []\<rparr>"

theorem exposed_names_valid_witness:
  "length [tool_named ''a'' ''get'', tool_named ''b'' ''get''] < 998 \<and>
    list_all (\<lambda>name. length name \<le> 64)
      (map fst (exposed_names Passthrough [tool_named ''a'' ''get'', tool_named ''b'' ''get''])) \<and>
    exposed_names Passthrough [tool_named ''a'' ''get'', tool_named ''b'' ''get''] =
      [(''a_get'', ''a.get''), (''b_get'', ''b.get'')]"
proof -
  let ?ts = "[tool_named ''a'' ''get'', tool_named ''b'' ''get'']"
  have l: "length ?ts < 998" by simp
  have "exposed_names Passthrough ?ts = [(''a_get'', ''a.get''), (''b_get'', ''b.get'')]" by code_simp
  moreover have "\<forall>name \<in> fst ` set (exposed_names Passthrough ?ts). length name \<le> 64"
    using exposed_names_valid [of ?ts] l by blast
  ultimately show ?thesis using l by (simp add: list_all_iff)
qed

text \<open>the exposed name of a tool does depend on the order of the upstreams, though the source says
  it does not: a prefixed name can meet another tool's bare name, and whichever comes second moves.\<close>

theorem exposed_names_order_dependent:
  "\<exists>t1 t2 t3. map_of (map prod.swap (exposed_names Passthrough [t1, t2, t3])) (td_id t1) \<noteq>
    map_of (map prod.swap (exposed_names Passthrough [t2, t1, t3])) (td_id t1)"
proof -
  let ?x = "tool_named ''x'' ''a_b''" and ?a = "tool_named ''a'' ''b''" and ?c = "tool_named ''c'' ''b''"
  have "exposed_names Passthrough [?x, ?a, ?c] = [(''a_b'', ''x.a_b''), (''a_b_2'', ''a.b''), (''c_b'', ''c.b'')]"
    by code_simp
  moreover have "exposed_names Passthrough [?a, ?x, ?c] = [(''a_b'', ''a.b''), (''x_a_b_2'', ''x.a_b''), (''c_b'', ''c.b'')]"
    by code_simp
  moreover have "td_id ?x = ''x.a_b''" by (simp add: tool_named_def)
  ultimately show ?thesis by (intro exI [of _ ?x] exI [of _ ?a] exI [of _ ?c]) simp
qed

end
