(* ===== verification/ReadCache.thy ===== *)
theory ReadCache
  imports Names Gates
begin

text \<open>
  The read cache: the canonical form of a call's arguments (\<open>canonical_args\<close>), which tools may be
  cached, and write-through invalidation (\<open>src/src/surface/cache.rs\<close>), with the lookup and the bounded
  insertion of the call path (\<open>src/src/surface/dispatch.rs\<close>). \<open>ser\<close> is \<open>serde_json::to_string\<close>; time
  is in nanoseconds.
\<close>

section \<open>Canonical arguments\<close>

fun canonical_args :: "(json \<Rightarrow> string) \<Rightarrow> json \<Rightarrow> string" where
  "canonical_args ser (JObj m) =
     ''{'' @ join_with '','' (map (\<lambda>k. ser (JStr k) @ '':'' @
       (case jget m k of Some v \<Rightarrow> canonical_args ser v | None \<Rightarrow> [])) (sort (jkeys m))) @ ''}''"
| "canonical_args ser (JArr a) = ''['' @ join_with '','' (map (canonical_args ser) a) @ '']''"
| "canonical_args ser scalar = ser scalar"

section \<open>The cache\<close>

definition read_cache_max_entries :: nat where
  "read_cache_max_entries = 512"

definition cache_entry_max_bytes :: nat where
  "cache_entry_max_bytes = 262144"

type_synonym cache_key = "string \<times> string"
type_synonym read_cache = "(cache_key, nat \<times> json) store"

definition cache_allowed :: "config \<Rightarrow> string \<Rightarrow> bool option \<Rightarrow> bool" where
  "cache_allowed cfg tool_id read_only =
     (if c_read_cache_ttl_s cfg = 0 then False
      else (case Option.bind (overlay_for cfg tool_id) ov_cacheable of
          Some c \<Rightarrow> c | None \<Rightarrow> read_only = Some True))"

definition fresh :: "nat \<Rightarrow> nat \<Rightarrow> nat \<Rightarrow> bool" where
  "fresh ttl now at \<longleftrightarrow> now - at < ttl"

definition cache_lookup :: "nat \<Rightarrow> nat \<Rightarrow> cache_key \<Rightarrow> read_cache \<Rightarrow> json option" where
  "cache_lookup ttl now k cache =
     (case map_of cache k of
        Some (at, v) \<Rightarrow> if fresh ttl now at then Some v else None | None \<Rightarrow> None)"

definition cache_put :: "nat \<Rightarrow> cache_key \<Rightarrow> nat \<times> json \<Rightarrow> read_cache \<Rightarrow> read_cache" where
  "cache_put ttl k e cache =
     (let cache = (if length cache \<ge> read_cache_max_entries then
          (let c = filter (\<lambda>(_, at, _). fresh ttl (fst e) at) cache
           in if length c \<ge> read_cache_max_entries then [] else c)
        else cache)
      in alist_put k e cache)"

definition cache_insert :: "(json \<Rightarrow> string) \<Rightarrow> nat \<Rightarrow> nat \<Rightarrow> cache_key \<Rightarrow> json \<Rightarrow> read_cache \<Rightarrow> read_cache" where
  "cache_insert ser ttl now k result cache =
     (if length (ser result) \<le> cache_entry_max_bytes then cache_put ttl k (now, result) cache else cache)"

text \<open>\<open>owner\<close> is the catalog's answer: the upstream of a tool id, when it has the tool.\<close>

definition bust_upstream_cache :: "(string \<Rightarrow> nat option) \<Rightarrow> nat \<Rightarrow> read_cache \<Rightarrow> read_cache" where
  "bust_upstream_cache owner idx cache =
     (if cache = [] then cache
      else filter (\<lambda>((tid, _), _). case owner tid of None \<Rightarrow> True | Some u \<Rightarrow> u \<noteq> idx) cache)"

section \<open>Canonical arguments identify a call\<close>

lemma join_with_Cons: "join_with sep (x # xs) = x @ concat (map (\<lambda>y. sep @ y) xs)"
  by (induction xs arbitrary: x) auto

lemma json_eq_JObj: "json_eq (JObj m) (JObj n) \<longleftrightarrow> length m = length n \<and>
    (\<forall>(k, v) \<in> set m. \<exists>w. jget n k = Some w \<and> json_eq v w)"
  by (auto simp: list_all_iff split: option.splits)

declare json_eq.simps(2) [simp del]

lemma json_eq_get:
  "json_eq (JObj m) (JObj n) \<Longrightarrow> jget m k = Some v \<Longrightarrow> \<exists>w. jget n k = Some w \<and> json_eq v w"
  by (fastforce simp: json_eq_JObj dest: jget_in)

lemma json_eq_keys:
  assumes "json_eq (JObj m) (JObj n)" "wf_json (JObj m)" "wf_json (JObj n)"
  shows "set (jkeys m) = set (jkeys n)"
proof (rule card_subset_eq)
  show "finite (set (jkeys n))" by simp
  show "set (jkeys m) \<subseteq> set (jkeys n)"
  proof
    fix k assume "k \<in> set (jkeys m)"
    then obtain v where "jget m k = Some v" by (metis jget_None not_None_eq)
    then have "jget n k \<noteq> None" using json_eq_get [OF assms(1)] by fastforce
    then show "k \<in> set (jkeys n)" by (simp add: jget_None)
  qed
  show "card (set (jkeys m)) = card (set (jkeys n))"
    using assms by (simp add: json_eq_JObj distinct_card) (simp add: jkeys_def)
qed

lemma canonical_args_cong:
  "json_eq v w \<Longrightarrow> wf_json v \<Longrightarrow> wf_json w \<Longrightarrow> canonical_args ser v = canonical_args ser w"
proof (induction v w rule: json_eq.induct)
  case (1 a b)
  then have "length a = length b" "\<And>i. i < length a \<Longrightarrow> canonical_args ser (a ! i) = canonical_args ser (b ! i)"
    by (auto simp: list_all2_conv_all_nth list_all_iff)
  then have "map (canonical_args ser) a = map (canonical_args ser) b" by (simp add: list_eq_iff_nth_eq)
  then show ?case by simp
next
  case (2 m n)
  have "sort (jkeys m) = sort (jkeys n)"
    using json_eq_keys [OF "2.prems"] "2.prems"(2,3) by (intro sorted_distinct_set_unique) auto
  moreover have "(case jget m k of Some v \<Rightarrow> canonical_args ser v | None \<Rightarrow> []) =
      (case jget n k of Some v \<Rightarrow> canonical_args ser v | None \<Rightarrow> [])" if k: "k \<in> set (jkeys m)" for k
  proof -
    obtain v where v: "jget m k = Some v" using k by (metis jget_None not_None_eq)
    then obtain w where w: "jget n k = Some w" "json_eq v w" using json_eq_get [OF "2.prems"(1)] by blast
    have "canonical_args ser v = canonical_args ser w"
      using "2.IH" [of "(k, v)" w] jget_in [OF v] w wf_json_get [OF "2.prems"(2) v] wf_json_get [OF "2.prems"(3) w(1)]
      by simp
    with v w(1) show ?thesis by simp
  qed
  ultimately have "map (\<lambda>k. ser (JStr k) @ '':'' @
       (case jget m k of Some v \<Rightarrow> canonical_args ser v | None \<Rightarrow> [])) (sort (jkeys m)) =
     map (\<lambda>k. ser (JStr k) @ '':'' @
       (case jget n k of Some v \<Rightarrow> canonical_args ser v | None \<Rightarrow> [])) (sort (jkeys n))"
    by (intro map_cong) (simp_all add: json_eq_keys [OF "2.prems"])
  then show ?case by simp
qed auto

text \<open>What a JSON printer guarantees of its scalars: each is non-empty, does not begin like a composite
  value or its end, and is read back unambiguously when a separator or the end follows. \<open>valid\<close> says
  which number literals occur.\<close>

definition delim :: "string \<Rightarrow> bool" where
  "delim x \<longleftrightarrow> x = [] \<or> hd x \<in> set '',:]}''"

fun scalar :: "(string \<Rightarrow> bool) \<Rightarrow> json \<Rightarrow> bool" where
  "scalar valid (JObj m) = False"
| "scalar valid (JArr a) = False"
| "scalar valid (JNum s) = valid s"
| "scalar valid v = True"

definition scalar_printer :: "(string \<Rightarrow> bool) \<Rightarrow> (json \<Rightarrow> string) \<Rightarrow> bool" where
  "scalar_printer valid ser \<longleftrightarrow>
     (\<forall>s. scalar valid s \<longrightarrow> ser s \<noteq> [] \<and> hd (ser s) \<notin> set ''{[]}'') \<and>
     (\<forall>s t x y. scalar valid s \<longrightarrow> scalar valid t \<longrightarrow> delim x \<longrightarrow> delim y \<longrightarrow>
        ser s @ x = ser t @ y \<longrightarrow> s = t \<and> x = y)"

text \<open>\<open>unambiguous f R A\<close>: a rendering followed by a delimiter determines its value up to \<open>R\<close>.\<close>

definition unambiguous :: "('a \<Rightarrow> string) \<Rightarrow> 'a set \<Rightarrow> ('b \<Rightarrow> string) \<Rightarrow> 'b set \<Rightarrow> ('a \<Rightarrow> 'b \<Rightarrow> bool) \<Rightarrow> bool" where
  "unambiguous f A g B R \<longleftrightarrow> (\<forall>a \<in> A. \<forall>b \<in> B. \<forall>x y. delim x \<longrightarrow> delim y \<longrightarrow>
     f a @ x = g b @ y \<longrightarrow> R a b \<and> x = y)"

lemma delim_tail:
  "c \<in> {CHR '']'', CHR 0x7D} \<Longrightarrow> delim (concat (map (\<lambda>y. '','' @ f y) as) @ c # x)"
  by (cases as) (auto simp: delim_def)

lemma tail_unambiguous:
  assumes "unambiguous f (set as) g (set bs) R" "c \<in> {CHR '']'', CHR 0x7D}"
    and "concat (map (\<lambda>y. '','' @ f y) as) @ c # x = concat (map (\<lambda>y. '','' @ g y) bs) @ c # y"
  shows "list_all2 R as bs \<and> x = y"
  using assms
proof (induction as arbitrary: bs)
  case Nil
  then show ?case by (cases bs) auto
next
  case (Cons a as)
  from Cons.prems(2,3) obtain b bs' where bs: "bs = b # bs'" by (cases bs) auto
  let ?x = "concat (map (\<lambda>y. '','' @ f y) as) @ c # x" and ?y = "concat (map (\<lambda>y. '','' @ g y) bs') @ c # y"
  have d: "delim ?x" "delim ?y" using Cons.prems(2) by (rule delim_tail)+
  have "f a @ ?x = g b @ ?y" using Cons.prems(3) by (simp add: bs)
  then have "R a b" "?x = ?y" using Cons.prems(1) d by (auto simp: unambiguous_def bs)
  moreover have "unambiguous f (set as) g (set bs') R" using Cons.prems(1) by (simp add: unambiguous_def bs)
  ultimately show ?case using Cons.IH [of bs'] Cons.prems(2) by (simp add: bs)
qed

lemma join_unambiguous:
  assumes "unambiguous f (set as) g (set bs) R" "c \<in> {CHR '']'', CHR 0x7D}"
    and "\<forall>a \<in> set as. f a \<noteq> [] \<and> hd (f a) \<noteq> c" "\<forall>b \<in> set bs. g b \<noteq> [] \<and> hd (g b) \<noteq> c"
    and "join_with '','' (map f as) @ c # x = join_with '','' (map g bs) @ c # y"
  shows "list_all2 R as bs \<and> x = y"
proof (cases as)
  case Nil
  with assms(4,5) show ?thesis
    by (cases bs) (auto simp: join_with_Cons hd_append neq_Nil_conv)
next
  case (Cons a as')
  with assms(3,5) obtain b bs' where bs: "bs = b # bs'"
    by (cases bs) (auto simp: join_with_Cons neq_Nil_conv)
  let ?x = "concat (map (\<lambda>y. '','' @ f y) as') @ c # x" and ?y = "concat (map (\<lambda>y. '','' @ g y) bs') @ c # y"
  have d: "delim ?x" "delim ?y" using assms(2) by (rule delim_tail)+
  have "f a @ ?x = g b @ ?y" using assms(5) by (simp add: Cons bs join_with_Cons comp_def)
  then have "R a b" "?x = ?y" using assms(1) d by (auto simp: unambiguous_def Cons bs)
  moreover have "unambiguous f (set as') g (set bs') R" using assms(1) by (simp add: unambiguous_def Cons bs)
  ultimately show ?thesis using tail_unambiguous [of f as' g bs' R c x y] assms(2) by (simp add: Cons bs)
qed

lemma canonical_scalar:
  "scalar valid v \<Longrightarrow> canonical_args ser v = ser v"
  by (cases v) auto

lemma scalar_start:
  "scalar_printer valid ser \<Longrightarrow> scalar valid v \<Longrightarrow> ser v \<noteq> [] \<and> hd (ser v) \<notin> set ''{[]}''"
  by (simp add: scalar_printer_def)

lemma scalar_unique:
  "scalar_printer valid ser \<Longrightarrow> scalar valid s \<Longrightarrow> scalar valid t \<Longrightarrow> delim x \<Longrightarrow> delim y \<Longrightarrow>
    ser s @ x = ser t @ y \<Longrightarrow> s = t \<and> x = y"
  unfolding scalar_printer_def by blast

lemma canonical_start:
  assumes "scalar_printer valid ser" "numbers_ok valid v"
  shows "canonical_args ser v \<noteq> [] \<and> hd (canonical_args ser v) \<notin> set '']}''"
proof (cases "scalar valid v")
  case True
  then show ?thesis using scalar_start [OF assms(1) True] unfolding canonical_scalar [OF True] by simp
next
  case False
  with assms(2) show ?thesis by (cases v) auto
qed

abbreviation entry_text :: "(json \<Rightarrow> string) \<Rightarrow> jmap \<Rightarrow> string \<Rightarrow> string" where
  "entry_text ser m k \<equiv> ser (JStr k) @ '':'' @ (case jget m k of Some v \<Rightarrow> canonical_args ser v | None \<Rightarrow> [])"

abbreviation entry_eq :: "jmap \<Rightarrow> jmap \<Rightarrow> string \<Rightarrow> string \<Rightarrow> bool" where
  "entry_eq m n \<equiv> \<lambda>k k'. k = k' \<and> (\<exists>v w. jget m k = Some v \<and> jget n k' = Some w \<and> json_eq v w)"

lemma entries_json_eq:
  assumes "list_all2 (entry_eq m n) (sort (jkeys m)) (sort (jkeys n))" "distinct (jkeys m)"
  shows "json_eq (JObj m) (JObj n)"
  unfolding json_eq_JObj
proof (intro conjI)
  have "length (sort (jkeys m)) = length (sort (jkeys n))" using assms(1) by (rule list_all2_lengthD)
  then show "length m = length n" by (simp add: jkeys_def)
  have each: "\<exists>v w. jget m k = Some v \<and> jget n k = Some w \<and> json_eq v w" if "k \<in> set (jkeys m)" for k
  proof -
    have "k \<in> set (sort (jkeys m))" using that by simp
    then obtain i where "i < length (sort (jkeys m))" "sort (jkeys m) ! i = k" by (metis in_set_conv_nth)
    with list_all2_nthD [OF assms(1)] show ?thesis by metis
  qed
  show "\<forall>(k, v) \<in> set m. \<exists>w. jget n k = Some w \<and> json_eq v w"
  proof clarify
    fix k v assume kv: "(k, v) \<in> set m"
    then have "jget m k = Some v" using assms(2) by (simp add: jget_iff)
    moreover have "k \<in> set (jkeys m)" using imageI [OF kv, of fst] by (simp add: jkeys_def)
    ultimately show "\<exists>w. jget n k = Some w \<and> json_eq v w" using each by fastforce
  qed
qed

text \<open>The canonical text of the values below \<open>v\<close> is unambiguous; then so are the elements of an array and the entries of an
  object.\<close>

definition unambiguous_below :: "(string \<Rightarrow> bool) \<Rightarrow> (json \<Rightarrow> string) \<Rightarrow> json \<Rightarrow> bool" where
  "unambiguous_below valid ser v \<longleftrightarrow> (\<forall>v' w x y. size v' < size v \<longrightarrow> wf_json v' \<longrightarrow> numbers_ok valid v' \<longrightarrow> wf_json w \<longrightarrow>
     numbers_ok valid w \<longrightarrow> delim x \<longrightarrow> delim y \<longrightarrow> canonical_args ser v' @ x = canonical_args ser w @ y \<longrightarrow> json_eq v' w \<and> x = y)"

lemma unambiguous_belowD:
  "unambiguous_below valid ser v \<Longrightarrow> size v' < size v \<Longrightarrow> wf_json v' \<Longrightarrow> numbers_ok valid v' \<Longrightarrow> wf_json w \<Longrightarrow> numbers_ok valid w \<Longrightarrow>
   delim x \<Longrightarrow> delim y \<Longrightarrow> canonical_args ser v' @ x = canonical_args ser w @ y \<Longrightarrow> json_eq v' w \<and> x = y"
  unfolding unambiguous_below_def by blast

lemma elements_unambiguous:
  assumes "unambiguous_below valid ser (JArr a)" "wf_json (JArr a)" "numbers_ok valid (JArr a)" "wf_json (JArr b)" "numbers_ok valid (JArr b)"
  shows "unambiguous (canonical_args ser) (set a) (canonical_args ser) (set b) json_eq"
  unfolding unambiguous_def
proof (intro ballI allI impI)
  fix v' w' x y
  assume v': "v' \<in> set a" "w' \<in> set b" "delim x" "delim y" "canonical_args ser v' @ x = canonical_args ser w' @ y"
  show "json_eq v' w' \<and> x = y"
    by (rule unambiguous_belowD [OF assms(1)]) (use assms v' json_arr_size [OF v'(1)] in \<open>simp_all add: list_all_iff\<close>)
qed

lemma entries_unambiguous:
  assumes ser: "scalar_printer valid ser" and below: "unambiguous_below valid ser (JObj m)"
    and ok: "wf_json (JObj m)" "numbers_ok valid (JObj m)" "wf_json (JObj n)" "numbers_ok valid (JObj n)"
  shows "unambiguous (entry_text ser m) (set (sort (jkeys m))) (entry_text ser n) (set (sort (jkeys n))) (entry_eq m n)"
  unfolding unambiguous_def
proof (intro ballI allI impI)
  fix k k' x y
  assume k: "k \<in> set (sort (jkeys m))" "k' \<in> set (sort (jkeys n))" "delim x" "delim y"
    and e: "entry_text ser m k @ x = entry_text ser n k' @ y"
  obtain v' w' where g: "jget m k = Some v'" "jget n k' = Some w'"
    using k(1,2) by (metis jget_None not_None_eq set_sort)
  have "ser (JStr k) @ CHR '':'' # canonical_args ser v' @ x = ser (JStr k') @ CHR '':'' # canonical_args ser w' @ y"
    using e g by simp
  then have "JStr k = JStr k' \<and> CHR '':'' # canonical_args ser v' @ x = CHR '':'' # canonical_args ser w' @ y"
    by (intro scalar_unique [OF ser]) (simp_all add: delim_def)
  then have kk: "k = k'" "canonical_args ser v' @ x = canonical_args ser w' @ y" by simp_all
  have "numbers_ok valid v'" "numbers_ok valid w'"
    using ok(2,4) jget_in [OF g(1)] jget_in [OF g(2)] by (auto simp: list_all_iff)
  then have "json_eq v' w' \<and> x = y"
    using unambiguous_belowD [OF below, of v' w' x y] jget_size [OF g(1)] k(3,4) kk(2) wf_json_get [OF ok(1) g(1)] wf_json_get [OF ok(3) g(2)]
    by simp
  with g kk(1) show "entry_eq m n k k' \<and> x = y" by blast
qed

lemma canonical_unambiguous:
  assumes ser: "scalar_printer valid ser"
  shows "wf_json v \<Longrightarrow> numbers_ok valid v \<Longrightarrow> wf_json w \<Longrightarrow> numbers_ok valid w \<Longrightarrow> delim x \<Longrightarrow> delim y \<Longrightarrow>
    canonical_args ser v @ x = canonical_args ser w @ y \<Longrightarrow> json_eq v w \<and> x = y"
proof (induction v arbitrary: w x y rule: measure_induct_rule [where f = size])
  case (less v)
  have below: "unambiguous_below valid ser v" unfolding unambiguous_below_def using less.IH by blast
  show ?case
  proof (cases "scalar valid v \<or> scalar valid w")
    case True
    have "scalar valid v" "scalar valid w"
      using True less.prems scalar_start [OF ser, of v] scalar_start [OF ser, of w]
      by (cases v; cases w; auto simp: hd_append neq_Nil_conv)+
    with scalar_unique [OF ser _ _ less.prems(5,6), of v w] less.prems(7) have "v = w \<and> x = y"
      by (simp add: canonical_scalar)
    with less.prems(1) show ?thesis by simp
  next
    case False
    then consider a b where "v = JArr a" "w = JArr b" | m n where "v = JObj m" "w = JObj n"
      using less.prems by (cases v; cases w) auto
    then show ?thesis
    proof cases
      case (1 a b)
      have "\<forall>v' \<in> set a. canonical_args ser v' \<noteq> [] \<and> hd (canonical_args ser v') \<noteq> CHR '']''"
        "\<forall>v' \<in> set b. canonical_args ser v' \<noteq> [] \<and> hd (canonical_args ser v') \<noteq> CHR '']''"
        using less.prems 1 canonical_start [OF ser] by (auto simp: list_all_iff)
      then have "list_all2 json_eq a b \<and> x = y"
        using elements_unambiguous [of valid ser a b] below less.prems 1 by (intro join_unambiguous [where c = "CHR '']''"]) simp_all
      with 1 show ?thesis by simp
    next
      case (2 m n)
      have "\<forall>k \<in> set (sort (jkeys m)). entry_text ser m k \<noteq> [] \<and> hd (entry_text ser m k) \<noteq> CHR 0x7D"
        "\<forall>k \<in> set (sort (jkeys n)). entry_text ser n k \<noteq> [] \<and> hd (entry_text ser n k) \<noteq> CHR 0x7D"
        using scalar_start [OF ser, of "JStr _"] by (auto simp: hd_append)
      then have "list_all2 (entry_eq m n) (sort (jkeys m)) (sort (jkeys n)) \<and> x = y"
        using entries_unambiguous [OF ser, of m n] below less.prems 2 by (intro join_unambiguous [where c = "CHR 0x7D"]) simp_all
      with 2 less.prems show ?thesis by (auto intro: entries_json_eq)
    qed
  qed
qed

lemma num_literal_unique:
  assumes "num_literal s" "num_literal t" "delim x" "delim y" "s @ x = t @ y"
  shows "s = t \<and> x = y"
proof -
  have tw: "takeWhile num_char (s @ x) = s" if "num_literal s" "delim x" for s x
  proof -
    have "takeWhile num_char x = []"
      using that(2) by (cases x) (auto simp: delim_def num_char_def is_ascii_digit_def)
    with that(1) show ?thesis by (simp add: num_literal_def list_all_iff takeWhile_append)
  qed
  then have "s = t" using assms by metis
  with assms(5) show ?thesis by simp
qed

lemma num_literal_start: "num_literal s \<Longrightarrow> \<exists>c r. s = c # r \<and> num_char c"
  by (cases s) (auto simp: num_literal_def)

lemma json_text_scalar_printer: "scalar_printer num_literal json_text"
  unfolding scalar_printer_def
proof (intro conjI allI impI)
  fix s assume "scalar num_literal s"
  then show "json_text s \<noteq> []" "hd (json_text s) \<notin> set ''{[]}''"
    by (cases s; auto simp: json_string_text_def num_char_def is_ascii_digit_def dest!: num_literal_start)+
next
  fix s t x y
  assume a: "scalar num_literal s" "scalar num_literal t" "delim x" "delim y" "json_text s @ x = json_text t @ y"
  have "s = t \<and> x = y"
  proof (cases "\<exists>l l'. s = JNum l \<and> t = JNum l'")
    case True
    with a num_literal_unique show ?thesis by fastforce
  next
    case False
    with a show ?thesis
      by (cases s; cases t)
         (auto simp: json_string_text_def num_char_def is_ascii_digit_def split: if_splits
           dest: json_string_unique dest!: num_literal_start)
  qed
  then show "s = t" "x = y" by simp_all
qed

text \<open>C32: the canonical form identifies a call: two argument values have the same one exactly when they
  are equal as JSON, whatever the order of their keys at any depth, so the cache key and the
  idempotency key neither split one call nor merge two.\<close>

theorem canonical_args_identify:
  assumes "scalar_printer valid ser" "wf_json v" "wf_json w" "numbers_ok valid v" "numbers_ok valid w"
  shows "canonical_args ser v = canonical_args ser w \<longleftrightarrow> json_eq v w"
  using canonical_unambiguous [OF assms(1,2,4,3,5), of "[]" "[]"] canonical_args_cong [OF _ assms(2,3)]
  by (auto simp: delim_def)

theorem canonical_args_identify_witness:
  "let v = JObj [(''b'', JNum ''2''), (''a'', JArr [JNull, JStr ''x''])];
       w = JObj [(''a'', JArr [JNull, JStr ''x'']), (''b'', JNum ''2'')] in
    (canonical_args json_text v = canonical_args json_text w \<longleftrightarrow> json_eq v w) \<and> json_eq v w \<and>
    \<not> json_eq v (JObj [])"
proof -
  let ?v = "JObj [(''b'', JNum ''2''), (''a'', JArr [JNull, JStr ''x''])]"
  let ?w = "JObj [(''a'', JArr [JNull, JStr ''x'']), (''b'', JNum ''2'')]"
  have "wf_json ?v" "wf_json ?w" "json_eq ?v ?w" "\<not> json_eq ?v (JObj [])" by code_simp+
  moreover have "numbers_ok num_literal ?v" "numbers_ok num_literal ?w"
    by (simp_all add: num_literal_def num_char_def is_ascii_digit_def)
  ultimately show ?thesis
    using canonical_args_identify [OF json_text_scalar_printer, of ?v ?w] unfolding Let_def by blast
qed

section \<open>The cache is bounded, fresh and coherent\<close>

interpretation read_caches: bounded_store "cache_put ttl" read_cache_max_entries for ttl
proof
  fix m :: read_cache and k j :: cache_key and v w :: "nat \<times> json"
  assume d: "distinct (map fst m)"
  have f: "distinct (map fst (filter P m))" for P using d by (rule distinct_filter_keys)
  show "distinct (map fst (cache_put ttl k v m))"
    using d f by (simp add: cache_put_def Let_def)
  show "length (cache_put ttl k v m) \<le> read_cache_max_entries" if "length m \<le> read_cache_max_entries"
    using that by (auto simp: cache_put_def Let_def length_alist_put read_cache_max_entries_def)
  show "(j = k \<and> w = v) \<or> map_of m j = Some w" if "map_of (cache_put ttl k v m) j = Some w"
    using that d by (auto simp: cache_put_def Let_def map_of_filter_distinct split: if_splits option.splits)
qed

text \<open>The two operations that change the cache, each under its lock: a completed read stores its result,
  a completed write drops the reads of its upstream.\<close>

datatype cache_event = Stored nat cache_key json | Busted nat

fun cache_step :: "(json \<Rightarrow> string) \<Rightarrow> nat \<Rightarrow> (string \<Rightarrow> nat option) \<Rightarrow> cache_event \<Rightarrow> read_cache \<Rightarrow> read_cache" where
  "cache_step ser ttl owner (Stored now k v) c = cache_insert ser ttl now k v c"
| "cache_step ser ttl owner (Busted idx) c = bust_upstream_cache owner idx c"

definition cache_run :: "(json \<Rightarrow> string) \<Rightarrow> nat \<Rightarrow> (string \<Rightarrow> nat option) \<Rightarrow> cache_event list \<Rightarrow> read_cache" where
  "cache_run ser ttl owner evs = fold (cache_step ser ttl owner) evs []"

lemma cache_run_snoc: "cache_run ser ttl owner (evs @ [e]) = cache_step ser ttl owner e (cache_run ser ttl owner evs)"
  by (simp add: cache_run_def)

lemma bust_sub: "bust_upstream_cache owner idx c = filter (\<lambda>((tid, _), _). owner tid \<noteq> Some idx) c"
proof -
  have "(case owner t of None \<Rightarrow> True | Some u \<Rightarrow> u \<noteq> idx) \<longleftrightarrow> owner t \<noteq> Some idx" for t
    by (cases "owner t") auto
  then show ?thesis by (simp add: bust_upstream_cache_def)
qed

lemma cache_run_inv: "distinct (map fst (cache_run ser ttl owner evs)) \<and>
    length (cache_run ser ttl owner evs) \<le> read_cache_max_entries"
proof (induction evs rule: rev_induct)
  case Nil
  then show ?case by (simp add: cache_run_def)
next
  case (snoc e evs)
  then show ?case
    using read_caches.put_distinct read_caches.put_bound
    by (cases e) (auto simp: cache_run_snoc cache_insert_def bust_sub distinct_filter_keys
        intro: order.trans [OF length_filter_le])
qed

lemma cache_run_genuine:
  "map_of (cache_run ser ttl owner evs) k = Some (at, v) \<Longrightarrow>
    \<exists>xs ys. evs = xs @ Stored at k v # ys \<and> (\<forall>u. owner (fst k) = Some u \<longrightarrow> Busted u \<notin> set ys)"
proof (induction evs rule: rev_induct)
  case Nil
  then show ?case by (simp add: cache_run_def)
next
  case (snoc e evs)
  let ?c = "cache_run ser ttl owner evs"
  have d: "distinct (map fst ?c)" using cache_run_inv by blast
  have old: ?case if m: "map_of ?c k = Some (at, v)" and b: "\<forall>u. owner (fst k) = Some u \<longrightarrow> e \<noteq> Busted u"
  proof -
    obtain xs ys where "evs = xs @ Stored at k v # ys" "\<forall>u. owner (fst k) = Some u \<longrightarrow> Busted u \<notin> set ys"
      using snoc.IH [OF m] by blast
    with b show ?thesis by (intro exI [of _ xs] exI [of _ "ys @ [e]"]) auto
  qed
  show ?case
  proof (cases e)
    case (Stored now k' v')
    show ?thesis
    proof (cases "length (ser v') \<le> cache_entry_max_bytes")
      case True
      with snoc.prems Stored have "map_of (cache_put ttl k' (now, v') ?c) k = Some (at, v)"
        by (simp add: cache_run_snoc cache_insert_def)
      with read_caches.put_other [OF d, of ttl k' "(now, v')" k "(at, v)"]
      have "(k = k' \<and> at = now \<and> v = v') \<or> map_of ?c k = Some (at, v)" by auto
      then show ?thesis
      proof
        assume "k = k' \<and> at = now \<and> v = v'"
        with Stored show ?thesis by (intro exI [of _ evs] exI [of _ "[]"]) simp
      qed (use old Stored in auto)
    next
      case False
      with snoc.prems Stored have "map_of ?c k = Some (at, v)" by (simp add: cache_run_snoc cache_insert_def)
      with old Stored show ?thesis by auto
    qed
  next
    case (Busted idx)
    with snoc.prems have "map_of ?c k = Some (at, v) \<and> owner (fst k) \<noteq> Some idx"
      by (cases k) (auto simp: cache_run_snoc bust_sub map_of_filter_distinct [OF d] split: option.splits if_splits)
    with old Busted show ?thesis by auto
  qed
qed



section \<open>A read in flight across a write\<close>

text \<open>The steps of two concurrent calls: a read is answered by the upstream (its current version), a write
  changes the version and its completion busts the cache, a read's answer arrives and is stored.\<close>

record cache_world =
  cw_version :: nat
  cw_answer :: "json option"
  cw_cache :: read_cache

datatype call_step = ReadAnswered | WriteCompleted | ReadStored nat

fun world_step :: "cache_key \<Rightarrow> call_step \<Rightarrow> cache_world \<Rightarrow> cache_world" where
  "world_step k ReadAnswered w = w\<lparr>cw_answer := Some (jnat (cw_version w))\<rparr>"
| "world_step k WriteCompleted w =
     w\<lparr>cw_version := cw_version w + 1, cw_cache := bust_upstream_cache (\<lambda>_. Some 0) 0 (cw_cache w)\<rparr>"
| "world_step k (ReadStored now) w = (case cw_answer w of
     None \<Rightarrow> w | Some v \<Rightarrow> w\<lparr>cw_cache := cache_insert json_text 60 now k v (cw_cache w)\<rparr>)"

text \<open>invalidation is not atomic with the read it should invalidate: a read answered before a write
  and stored after it leaves the old value in the cache, and the next read hits it.\<close>

theorem stale_read_after_write:
  "let w = fold (world_step k) [ReadAnswered, WriteCompleted, ReadStored 5]
       \<lparr>cw_version = 0, cw_answer = None, cw_cache = []\<rparr>
   in cw_version w = 1 \<and> cache_lookup 60 6 k (cw_cache w) = Some (jnat 0)"
proof -
  have "length (json_text (jnat 0)) \<le> 1"
    using length_show_nat_le [of 0 1] by (simp add: jnat_def)
  then show ?thesis
    by (simp add: Let_def bust_upstream_cache_def cache_insert_def cache_entry_max_bytes_def cache_put_def
        read_cache_max_entries_def cache_lookup_def fresh_def)
qed

end
