(* ===== verification/Patch.thy ===== *)
theory Patch
  imports Names
begin

text \<open>
  Overlay field patches on input schemas and the integrity of their bindings
  (\<open>src/src/surface/patch.rs\<close>), with the dotted-path navigation shared with preflight (\<open>nav_ref\<close> in
  \<open>src/src/surface/preflight.rs\<close>). A mutable reference into the schema is an edit of the object the
  path reaches (\<open>edit_container\<close>). The specification speaks of the fields a schema has at dotted paths.
\<close>

section \<open>Navigation through \<open>properties\<close>\<close>

definition path_parts :: "string \<Rightarrow> string list" where
  "path_parts path = filter (\<lambda>s. s \<noteq> []) (split_on (CHR ''.'') path)"

fun container_at :: "string list \<Rightarrow> json \<Rightarrow> json option" where
  "container_at [] node = Some node"
| "container_at (s # ss) node =
     Option.bind (Option.bind (vget node ''properties'') (\<lambda>p. vget p s)) (container_at ss)"

definition nav_ref :: "json \<Rightarrow> string \<Rightarrow> (json \<times> string) option" where
  "nav_ref schema path =
     (let parts = path_parts path in
      if parts = [] then None
      else map_option (\<lambda>c. (c, last parts)) (container_at (butlast parts) schema))"

definition has_property :: "json \<Rightarrow> string \<Rightarrow> bool" where
  "has_property node field =
     (case Option.bind (vget node ''properties'') as_object of Some p \<Rightarrow> jhas p field | None \<Rightarrow> False)"

definition field_path_exists :: "json \<Rightarrow> string \<Rightarrow> bool" where
  "field_path_exists schema path =
     (case nav_ref schema path of Some (node, field) \<Rightarrow> has_property node field | None \<Rightarrow> False)"

text \<open>\<open>nav_to_container\<close> and an edit of the object it returns: nothing happens when a segment is absent
  or the container is not an object.\<close>

fun edit_container :: "string list \<Rightarrow> (jmap \<Rightarrow> jmap) \<Rightarrow> json \<Rightarrow> json" where
  "edit_container [] f node = (case node of JObj m \<Rightarrow> JObj (f m) | _ \<Rightarrow> node)"
| "edit_container (s # ss) f node =
     (case node of
        JObj m \<Rightarrow> (case jget m ''properties'' of
            Some (JObj p) \<Rightarrow> (case jget p s of
                Some c \<Rightarrow> JObj (jput ''properties'' (JObj (jput s (edit_container ss f c) p)) m)
              | None \<Rightarrow> node)
          | _ \<Rightarrow> node)
      | _ \<Rightarrow> node)"

section \<open>The patches\<close>

definition set_required :: "string \<Rightarrow> bool \<Rightarrow> jmap \<Rightarrow> jmap" where
  "set_required field req m =
     (if req then
        (let m = jor_insert ''required'' (JArr []) m in
         case jget m ''required'' of
           Some (JArr a) \<Rightarrow>
             if list_ex (\<lambda>v. as_str v = Some field) a then m else jput ''required'' (JArr (a @ [JStr field])) m
         | _ \<Rightarrow> m)
      else
        (case jget m ''required'' of
           Some (JArr a) \<Rightarrow>
             (let a = filter (\<lambda>v. as_str v \<noteq> Some field) a in
              if a = [] then swap_remove ''required'' m else jput ''required'' (JArr a) m)
         | _ \<Rightarrow> m))"

definition opt_put :: "string \<Rightarrow> json option \<Rightarrow> jmap \<Rightarrow> jmap" where
  "opt_put k v m = (case v of Some v \<Rightarrow> jput k v m | None \<Rightarrow> m)"

definition patch_prop :: "field_spec \<Rightarrow> jmap \<Rightarrow> jmap" where
  "patch_prop s prop =
     opt_put ''format'' (map_option JStr (fs_format s))
       (opt_put ''type'' (map_option JStr (fs_ty s))
         (opt_put ''enum'' (map_option JArr (fs_enum_values s))
           (opt_put ''example'' (fs_example s)
             (opt_put ''description'' (map_option JStr (fs_description s)) prop))))"

definition strips :: "field_spec \<Rightarrow> bool" where
  "strips s \<longleftrightarrow> fs_hide s = Some True \<or> fs_user_supplied s \<noteq> None"

definition patch_container :: "string \<Rightarrow> field_spec \<Rightarrow> jmap \<Rightarrow> jmap" where
  "patch_container field s m =
     (case jget m ''properties'' of
        Some (JObj props) \<Rightarrow>
          if \<not> jhas props field then m
          else if strips s then
            set_required field False (jput ''properties'' (JObj (swap_remove field props)) m)
          else
            (let m = (case jget props field of
                 Some (JObj prop) \<Rightarrow> jput ''properties'' (JObj (jput field (JObj (patch_prop s prop)) props)) m
               | _ \<Rightarrow> m)
             in (case fs_required s of Some req \<Rightarrow> set_required field req m | None \<Rightarrow> m))
      | _ \<Rightarrow> m)"

definition apply_field_patch :: "string \<times> field_patch \<Rightarrow> json \<Rightarrow> json" where
  "apply_field_patch = (\<lambda>(path, patch) schema.
     let parts = path_parts path in
     if parts = [] then schema
     else edit_container (butlast parts) (patch_container (last parts) (patch_spec patch)) schema)"

definition apply_field_patches :: "(string \<times> field_patch) list \<Rightarrow> json \<Rightarrow> json" where
  "apply_field_patches patches schema = fold apply_field_patch patches schema"

section \<open>Binding integrity\<close>

datatype binding = BOk | BChanged | BBroken

definition binding_status :: "overlay \<Rightarrow> json option \<Rightarrow> string \<Rightarrow> binding \<times> string list" where
  "binding_status ov resolved live_sha =
     (case resolved of
        None \<Rightarrow> (BBroken, [''target tool '' @ debug_str (ov_tool ov) @ '' is not in the surface''])
      | Some schema \<Rightarrow>
          (let missing = filter (\<lambda>f. \<not> field_path_exists schema f) (map fst (ov_fields ov)) in
           if missing \<noteq> [] then
             (BBroken, map (\<lambda>f. ''patches field '' @ debug_str f @ '', which the tool'' @ [CHR 0x27] @
                ''s schema no longer has'') missing)
           else
             (case ov_authored_sha ov of
                Some authored \<Rightarrow>
                  if authored \<noteq> live_sha then
                    (BChanged, [''upstream schema drifted since authored ('' @ authored @ '' '' @
                      [CHR 0xE2, CHR 0x86, CHR 0x92] @ '' '' @ live_sha @ ''); re-verify''])
                  else (BOk, [])
              | None \<Rightarrow> (BOk, []))))"

section \<open>Fields before and after\<close>

text \<open>\<open>has_path parts v\<close>: the schema has a field at the dotted path with these segments.\<close>

fun has_path :: "string list \<Rightarrow> json \<Rightarrow> bool" where
  "has_path [] v = True"
| "has_path (s # ss) v =
     (case Option.bind (vget v ''properties'') (\<lambda>p. vget p s) of Some c \<Rightarrow> has_path ss c | None \<Rightarrow> False)"

lemma has_property_iff: "has_property v s \<longleftrightarrow> Option.bind (vget v ''properties'') (\<lambda>p. vget p s) \<noteq> None"
  by (cases "vget v ''properties''") (auto simp: has_property_def vget_def jhas_def split: option.splits)

lemma has_path_snoc: "has_path (ss @ [s]) v \<longleftrightarrow> (\<exists>c. container_at ss v = Some c \<and> has_property c s)"
  by (induction ss arbitrary: v) (auto simp: has_property_iff split: option.splits bind_splits)

lemma field_path_exists_iff: "field_path_exists v path \<longleftrightarrow> path_parts path \<noteq> [] \<and> has_path (path_parts path) v"
proof (cases "path_parts path" rule: rev_cases)
  case (snoc ss s)
  then show ?thesis
    by (auto simp: field_path_exists_def nav_ref_def has_path_snoc Let_def split: option.splits)
qed (simp add: field_path_exists_def nav_ref_def)

text \<open>The keys the navigation and the checks read; patching a property leaves them alone.\<close>

definition same_shape :: "jmap \<Rightarrow> jmap \<Rightarrow> bool" where
  "same_shape m n \<longleftrightarrow> jget m ''properties'' = jget n ''properties'' \<and> jget m ''required'' = jget n ''required''"

lemma patch_prop_shape: "same_shape (patch_prop s prop) prop"
  by (auto simp: same_shape_def patch_prop_def opt_put_def split: option.split)

lemma has_path_shape: "same_shape m n \<Longrightarrow> has_path ss (JObj m) = has_path ss (JObj n)"
  by (cases ss) (auto simp: same_shape_def)

lemma set_required_props: "distinct (jkeys m) \<Longrightarrow> jget (set_required field req m) ''properties'' = jget m ''properties''"
  by (auto simp: set_required_def Let_def jget_jor_insert split: option.split json.split)

lemma wf_set_required: "wf_json (JObj m) \<Longrightarrow> wf_json (JObj (set_required field req m))"
proof -
  assume w: "wf_json (JObj m)"
  have a: "wf_json (JArr a)" if "jget m ''required'' = Some (JArr a)" for a
    using w that by (rule wf_json_get)
  have w': "wf_json (JObj (jor_insert ''required'' (JArr []) m))" using w by (simp del: wf_json.simps(2))
  show ?thesis
  proof (cases req)
    case True
    have "wf_json (JArr a)" if "jget (jor_insert ''required'' (JArr []) m) ''required'' = Some (JArr a)" for a
      using w' that by (rule wf_json_get)
    with True w' show ?thesis
      by (auto simp: set_required_def Let_def simp del: wf_json.simps(2) split: option.split json.split)
  next
    case False
    with w a show ?thesis
      by (auto simp: set_required_def Let_def list_all_iff simp del: wf_json.simps(2)
          split: option.split json.split intro!: wf_json_jput)
  qed
qed

definition wf_patch :: "field_patch \<Rightarrow> bool" where
  "wf_patch p \<longleftrightarrow> (\<forall>e. fs_example (patch_spec p) = Some e \<longrightarrow> wf_json e) \<and>
     (\<forall>en. fs_enum_values (patch_spec p) = Some en \<longrightarrow> list_all wf_json en)"

lemma wf_opt_put: "wf_json (JObj m) \<Longrightarrow> (\<And>x. v = Some x \<Longrightarrow> wf_json x) \<Longrightarrow> wf_json (JObj (opt_put k v m))"
  by (cases v) (auto simp: opt_put_def simp del: wf_json.simps(2))

lemma wf_patch_prop:
  "wf_json (JObj prop) \<Longrightarrow> wf_patch p \<Longrightarrow> wf_json (JObj (patch_prop (patch_spec p) prop))"
  unfolding patch_prop_def by (intro wf_opt_put) (auto simp: wf_patch_def)

lemma wf_patch_container:
  assumes "wf_json (JObj m)" "wf_patch p"
  shows "wf_json (JObj (patch_container field (patch_spec p) m))"
proof (cases "\<exists>props. jget m ''properties'' = Some (JObj props) \<and> jhas props field")
  case True
  then obtain props where p: "jget m ''properties'' = Some (JObj props)" "jhas props field" by blast
  have wp: "wf_json (JObj props)" using assms(1) p(1) by (rule wf_json_get)
  show ?thesis
  proof (cases "strips (patch_spec p)")
    case True
    with assms(1) p wp show ?thesis
      by (simp add: patch_container_def wf_set_required del: wf_json.simps(2))
  next
    case False
    have "wf_json (JObj (case jget props field of
        Some (JObj prop) \<Rightarrow> jput ''properties'' (JObj (jput field (JObj (patch_prop (patch_spec p) prop)) props)) m
      | _ \<Rightarrow> m))"
      using assms wp wf_json_get [OF wp]
      by (auto simp del: wf_json.simps(2) split: option.split json.split intro!: wf_json_jput wf_patch_prop)
    with False p show ?thesis
      by (auto simp: patch_container_def Let_def simp del: wf_json.simps(2) split: option.split intro!: wf_set_required)
  qed
qed (use assms in \<open>auto simp: patch_container_def split: option.split json.split\<close>)

lemma wf_edit_container:
  "(\<And>m. wf_json (JObj m) \<Longrightarrow> wf_json (JObj (f m))) \<Longrightarrow> wf_json v \<Longrightarrow> wf_json (edit_container ss f v)"
proof (induction ss f v rule: edit_container.induct)
  case (2 s ss f node)
  show ?case
  proof (cases node)
    case (JObj m)
    have "wf_json (JObj (jput ''properties'' (JObj (jput s (edit_container ss f c) p)) m))"
      if "jget m ''properties'' = Some (JObj p)" "jget p s = Some c" for p c
    proof -
      have "wf_json (JObj p)" using "2.prems"(2) JObj that(1) wf_json_get by blast
      moreover from this have "wf_json (edit_container ss f c)"
        using "2.IH" [OF JObj that(1) refl that(2)] "2.prems"(1) that(2) wf_json_get by blast
      ultimately show ?thesis using "2.prems"(2) JObj by (simp del: wf_json.simps(2))
    qed
    with "2.prems"(2) JObj show ?thesis
      by (auto simp del: wf_json.simps(2) split: option.split json.split)
  qed (use 2 in auto)
qed (auto split: json.split)

text \<open>\<open>child v s\<close>: the schema of property \<open>s\<close>.\<close>

definition child :: "json \<Rightarrow> string \<Rightarrow> json option" where
  "child v s = Option.bind (vget v ''properties'') (\<lambda>p. vget p s)"

lemma wf_child: "wf_json v \<Longrightarrow> child v s = Some c \<Longrightarrow> wf_json c"
proof -
  assume w: "wf_json v" and "child v s = Some c"
  then obtain p where "vget v ''properties'' = Some p" "vget p s = Some c"
    by (auto simp: child_def option_bind_Some_iff)
  with w show ?thesis by (blast intro: wf_json_vget)
qed

lemma has_path_Cons: "has_path (s # ss) v \<longleftrightarrow> (\<exists>c. child v s = Some c \<and> has_path ss c)"
  by (auto simp: child_def split: option.splits)

lemma container_at_Cons: "container_at (s # ss) v = Option.bind (child v s) (container_at ss)"
  by (simp add: child_def)

lemma child_JObj: "child (JObj m) s = (case jget m ''properties'' of Some (JObj p) \<Rightarrow> jget p s | _ \<Rightarrow> None)"
  by (auto simp: child_def vget_def split: option.split json.split)

lemma has_property_child: "has_property v s \<longleftrightarrow> child v s \<noteq> None"
  by (simp add: has_property_iff child_def)

definition requires :: "json \<Rightarrow> string \<Rightarrow> bool" where
  "requires v f \<longleftrightarrow> (\<exists>a. vget v ''required'' = Some (JArr a) \<and> JStr f \<in> set a)"

lemma requires_alt: "requires v f \<longleftrightarrow>
    (case vget v ''required'' of Some (JArr a) \<Rightarrow> list_ex (\<lambda>x. as_str x = Some f) a | _ \<Rightarrow> False)"
  by (auto simp: requires_def list_ex_iff split: option.split json.split)

text \<open>The children after a patch: the patched field gone, or edited within its own keys; every other as
  it was.\<close>

lemma child_set_required: "distinct (jkeys m) \<Longrightarrow> child (JObj (set_required f r m)) s = child (JObj m) s"
  by (simp add: child_JObj set_required_props)

lemma child_patch_strip:
  assumes "wf_json (JObj m)" "strips sp"
  shows "child (JObj (patch_container field sp m)) s =
    (if s = field then None else child (JObj m) s)"
proof -
  have "distinct (jkeys p)" if "jget m ''properties'' = Some (JObj p)" for p
    using wf_json_get [OF assms(1) that] by simp
  with assms show ?thesis
    by (auto simp: patch_container_def child_JObj set_required_props jhas_def
        split: option.split json.split)
qed

lemma child_patch_keep:
  assumes "wf_json (JObj m)" "\<not> strips sp"
  shows "\<exists>g. (\<forall>prop. same_shape (g prop) prop) \<and> child (JObj (patch_container field sp m)) s =
    (if s = field then map_option (\<lambda>c. case c of JObj prop \<Rightarrow> JObj (g prop) | _ \<Rightarrow> c) (child (JObj m) s)
     else child (JObj m) s)"
proof (intro exI [of _ "patch_prop sp"] conjI allI)
  show "same_shape (patch_prop sp q) q" for q by (rule patch_prop_shape)
  have d: "distinct (jkeys (jput k v m))" for k v using assms(1) by simp
  show "child (JObj (patch_container field sp m)) s =
    (if s = field then map_option (\<lambda>c. case c of JObj prop \<Rightarrow> JObj (patch_prop sp prop) | _ \<Rightarrow> c) (child (JObj m) s)
     else child (JObj m) s)"
    using assms d
    by (auto simp: patch_container_def child_JObj set_required_props jhas_def Let_def
        split: option.split json.split)
qed

lemma requires_set_required:
  assumes "distinct (jkeys m)"
  shows "requires (JObj (set_required field req m)) f \<Longrightarrow>
    (req \<and> f = field) \<or> (requires (JObj m) f \<and> (\<not> req \<longrightarrow> f \<noteq> field))"
  using assms
  by (auto simp: requires_def set_required_def Let_def jget_jor_insert split: if_splits option.splits json.splits)

lemma requires_patch:
  assumes "wf_json (JObj m)" "requires (JObj (patch_container field sp m)) f"
  shows "(requires (JObj m) f \<and> \<not> (strips sp \<and> f = field \<and> has_property (JObj m) field)) \<or>
    (f = field \<and> \<not> strips sp \<and> has_property (JObj m) field)"
proof (cases "has_property (JObj m) field")
  case False
  then have "patch_container field sp m = m"
    by (auto simp: patch_container_def has_property_def split: option.splits json.splits)
  with assms(2) False show ?thesis by simp
next
  case True
  then obtain props where p: "jget m ''properties'' = Some (JObj props)" "jhas props field"
    by (auto simp: has_property_def split: option.splits json.splits bind_splits)
  have d: "distinct (jkeys (jput ''properties'' x m))" for x using assms(1) by simp
  have r: "requires (JObj (jput ''properties'' x m)) f = requires (JObj m) f" for x f
    by (simp add: requires_def)
  show ?thesis
  proof (cases "strips sp")
    case True
    with assms(2) p have "requires (JObj (set_required field False (jput ''properties'' (JObj (swap_remove field props)) m))) f"
      by (simp add: patch_container_def)
    from requires_set_required [OF d this] show ?thesis by (simp add: r)
  next
    case False
    obtain m1 where m1: "distinct (jkeys m1)" "\<And>f. requires (JObj m1) f = requires (JObj m) f"
      "patch_container field sp m = (case fs_required sp of Some req \<Rightarrow> set_required field req m1 | None \<Rightarrow> m1)"
    proof -
      let ?m1 = "case jget props field of
          Some (JObj prop) \<Rightarrow> jput ''properties'' (JObj (jput field (JObj (patch_prop sp prop)) props)) m | _ \<Rightarrow> m"
      have "distinct (jkeys ?m1)" using assms(1) by (auto split: option.split json.split)
      moreover have "requires (JObj ?m1) f = requires (JObj m) f" for f
        using r by (auto split: option.split json.split)
      moreover have "patch_container field sp m = (case fs_required sp of Some req \<Rightarrow> set_required field req ?m1 | None \<Rightarrow> ?m1)"
        using p False by (simp add: patch_container_def Let_def)
      ultimately show thesis by (rule that)
    qed
    with assms(2) have "requires (JObj m) f \<or> f = field"
      by (auto split: option.splits dest!: requires_set_required [OF m1(1)])
    with False True show ?thesis by auto
  qed
qed

text \<open>No phantom requirement: at every container the required names are fields it has.\<close>

definition all_closed :: "json \<Rightarrow> bool" where
  "all_closed v \<longleftrightarrow> (\<forall>ss c f. container_at ss v = Some c \<longrightarrow> requires c f \<longrightarrow> has_property c f)"

lemma all_closed_iff:
  "all_closed v \<longleftrightarrow> (\<forall>f. requires v f \<longrightarrow> has_property v f) \<and> (\<forall>s c. child v s = Some c \<longrightarrow> all_closed c)"
proof (intro iffI conjI allI impI)
  assume a: "all_closed v"
  show "has_property v f" if "requires v f" for f
    using a that unfolding all_closed_def by (metis container_at.simps(1))
  show "all_closed c" if "child v s = Some c" for s c
    using a that unfolding all_closed_def by (metis container_at_Cons option.simps(4) bind.bind_lunit)
next
  assume a: "(\<forall>f. requires v f \<longrightarrow> has_property v f) \<and> (\<forall>s c. child v s = Some c \<longrightarrow> all_closed c)"
  show "all_closed v"
    unfolding all_closed_def
  proof (intro allI impI)
    fix ss c f assume c: "container_at ss v = Some c" "requires c f"
    show "has_property c f"
    proof (cases ss)
      case Nil
      with a c show ?thesis by simp
    next
      case (Cons s ss')
      with c(1) obtain d where "child v s = Some d" "container_at ss' d = Some c"
        by (auto simp: container_at_Cons option_bind_Some_iff simp del: container_at.simps)
      with a c(2) show ?thesis unfolding all_closed_def by blast
    qed
  qed
qed

lemma all_closed_shape: "same_shape m n \<Longrightarrow> all_closed (JObj m) = all_closed (JObj n)"
  unfolding all_closed_iff [of "JObj m"] all_closed_iff [of "JObj n"]
  by (simp add: same_shape_def requires_def has_property_def child_JObj)

text \<open>What an edit of one container keeps, if the edit of an object does.\<close>

lemma child_edit_container:
  assumes "child (edit_container (s # ss) f v) t = Some c'"
  shows "child v t = Some c' \<or> (t = s \<and> (\<exists>c. child v s = Some c \<and> c' = edit_container ss f c))"
  using assms by (cases v) (auto simp: child_JObj split: option.splits json.splits if_splits)

lemma requires_edit_container: "requires (edit_container (s # ss) f v) = requires v"
  by (cases v) (auto simp: requires_def fun_eq_iff split: option.splits json.splits)

lemma has_property_edit_container: "has_property (edit_container (s # ss) f v) t = has_property v t"
  by (cases v) (auto simp: has_property_child child_JObj split: option.splits json.splits)

lemma has_path_edit_container:
  assumes "\<And>m q. wf_json (JObj m) \<Longrightarrow> has_path q (JObj (f m)) \<Longrightarrow> has_path q (JObj m)"
  shows "wf_json v \<Longrightarrow> has_path q (edit_container ss f v) \<Longrightarrow> has_path q v"
proof (induction ss arbitrary: v q)
  case Nil
  with assms show ?case by (cases v) auto
next
  case (Cons s ss)
  show ?case
  proof (cases q)
    case (Cons t q')
    with Cons.prems(2) obtain c' where c': "child (edit_container (s # ss) f v) t = Some c'" "has_path q' c'"
      by (auto simp: has_path_Cons simp del: edit_container.simps has_path.simps)
    from child_edit_container [OF c'(1)] show ?thesis
    proof
      assume "t = s \<and> (\<exists>c. child v s = Some c \<and> c' = edit_container ss f c)"
      then obtain c where c: "t = s" "child v s = Some c" "c' = edit_container ss f c" by blast
      have "wf_json c" using Cons.prems(1) c(2) by (rule wf_child)
      have "has_path q' c" using Cons.IH [OF \<open>wf_json c\<close>] c(3) c'(2) by simp
      with c show ?thesis unfolding Cons has_path_Cons by blast
    next
      assume "child v t = Some c'"
      with c'(2) show ?thesis unfolding Cons has_path_Cons by blast
    qed
  qed simp
qed

lemma all_closed_edit_container:
  assumes "\<And>m. wf_json (JObj m) \<Longrightarrow> all_closed (JObj m) \<Longrightarrow> all_closed (JObj (f m))"
  shows "wf_json v \<Longrightarrow> all_closed v \<Longrightarrow> all_closed (edit_container ss f v)"
proof (induction ss arbitrary: v)
  case Nil
  with assms show ?case by (cases v) auto
next
  case (Cons s ss)
  have kids: "all_closed c'" if c': "child (edit_container (s # ss) f v) t = Some c'" for t c'
    using child_edit_container [OF c']
  proof
    assume "t = s \<and> (\<exists>c. child v s = Some c \<and> c' = edit_container ss f c)"
    then obtain c where c: "child v s = Some c" "c' = edit_container ss f c" by blast
    have "wf_json c" using Cons.prems(1) c(1) by (rule wf_child)
    moreover have "all_closed c" using iffD1 [OF all_closed_iff Cons.prems(2)] c(1) by blast
    ultimately show ?thesis using Cons.IH c(2) by simp
  next
    assume "child v t = Some c'"
    with iffD1 [OF all_closed_iff Cons.prems(2)] show ?thesis by blast
  qed
  have "\<forall>g. requires v g \<longrightarrow> has_property v g" using iffD1 [OF all_closed_iff Cons.prems(2)] by blast
  then have "\<forall>g. requires (edit_container (s # ss) f v) g \<longrightarrow> has_property (edit_container (s # ss) f v) g"
    by (simp only: requires_edit_container has_property_edit_container)
  with kids show ?case by (intro iffD2 [OF all_closed_iff]) blast
qed

lemma patch_container_path:
  assumes "wf_json (JObj m)" "has_path q (JObj (patch_container field sp m))"
  shows "has_path q (JObj m) \<and> (strips sp \<longrightarrow> q \<noteq> [] \<longrightarrow> hd q \<noteq> field)"
proof (cases q)
  case (Cons s q')
  with assms(2) obtain c where c: "child (JObj (patch_container field sp m)) s = Some c" "has_path q' c"
    by (auto simp: has_path_Cons simp del: has_path.simps)
  show ?thesis
  proof (cases "strips sp")
    case True
    with child_patch_strip [OF assms(1) True, of field s] c(1) have "s \<noteq> field" "child (JObj m) s = Some c"
      by (auto split: if_splits)
    with c(2) Cons show ?thesis by (auto simp: has_path_Cons simp del: has_path.simps)
  next
    case False
    obtain g where g: "\<forall>prop. same_shape (g prop) prop"
      "child (JObj (patch_container field sp m)) s =
        (if s = field then map_option (\<lambda>c. case c of JObj prop \<Rightarrow> JObj (g prop) | _ \<Rightarrow> c) (child (JObj m) s)
         else child (JObj m) s)"
      using child_patch_keep [OF assms(1) False] by blast
    have "\<exists>d. child (JObj m) s = Some d \<and> has_path q' d"
    proof (cases "s = field")
      case True
      with g(2) c(1) obtain d where d: "child (JObj m) s = Some d"
        "c = (case d of JObj prop \<Rightarrow> JObj (g prop) | _ \<Rightarrow> d)" by auto
      have "has_path q' d" using c(2) d(2) has_path_shape g(1) by (cases d) auto
      with d(1) show ?thesis by blast
    next
      case False
      have "child (JObj m) s = Some c" using g(2) c(1) False by simp
      with c(2) show ?thesis by blast
    qed
    with False Cons show ?thesis by (simp add: has_path_Cons del: has_path.simps)
  qed
qed simp

lemma has_property_patch:
  assumes "wf_json (JObj m)"
  shows "has_property (JObj (patch_container field sp m)) f \<longleftrightarrow>
    has_property (JObj m) f \<and> \<not> (strips sp \<and> f = field)"
proof (cases "strips sp")
  case True
  with child_patch_strip [OF assms True, of field f] show ?thesis by (simp add: has_property_child)
next
  case False
  then obtain g where "child (JObj (patch_container field sp m)) f =
      (if f = field then map_option (\<lambda>c. case c of JObj prop \<Rightarrow> JObj (g prop) | _ \<Rightarrow> c) (child (JObj m) f)
       else child (JObj m) f)"
    using child_patch_keep [OF assms False, of field f] by blast
  with False show ?thesis by (simp add: has_property_child)
qed

lemma patch_container_closed:
  assumes "wf_json (JObj m)" "all_closed (JObj m)"
  shows "all_closed (JObj (patch_container field sp m))"
proof (rule iffD2 [OF all_closed_iff], intro conjI allI impI)
  fix f assume "requires (JObj (patch_container field sp m)) f"
  from requires_patch [OF assms(1) this] iffD1 [OF all_closed_iff assms(2)]
  show "has_property (JObj (patch_container field sp m)) f"
    unfolding has_property_patch [OF assms(1)] by blast
next
  fix s c assume c: "child (JObj (patch_container field sp m)) s = Some c"
  have old: "all_closed d" if "child (JObj m) s = Some d" for d
    using iffD1 [OF all_closed_iff assms(2)] that by blast
  show "all_closed c"
  proof (cases "strips sp")
    case True
    with child_patch_strip [OF assms(1) True, of field s] c old show ?thesis by (auto split: if_splits)
  next
    case False
    obtain g where g: "\<forall>prop. same_shape (g prop) prop"
      "child (JObj (patch_container field sp m)) s =
        (if s = field then map_option (\<lambda>c. case c of JObj prop \<Rightarrow> JObj (g prop) | _ \<Rightarrow> c) (child (JObj m) s)
         else child (JObj m) s)"
      using child_patch_keep [OF assms(1) False] by blast
    show ?thesis
    proof (cases "s = field")
      case True
      with g(2) c obtain d where d: "child (JObj m) s = Some d"
        "c = (case d of JObj prop \<Rightarrow> JObj (g prop) | _ \<Rightarrow> d)" by auto
      with old all_closed_shape g(1) show ?thesis by (cases d) auto
    qed (use g(2) c old in simp)
  qed
qed

lemma strip_path_gone:
  assumes "strips sp"
  shows "wf_json v \<Longrightarrow> \<not> has_path (ss @ [field]) (edit_container ss (patch_container field sp) v)"
proof (induction ss arbitrary: v)
  case Nil
  show ?case
  proof (cases v)
    case (JObj m)
    with patch_container_path [of m "[field]" field sp] Nil assms show ?thesis
      by (auto simp del: has_path.simps)
  qed (auto simp: vget_def)
next
  case (Cons s ss)
  show ?case
  proof
    assume "has_path ((s # ss) @ [field]) (edit_container (s # ss) (patch_container field sp) v)"
    then obtain c' where c': "child (edit_container (s # ss) (patch_container field sp) v) s = Some c'"
      "has_path (ss @ [field]) c'"
      by (auto simp: has_path_Cons simp del: has_path.simps edit_container.simps)
    obtain c where c: "child v s = Some c" "c' = edit_container ss (patch_container field sp) c"
      using c'(1) by (cases v) (auto simp: child_JObj child_def vget_def split: option.splits json.splits)
    with Cons.IH [OF wf_child [OF Cons.prems c(1)]] c'(2) show False by simp
  qed
qed

lemma wf_apply_field_patch:
  "wf_json v \<Longrightarrow> wf_patch p \<Longrightarrow> wf_json (apply_field_patch (path, p) v)"
  by (auto simp: apply_field_patch_def Let_def intro!: wf_edit_container wf_patch_container)

lemma apply_field_patch_path:
  "wf_json v \<Longrightarrow> has_path q (apply_field_patch (path, p) v) \<Longrightarrow> has_path q v"
  using has_path_edit_container [of "patch_container (last (path_parts path)) (patch_spec p)" v q "butlast (path_parts path)"]
    patch_container_path
  by (auto simp: apply_field_patch_def Let_def split: if_splits)

lemma apply_field_patch_closed:
  "wf_json v \<Longrightarrow> all_closed v \<Longrightarrow> all_closed (apply_field_patch (path, p) v)"
  by (auto simp: apply_field_patch_def Let_def intro!: all_closed_edit_container patch_container_closed)

lemma apply_field_patch_strips:
  "wf_json v \<Longrightarrow> strips (patch_spec p) \<Longrightarrow> path_parts path \<noteq> [] \<Longrightarrow>
    \<not> has_path (path_parts path) (apply_field_patch (path, p) v)"
  using strip_path_gone [of "patch_spec p" v "butlast (path_parts path)" "last (path_parts path)"]
  by (simp add: apply_field_patch_def Let_def)

lemma apply_field_patches_inv:
  "wf_json v \<Longrightarrow> \<forall>(path, p) \<in> set ps. wf_patch p \<Longrightarrow>
    wf_json (apply_field_patches ps v) \<and> (\<forall>q. has_path q (apply_field_patches ps v) \<longrightarrow> has_path q v) \<and>
    (all_closed v \<longrightarrow> all_closed (apply_field_patches ps v))"
proof (induction ps arbitrary: v)
  case Nil
  then show ?case by (simp add: apply_field_patches_def)
next
  case (Cons pp ps)
  obtain path p where pp: "pp = (path, p)" by (cases pp)
  have p: "wf_patch p" "\<forall>(path, p) \<in> set ps. wf_patch p" using Cons.prems(2) by (auto simp: pp)
  have w: "wf_json (apply_field_patch (path, p) v)" using Cons.prems(1) p(1) by (rule wf_apply_field_patch)
  have e: "apply_field_patches (pp # ps) v = apply_field_patches ps (apply_field_patch (path, p) v)"
    by (simp add: apply_field_patches_def pp)
  show ?case
    unfolding e using Cons.IH [OF w p(2)] apply_field_patch_path [OF Cons.prems(1), of _ path p]
      apply_field_patch_closed [OF Cons.prems(1), of path p] by blast
qed

text \<open>C33: a field an overlay hides or supplies itself is gone from the schema the agent sees, whatever the
  order of the patches; no patch makes a field appear; and if every required name was a real field
  before, every required name is one after (no phantom requirement).\<close>

theorem patched_schema_fields:
  assumes "wf_json v" "\<forall>(path, p) \<in> set ps. wf_patch p"
  shows "(\<forall>(path, p) \<in> set ps. strips (patch_spec p) \<longrightarrow> \<not> field_path_exists (apply_field_patches ps v) path) \<and>
    (\<forall>path. field_path_exists (apply_field_patches ps v) path \<longrightarrow> field_path_exists v path) \<and>
    (all_closed v \<longrightarrow> all_closed (apply_field_patches ps v))"
proof (intro conjI)
  show "\<forall>path. field_path_exists (apply_field_patches ps v) path \<longrightarrow> field_path_exists v path"
    "all_closed v \<longrightarrow> all_closed (apply_field_patches ps v)"
    using apply_field_patches_inv [OF assms] by (auto simp: field_path_exists_iff)
  show "\<forall>(path, p) \<in> set ps. strips (patch_spec p) \<longrightarrow> \<not> field_path_exists (apply_field_patches ps v) path"
    using assms
  proof (induction ps arbitrary: v)
    case (Cons pp ps)
    obtain path p where pp: "pp = (path, p)" by (cases pp)
    have p: "wf_patch p" "\<forall>(path, p) \<in> set ps. wf_patch p" using Cons.prems(2) by (auto simp: pp)
    have w: "wf_json (apply_field_patch (path, p) v)" using Cons.prems(1) p(1) by (rule wf_apply_field_patch)
    have e: "apply_field_patches (pp # ps) v = apply_field_patches ps (apply_field_patch (path, p) v)"
      by (simp add: apply_field_patches_def pp)
    have "\<not> field_path_exists (apply_field_patches ps (apply_field_patch (path, p) v)) path" if "strips (patch_spec p)"
      using apply_field_patches_inv [OF w p(2)] apply_field_patch_strips [OF Cons.prems(1) that, of path]
      by (auto simp: field_path_exists_iff)
    with Cons.IH [OF w p(2)] show ?case unfolding e unfolding pp by (simp add: Ball_def)
  qed simp
qed

theorem patched_schema_fields_witness:
  "let v = JObj [(''type'', JStr ''object''), (''properties'', JObj [(''a'', JObj []), (''b'', JObj [])]),
        (''required'', JArr [JStr ''b''])];
       ps = [(''b'', PatchSpec (default_field_spec\<lparr>fs_hide := Some True\<rparr>)),
             (''zz'', PatchSpec (default_field_spec\<lparr>fs_required := Some True\<rparr>))] in
    field_path_exists v ''b'' \<and> \<not> field_path_exists (apply_field_patches ps v) ''b'' \<and>
    \<not> field_path_exists (apply_field_patches ps v) ''zz'' \<and> vget (apply_field_patches ps v) ''required'' = None"
proof -
  let ?v = "JObj [(''type'', JStr ''object''), (''properties'', JObj [(''a'', JObj []), (''b'', JObj [])]),
        (''required'', JArr [JStr ''b''])]"
  let ?ps = "[(''b'', PatchSpec (default_field_spec\<lparr>fs_hide := Some True\<rparr>)),
             (''zz'', PatchSpec (default_field_spec\<lparr>fs_required := Some True\<rparr>))]"
  have w: "wf_json ?v" by code_simp
  have p: "\<forall>(path, p) \<in> set ?ps. wf_patch p" by (simp add: wf_patch_def default_field_spec_def)
  have e: "field_path_exists ?v ''b''" "\<not> field_path_exists ?v ''zz''"
    "vget (apply_field_patches ?ps ?v) ''required'' = None" by code_simp+
  have s: "strips (patch_spec (PatchSpec (default_field_spec\<lparr>fs_hide := Some True\<rparr>)))" by (simp add: strips_def)
  have "\<not> field_path_exists (apply_field_patches ?ps ?v) ''b''"
    using bspec [OF conjunct1 [OF patched_schema_fields [OF w p]],
        of "(''b'', PatchSpec (default_field_spec\<lparr>fs_hide := Some True\<rparr>))"] s by simp
  moreover have "\<not> field_path_exists (apply_field_patches ?ps ?v) ''zz''"
    using patched_schema_fields [OF w p] e(2) by blast
  ultimately show ?thesis using e unfolding Let_def by blast
qed

end
