(* ===== verification/Preflight.thy ===== *)
theory Preflight
  imports Patch Complex_Main
begin

text \<open>
  Local validation of a call against its schema (\<open>src/src/surface/preflight.rs\<close>): the structured
  error of a field, the walk over required fields and enums, and the decoding of double-encoded
  arguments. \<open>parse\<close> is \<open>serde_json::from_str\<close>; \<open>f64\<close> is a number literal's value as a double.
\<close>

section \<open>Structured errors\<close>

definition structured_field_error :: "json \<Rightarrow> string \<Rightarrow> string \<Rightarrow> string \<Rightarrow> json option" where
  "structured_field_error container field display reason =
     (case Option.bind (vget container ''properties'') (\<lambda>p. vget p field) of
        None \<Rightarrow> None
      | Some prop \<Rightarrow>
          (let required = (case Option.bind (vget container ''required'') as_array of
                 Some a \<Rightarrow> list_ex (\<lambda>v. as_str v = Some field) a | None \<Rightarrow> False);
               fix_text = (if vget prop ''enum'' \<noteq> None
                 then ''set '' @ display @ '' to one of allowed_values, then retry''
                 else ''set '' @ display @ '' (see description) in the arguments, then retry'')
           in Some (JObj (
                [(''error'', JStr reason), (''field'', JStr display), (''required'', JBool required)] @
                (case vget prop ''enum'' of Some e \<Rightarrow> [(''allowed_values'', e)] | None \<Rightarrow> []) @
                (case Option.bind (vget prop ''description'') as_str of
                   Some d \<Rightarrow> [(''description'', JStr d)] | None \<Rightarrow> []) @
                [(''fix'', JStr fix_text)]))))"

definition structured_field_error_at :: "json \<Rightarrow> string \<Rightarrow> string \<Rightarrow> json option" where
  "structured_field_error_at schema dotted reason =
     (case nav_ref schema dotted of
        Some (container, field) \<Rightarrow> structured_field_error container field dotted reason | None \<Rightarrow> None)"

section \<open>The walk\<close>

definition null_allowed :: "json \<Rightarrow> bool" where
  "null_allowed pschema =
     (if Option.bind (vget pschema ''nullable'') as_bool = Some True then True
      else if (case Option.bind (vget pschema ''type'') as_array of
          Some types \<Rightarrow> list_ex (\<lambda>t. as_str t = Some ''null'') types | None \<Rightarrow> False) then True
      else (case Option.bind (vget pschema ''enum'') as_array of Some e \<Rightarrow> list_ex is_null e | None \<Rightarrow> False))"

fun as_f64 :: "(string \<Rightarrow> rat option) \<Rightarrow> json \<Rightarrow> rat option" where
  "as_f64 f64 (JNum s) = f64 s"
| "as_f64 f64 _ = None"

definition enum_value_matches :: "(string \<Rightarrow> rat option) \<Rightarrow> json \<Rightarrow> json \<Rightarrow> bool" where
  "enum_value_matches f64 expected got =
     (if json_eq expected got then True
      else (case (as_f64 f64 expected, as_f64 f64 got) of (Some a, Some g) \<Rightarrow> a = g | _ \<Rightarrow> False))"

definition required_names :: "json \<Rightarrow> string list" where
  "required_names container =
     (case Option.bind (vget container ''required'') as_array of
        Some a \<Rightarrow> List.map_filter as_str a | None \<Rightarrow> [])"

text \<open>The first property at which the loop returns: \<open>Some r\<close> returns \<open>r\<close>, \<open>None\<close> goes on.\<close>

fun first_return :: "('a \<Rightarrow> 'b option) \<Rightarrow> 'a list \<Rightarrow> 'b option" where
  "first_return f [] = None"
| "first_return f (x # xs) = (case f x of Some r \<Rightarrow> Some r | None \<Rightarrow> first_return f xs)"

lemma first_return_cong [fundef_cong]:
  "xs = ys \<Longrightarrow> (\<And>x. x \<in> set ys \<Longrightarrow> f x = g x) \<Longrightarrow> first_return f xs = first_return g ys"
  by (induction xs arbitrary: ys) (auto split: option.split)

text \<open>A property whose schema the walker cannot evaluate, or that is optional and absent, passes.\<close>

definition check_required :: "json \<Rightarrow> json \<Rightarrow> string \<Rightarrow> json option \<Rightarrow> bool" where
  "check_required container pschema name val \<longleftrightarrow>
     name \<in> set (required_names container) \<and>
     (case val of None \<Rightarrow> True | Some v \<Rightarrow> v = JNull \<and> \<not> null_allowed pschema)"

definition check_enum :: "(string \<Rightarrow> rat option) \<Rightarrow> json \<Rightarrow> json \<Rightarrow> bool" where
  "check_enum f64 pschema v \<longleftrightarrow>
     (case Option.bind (vget pschema ''enum'') as_array of
        Some en \<Rightarrow> \<not> list_ex (\<lambda>x. enum_value_matches f64 x v) en | None \<Rightarrow> False)"

function (sequential) preflight_walk ::
  "(string \<Rightarrow> rat option) \<Rightarrow> json \<Rightarrow> json \<Rightarrow> string \<Rightarrow> json option" where
  "preflight_walk f64 container args prefix =
     (case Option.bind (vget container ''properties'') as_object of
        None \<Rightarrow> None
      | Some props \<Rightarrow>
          Option.bind (first_return (\<lambda>(name, pschema).
            let path = (if prefix = [] then name else prefix @ ''.'' @ name);
                val = vget args name in
            if check_required container pschema name val
            then Some (structured_field_error container name path ''missing_required_field'')
            else (case val of
                None \<Rightarrow> None
              | Some v \<Rightarrow>
                  if is_null v then None
                  else if vget pschema ''anyOf'' \<noteq> None \<or> vget pschema ''oneOf'' \<noteq> None then None
                  else if check_enum f64 pschema v
                  then Some (structured_field_error container name path ''invalid_enum_value'')
                  else if Option.bind (vget pschema ''type'') as_str = Some ''object''
                  then (case preflight_walk f64 pschema v path of
                      Some inner \<Rightarrow> Some (Some inner) | None \<Rightarrow> None)
                  else None)) props) id)"
  by pat_completeness auto
termination
proof (relation "measure (\<lambda>(f64, container, args, prefix). size container)", goal_cases)
  case (2 f64 container args prefix props p name pschema path val v)
  then have "vget container ''properties'' = Some (JObj props)" by (auto simp: option_bind_Some_iff)
  then have "size (JObj props) < size container" by (rule vget_size)
  moreover have "size pschema < size (JObj props)" using 2 by (auto dest: json_obj_size)
  ultimately show ?case by simp
qed simp

declare preflight_walk.simps [simp del]

definition preflight_error :: "(string \<Rightarrow> rat option) \<Rightarrow> json \<Rightarrow> json \<Rightarrow> json option" where
  "preflight_error f64 schema args = preflight_walk f64 schema args []"

section \<open>Double-encoded arguments\<close>

definition decode_text :: "(string \<Rightarrow> json option) \<Rightarrow> string option \<Rightarrow> json \<Rightarrow> json option" where
  "decode_text parse declared val =
     (case val of
        JStr text \<Rightarrow>
          if declared = Some ''object'' \<or> declared = Some ''array'' then
            (case parse text of
               Some parsed \<Rightarrow>
                 if is_object parsed \<and> declared = Some ''object'' then Some parsed
                 else if is_array parsed \<and> declared = Some ''array'' then Some parsed else None
             | None \<Rightarrow> None)
          else Some val
      | _ \<Rightarrow> Some val)"

text \<open>\<open>None\<close> of \<open>decode_text\<close> is the loop's \<open>continue\<close>: that argument stays as it is.\<close>

function (sequential) decode_stringified :: "(string \<Rightarrow> json option) \<Rightarrow> json \<Rightarrow> json \<Rightarrow> json" where
  "decode_stringified parse schema args =
     (case (Option.bind (vget schema ''properties'') as_object, as_object args) of
        (Some props, Some m) \<Rightarrow>
          JObj (fold (\<lambda>(name, pschema) m.
            case jget m name of
              None \<Rightarrow> m
            | Some val \<Rightarrow>
                (let declared = Option.bind (vget pschema ''type'') as_str in
                 case decode_text parse declared val of
                   None \<Rightarrow> m
                 | Some val \<Rightarrow> jput name
                     (if declared = Some ''object'' then decode_stringified parse pschema val else val) m)) props m)
      | _ \<Rightarrow> args)"
  by pat_completeness auto
termination
proof (relation "measure (\<lambda>(parse, schema, args). size schema)", goal_cases)
  case (2 parse schema args x y props m p name pschema m' val declared val')
  then have "Option.bind (vget schema ''properties'') as_object = Some props" by simp
  then have "vget schema ''properties'' = Some (JObj props)" by (auto simp: option_bind_Some_iff)
  then have "size (JObj props) < size schema" by (rule vget_size)
  moreover have "size pschema < size (JObj props)" using 2 by (auto dest: json_obj_size)
  ultimately show ?case by simp
qed simp

declare decode_stringified.simps [simp del]

section \<open>What preflight rejects\<close>

text \<open>The reference: a call violates a schema when some property it can evaluate is required and missing
  (or null where null is not allowed), is outside its enum, or, being an object, violates its own schema.\<close>

inductive violates :: "(string \<Rightarrow> rat option) \<Rightarrow> json \<Rightarrow> json \<Rightarrow> bool" for f64 where
  missing: "vget container ''properties'' = Some (JObj props) \<Longrightarrow> (name, pschema) \<in> set props \<Longrightarrow>
    check_required container pschema name (vget args name) \<Longrightarrow> violates f64 container args"
| not_in_enum: "vget container ''properties'' = Some (JObj props) \<Longrightarrow> (name, pschema) \<in> set props \<Longrightarrow>
    vget args name = Some v \<Longrightarrow> v \<noteq> JNull \<Longrightarrow> vget pschema ''anyOf'' = None \<Longrightarrow> vget pschema ''oneOf'' = None \<Longrightarrow>
    check_enum f64 pschema v \<Longrightarrow> violates f64 container args"
| nested: "vget container ''properties'' = Some (JObj props) \<Longrightarrow> (name, pschema) \<in> set props \<Longrightarrow>
    vget args name = Some v \<Longrightarrow> v \<noteq> JNull \<Longrightarrow> vget pschema ''anyOf'' = None \<Longrightarrow> vget pschema ''oneOf'' = None \<Longrightarrow>
    vget pschema ''type'' = Some (JStr ''object'') \<Longrightarrow> violates f64 pschema v \<Longrightarrow> violates f64 container args"

inductive_cases violatesE: "violates f64 container args"

lemma first_return_None: "first_return f xs = None \<longleftrightarrow> (\<forall>x \<in> set xs. f x = None)"
  by (induction xs) (auto split: option.splits)

lemma first_return_Some: "first_return f xs = Some r \<Longrightarrow> \<exists>x \<in> set xs. f x = Some r"
  by (induction xs) (auto split: option.splits)

lemma first_return_bind:
  "(\<And>x. x \<in> set xs \<Longrightarrow> f x \<noteq> Some None) \<Longrightarrow>
    Option.bind (first_return f xs) id \<noteq> None \<longleftrightarrow> (\<exists>x \<in> set xs. f x \<noteq> None)"
proof (induction xs)
  case (Cons a xs)
  show ?case
  proof (cases "f a")
    case None
    with Cons show ?thesis by simp
  next
    case (Some r)
    with Cons.prems [of a] have "r \<noteq> None" by simp
    with Some show ?thesis by auto
  qed
qed simp

lemma structured_field_error_Some:
  "vget container ''properties'' = Some (JObj props) \<Longrightarrow> (name, pschema) \<in> set props \<Longrightarrow>
    structured_field_error container name display reason \<noteq> None"
proof -
  assume a: "vget container ''properties'' = Some (JObj props)" "(name, pschema) \<in> set props"
  then have "name \<in> set (jkeys props)" using imageI [OF a(2), of fst] by (simp add: jkeys_def)
  then have "jget props name \<noteq> None" by (simp add: jget_None)
  with a(1) show ?thesis by (auto simp: structured_field_error_def Let_def)
qed

text \<open>One step of the loop, and when it returns.\<close>

definition walk_step :: "(string \<Rightarrow> rat option) \<Rightarrow> json \<Rightarrow> json \<Rightarrow> string \<Rightarrow> string \<times> json \<Rightarrow> json option option" where
  "walk_step f64 container args prefix = (\<lambda>(name, pschema).
     let path = (if prefix = [] then name else prefix @ ''.'' @ name); val = vget args name in
     if check_required container pschema name val
     then Some (structured_field_error container name path ''missing_required_field'')
     else (case val of
         None \<Rightarrow> None
       | Some v \<Rightarrow>
           if is_null v then None
           else if vget pschema ''anyOf'' \<noteq> None \<or> vget pschema ''oneOf'' \<noteq> None then None
           else if check_enum f64 pschema v
           then Some (structured_field_error container name path ''invalid_enum_value'')
           else if Option.bind (vget pschema ''type'') as_str = Some ''object''
           then (case preflight_walk f64 pschema v path of Some inner \<Rightarrow> Some (Some inner) | None \<Rightarrow> None)
           else None))"

definition faulty :: "(string \<Rightarrow> rat option) \<Rightarrow> json \<Rightarrow> json \<Rightarrow> string \<Rightarrow> json \<Rightarrow> (json \<Rightarrow> bool) \<Rightarrow> bool" where
  "faulty f64 container args name pschema deeper \<longleftrightarrow>
     check_required container pschema name (vget args name) \<or>
     (\<exists>v. vget args name = Some v \<and> v \<noteq> JNull \<and> vget pschema ''anyOf'' = None \<and> vget pschema ''oneOf'' = None \<and>
        (check_enum f64 pschema v \<or> vget pschema ''type'' = Some (JStr ''object'') \<and> deeper v))"

lemma walk_step_returns:
  "walk_step f64 container args prefix (name, pschema) \<noteq> None \<longleftrightarrow>
   faulty f64 container args name pschema
     (\<lambda>v. preflight_walk f64 pschema v (if prefix = [] then name else prefix @ ''.'' @ name) \<noteq> None)"
  by (auto simp: walk_step_def faulty_def Let_def is_null_def option_bind_Some_iff split: option.splits)

lemma violates_faulty:
  assumes "vget container ''properties'' = Some (JObj props)"
  shows "violates f64 container args \<longleftrightarrow> (\<exists>(name, pschema) \<in> set props. faulty f64 container args name pschema (violates f64 pschema))"
proof
  assume "violates f64 container args"
  then show "\<exists>(name, pschema) \<in> set props. faulty f64 container args name pschema (violates f64 pschema)"
    using assms unfolding faulty_def by (cases rule: violates.cases) fastforce+
next
  assume "\<exists>(name, pschema) \<in> set props. faulty f64 container args name pschema (violates f64 pschema)"
  then show "violates f64 container args"
    using assms violates.missing violates.not_in_enum violates.nested unfolding faulty_def by (auto split: prod.splits; metis)
qed

lemma preflight_walk_properties:
  assumes "vget container ''properties'' = Some (JObj props)"
  shows "preflight_walk f64 container args prefix \<noteq> None \<longleftrightarrow> (\<exists>x \<in> set props. walk_step f64 container args prefix x \<noteq> None)"
proof -
  have "preflight_walk f64 container args prefix = Option.bind (first_return (walk_step f64 container args prefix) props) id"
    using assms unfolding walk_step_def by (subst preflight_walk.simps) simp
  moreover have "walk_step f64 container args prefix x \<noteq> Some None" if "x \<in> set props" for x
    using structured_field_error_Some [OF assms] that
    by (cases x) (auto simp: walk_step_def Let_def split: option.splits if_splits)
  ultimately show ?thesis using first_return_bind by metis
qed

lemma preflight_walk_iff: "preflight_walk f64 container args prefix \<noteq> None \<longleftrightarrow> violates f64 container args"
proof (induction container arbitrary: args prefix rule: measure_induct_rule [where f = size])
  case (less container)
  show ?case
  proof (cases "\<exists>props. vget container ''properties'' = Some (JObj props)")
    case False
    then have "Option.bind (vget container ''properties'') as_object = None"
      by (cases "vget container ''properties''"; cases "the (vget container ''properties'')") auto
    moreover have "\<not> violates f64 container args" using False by (auto elim: violatesE)
    ultimately show ?thesis by (simp add: preflight_walk.simps)
  next
    case True
    then obtain props where p: "vget container ''properties'' = Some (JObj props)" by blast
    have "preflight_walk f64 pschema v path \<noteq> None \<longleftrightarrow> violates f64 pschema v"
      if "(name, pschema) \<in> set props" for name pschema v path
      using json_obj_size [OF that] vget_size [OF p] by (intro less.IH) simp
    then have "walk_step f64 container args prefix x \<noteq> None \<longleftrightarrow> (case x of (name, pschema) \<Rightarrow> faulty f64 container args name pschema (violates f64 pschema))"
      if "x \<in> set props" for x
      using that by (cases x) (simp only: walk_step_returns prod.case)
    then show ?thesis
      unfolding preflight_walk_properties [OF p] violates_faulty [OF p] by (rule bex_cong [OF refl])
  qed
qed

lemma structured_field_error_reason:
  "structured_field_error container field display reason = Some e \<Longrightarrow>
    vget e ''error'' = Some (JStr reason) \<and> vget e ''field'' = Some (JStr display)"
  by (auto simp: structured_field_error_def Let_def jget_def split: option.splits)

lemma preflight_walk_reason:
  "preflight_walk f64 container args prefix = Some e \<Longrightarrow>
    vget e ''error'' \<in> {Some (JStr ''missing_required_field''), Some (JStr ''invalid_enum_value'')}"
proof (induction container arbitrary: args prefix rule: measure_induct_rule [where f = size])
  case (less container)
  then obtain props where p: "vget container ''properties'' = Some (JObj props)"
    by (subst (asm) preflight_walk.simps) (auto simp: option_bind_Some_iff split: option.splits)
  from less.prems p obtain name pschema path where x: "(name, pschema) \<in> set props"
    "(\<exists>reason \<in> {''missing_required_field'', ''invalid_enum_value''}.
        structured_field_error container name path reason = Some e) \<or>
      (\<exists>v. preflight_walk f64 pschema v path = Some e)"
    by (subst (asm) preflight_walk.simps)
       (force simp: option_bind_Some_iff Let_def split: option.splits if_splits dest!: first_return_Some)
  have "size pschema < size container"
    using json_obj_size [OF x(1)] vget_size [OF p] by simp
  with x(2) less.IH structured_field_error_reason show ?case by blast
qed



end
