(* ===== verification/Minify.thy ===== *)
theory Minify
  imports Patch
begin

text \<open>
  Display minification of schemas and text budgets (\<open>src/src/surface/minify.rs\<close>). Text lengths are in
  bytes and cuts fall on character boundaries. The contract \<open>schema_edit\<close>: an edit that rewrites each
  schema node but keeps its type, its required list and its property names, and recurses into the
  properties.
\<close>

section \<open>Text budgets\<close>

abbreviation ellipsis :: string where
  "ellipsis \<equiv> [CHR 0xE2, CHR 0x80, CHR 0xA6]"

definition truncate_in_place :: "string \<Rightarrow> nat \<Rightarrow> string" where
  "truncate_in_place s max_len =
     (if length s > max_len then take (floor_char_boundary s max_len) s @ ellipsis else s)"

definition budget_truncate :: "string \<Rightarrow> nat \<Rightarrow> string \<Rightarrow> string" where
  "budget_truncate s max_len suffix =
     (if length s \<le> max_len then s
      else take (floor_char_boundary s (max_len - length suffix)) s @ suffix)"

section \<open>Schema nodes\<close>

definition jmodify :: "string \<Rightarrow> (json \<Rightarrow> json) \<Rightarrow> jmap \<Rightarrow> jmap" where
  "jmodify k f m = (case jget m k of Some v \<Rightarrow> jput k (f v) m | None \<Rightarrow> m)"

definition minify_enum_cap :: nat where
  "minify_enum_cap = 24"

definition minify_desc_chars :: nat where
  "minify_desc_chars = 120"

text \<open>Where a node keeps child schemas: maps of them, a single one, lists of them.\<close>

definition map_keys :: "string list" where
  "map_keys = [''properties'', ''patternProperties'', ''definitions'', ''$defs'']"

definition node_keys :: "string list" where
  "node_keys = [''items'', ''additionalProperties'', ''not'']"

definition list_keys :: "string list" where
  "list_keys = [''anyOf'', ''oneOf'', ''allOf'', ''prefixItems'']"

fun edit_map :: "(json \<Rightarrow> json) \<Rightarrow> json \<Rightarrow> json" where
  "edit_map f (JObj children) = JObj (map (\<lambda>(k, c). (k, f c)) children)"
| "edit_map f v = v"

definition edit_node :: "(json \<Rightarrow> json) \<Rightarrow> json \<Rightarrow> json" where
  "edit_node f v = (if is_object v \<or> is_array v then f v else v)"

fun edit_list :: "(json \<Rightarrow> json) \<Rightarrow> json \<Rightarrow> json" where
  "edit_list f (JArr a) = JArr (map f a)"
| "edit_list f v = v"

definition for_each_child_schema :: "(json \<Rightarrow> json) \<Rightarrow> jmap \<Rightarrow> jmap" where
  "for_each_child_schema f m =
     fold (\<lambda>k. jmodify k (edit_list f)) list_keys
       (fold (\<lambda>k. jmodify k (edit_node f)) node_keys
         (fold (\<lambda>k. jmodify k (edit_map f)) map_keys m))"

text \<open>For the recursion: the edit applied to children depends only on them.\<close>

definition child_schemas :: "jmap \<Rightarrow> json set" where
  "child_schemas m =
     {c. \<exists>k v. (k, v) \<in> set m \<and>
       ((k \<in> set map_keys \<and> (\<exists>p k'. v = JObj p \<and> (k', c) \<in> set p)) \<or>
        (k \<in> set node_keys \<and> c = v) \<or>
        (k \<in> set list_keys \<and> (\<exists>a. v = JArr a \<and> c \<in> set a)))}"

lemma jget_jmodify: "jget (jmodify k f m) j = (if j = k then map_option f (jget m k) else jget m j)"
  by (simp add: jmodify_def split: option.split)

lemma fold_jmodify_cong:
  assumes "distinct ks" "\<And>k v. k \<in> set ks \<Longrightarrow> jget m k = Some v \<Longrightarrow> F v = G v"
  shows "fold (\<lambda>k. jmodify k F) ks m = fold (\<lambda>k. jmodify k G) ks m"
  using assms
proof (induction ks arbitrary: m)
  case Nil
  then show ?case by simp
next
  case (Cons k ks)
  have "jmodify k F m = jmodify k G m"
    using Cons.prems(2) [of k] by (simp add: jmodify_def split: option.split)
  moreover have "fold (\<lambda>k. jmodify k F) ks (jmodify k G m) = fold (\<lambda>k. jmodify k G) ks (jmodify k G m)"
    using Cons.prems by (intro Cons.IH) (auto simp: jget_jmodify split: if_splits)
  ultimately show ?case by simp
qed

lemma jget_fold_jmodify:
  "distinct ks \<Longrightarrow> jget (fold (\<lambda>k. jmodify k F) ks m) j =
    (if j \<in> set ks then map_option F (jget m j) else jget m j)"
  by (induction ks arbitrary: m) (auto simp: jget_jmodify)

lemma child_key_lists:
  "distinct map_keys" "distinct node_keys" "distinct list_keys"
  "set map_keys \<inter> set node_keys = {}" "set map_keys \<inter> set list_keys = {}" "set node_keys \<inter> set list_keys = {}"
  by (simp_all add: map_keys_def node_keys_def list_keys_def)

lemma jget_for_each_child:
  "jget (for_each_child_schema f m) j =
    (if j \<in> set map_keys then map_option (edit_map f) (jget m j)
     else if j \<in> set node_keys then map_option (edit_node f) (jget m j)
     else if j \<in> set list_keys then map_option (edit_list f) (jget m j)
     else jget m j)"
  using child_key_lists by (auto simp: for_each_child_schema_def jget_fold_jmodify)

lemma for_each_child_cong [fundef_cong]:
  assumes "m = m'" "\<And>c. c \<in> child_schemas m' \<Longrightarrow> f c = g c"
  shows "for_each_child_schema f m = for_each_child_schema g m'"
proof -
  let ?m1 = "fold (\<lambda>k. jmodify k (edit_map f)) map_keys m'"
  let ?n1 = "fold (\<lambda>k. jmodify k (edit_map g)) map_keys m'"
  have 1: "?m1 = ?n1"
  proof (rule fold_jmodify_cong)
    show "distinct map_keys" by (simp add: map_keys_def)
    fix k v assume a: "k \<in> set map_keys" "jget m' k = Some v"
    have "f c = g c" if "v = JObj p" "(k', c) \<in> set p" for p k' c
      using that a(1) jget_in [OF a(2)] by (intro assms(2)) (unfold child_schemas_def, blast)
    then show "edit_map f v = edit_map g v" by (cases v) auto
  qed
  let ?m2 = "fold (\<lambda>k. jmodify k (edit_node f)) node_keys ?n1"
  let ?n2 = "fold (\<lambda>k. jmodify k (edit_node g)) node_keys ?n1"
  have 2: "?m2 = ?n2"
  proof (rule fold_jmodify_cong)
    show "distinct node_keys" by (simp add: node_keys_def)
    fix k v assume a: "k \<in> set node_keys" "jget ?n1 k = Some v"
    then have "jget m' k = Some v" using child_key_lists by (auto simp: jget_fold_jmodify split: if_splits)
    then have "f v = g v" using a(1) jget_in by (intro assms(2)) (fastforce simp: child_schemas_def)
    then show "edit_node f v = edit_node g v" by (simp add: edit_node_def)
  qed
  have 3: "fold (\<lambda>k. jmodify k (edit_list f)) list_keys ?n2 = fold (\<lambda>k. jmodify k (edit_list g)) list_keys ?n2"
  proof (rule fold_jmodify_cong)
    show "distinct list_keys" by (simp add: list_keys_def)
    fix k v assume a: "k \<in> set list_keys" "jget ?n2 k = Some v"
    then have m: "jget m' k = Some v" using child_key_lists by (auto simp: jget_fold_jmodify split: if_splits)
    have "f c = g c" if "v = JArr b" "c \<in> set b" for b c
      using that a(1) jget_in [OF m] by (intro assms(2)) (unfold child_schemas_def, blast)
    then show "edit_list f v = edit_list g v" by (cases v) auto
  qed
  show ?thesis unfolding for_each_child_schema_def assms(1) 1 2 3 ..
qed

lemma child_schemas_size:
  assumes "c \<in> child_schemas m" "\<And>k v. (k, v) \<in> set m \<Longrightarrow> k \<in> set (map_keys @ node_keys @ list_keys) \<Longrightarrow> (k, v) \<in> set n"
  shows "size c < size (JObj n)"
proof -
  obtain k v where kv: "(k, v) \<in> set n" "c = v \<or> (\<exists>p k'. v = JObj p \<and> (k', c) \<in> set p) \<or> (\<exists>a. v = JArr a \<and> c \<in> set a)"
    using assms by (fastforce simp: child_schemas_def)
  have "size v < size (JObj n)" using json_obj_size [OF kv(1)] by simp
  moreover have "size c \<le> size v" using kv(2) by (auto dest: json_obj_size json_arr_size)
  ultimately show ?thesis by simp
qed

section \<open>The two minification stages\<close>

text \<open>What a stage does with a node's own keywords (\<open>_own\<close>), before it recurses.\<close>

definition minify_own :: "jmap \<Rightarrow> jmap" where
  "minify_own m =
     (let m = swap_remove ''examples'' (swap_remove ''example'' m);
          m = jmodify ''description''
                (\<lambda>d. case d of JStr s \<Rightarrow> JStr (truncate_in_place s minify_desc_chars) | _ \<Rightarrow> d) m
      in case jget m ''enum'' of
           Some (JArr vals) \<Rightarrow>
             if length vals > minify_enum_cap then
               jput ''enum_truncated''
                 (JStr (''+'' @ show_nat (length vals - minify_enum_cap) @ '' more values (see the API'' @
                    [CHR 0x27] @ ''s own docs)''))
                 (jput ''enum'' (JArr (take minify_enum_cap vals)) m)
             else m
         | _ \<Rightarrow> m)"

definition minify_hard_own :: "jmap \<Rightarrow> jmap" where
  "minify_hard_own m =
     (let m = fold swap_remove [''description'', ''title'', ''format'', ''enum_truncated''] m in
      if jhas m ''enum'' then jput ''enum_truncated'' (JStr ''elided'') (swap_remove ''enum'' m) else m)"

definition schema_keys :: "string list" where
  "schema_keys = [''type'', ''required''] @ map_keys @ node_keys @ list_keys"

lemma set_jmodify_key: "(j, v) \<in> set (jmodify k f m) \<Longrightarrow> j \<noteq> k \<Longrightarrow> (j, v) \<in> set m"
  unfolding jmodify_def by (auto split: option.splits dest: set_jput_subset [THEN subsetD])

lemma set_jput_key: "(j, v) \<in> set (jput k w m) \<Longrightarrow> j \<noteq> k \<Longrightarrow> (j, v) \<in> set m"
  by (auto dest: set_jput_subset [THEN subsetD])

lemma set_minify_own:
  assumes "(k, v) \<in> set (minify_own m)" "k \<in> set schema_keys"
  shows "(k, v) \<in> set m"
proof -
  have k: "k \<noteq> ''description''" "k \<noteq> ''enum''" "k \<noteq> ''enum_truncated''"
    using assms(2) by (auto simp: schema_keys_def map_keys_def node_keys_def list_keys_def)
  let ?m1 = "swap_remove ''examples'' (swap_remove ''example'' m)"
  have "(k, v) \<in> set ?m1"
    using assms(1) k unfolding minify_own_def Let_def
    by (auto split: option.splits json.splits if_splits dest!: set_jput_key set_jmodify_key)
  then show ?thesis using set_swap_remove_subset by blast
qed

lemma set_minify_hard_own:
  assumes "(k, v) \<in> set (minify_hard_own m)" "k \<in> set schema_keys"
  shows "(k, v) \<in> set m"
proof -
  have k: "k \<noteq> ''enum_truncated''"
    using assms(2) by (auto simp: schema_keys_def map_keys_def node_keys_def list_keys_def)
  let ?m1 = "fold swap_remove [''description'', ''title'', ''format'', ''enum_truncated''] m"
  have "(k, v) \<in> set ?m1"
    using assms(1) k set_swap_remove_subset [of "''enum''" ?m1] unfolding minify_hard_own_def Let_def
    by (auto simp del: fold.simps split: if_splits dest!: set_jput_key)
  then have "(k, v) \<in> set (swap_remove ''enum_truncated'' (swap_remove ''format'' (swap_remove ''title'' (swap_remove ''description'' m))))"
    by simp
  then show ?thesis using set_swap_remove_subset by blast
qed

function (sequential) minify_schema :: "json \<Rightarrow> json" where
  "minify_schema (JObj m) = JObj (for_each_child_schema minify_schema (minify_own m))"
| "minify_schema v = v"
  by pat_completeness auto

termination minify_schema
proof (relation "measure size", simp)
  fix m c assume "c \<in> child_schemas (minify_own m)"
  then have "size c < size (JObj m)"
    by (rule child_schemas_size) (rule set_minify_own, auto simp: schema_keys_def)
  then show "(c, JObj m) \<in> measure size" by simp
qed

function (sequential) minify_schema_hard :: "json \<Rightarrow> json" where
  "minify_schema_hard (JObj m) = JObj (for_each_child_schema minify_schema_hard (minify_hard_own m))"
| "minify_schema_hard v = v"
  by pat_completeness auto

termination minify_schema_hard
proof (relation "measure size", simp)
  fix m c assume "c \<in> child_schemas (minify_hard_own m)"
  then have "size c < size (JObj m)"
    by (rule child_schemas_size) (rule set_minify_hard_own, auto simp: schema_keys_def)
  then show "(c, JObj m) \<in> measure size" by simp
qed

declare minify_schema.simps [simp del] minify_schema_hard.simps [simp del]

section \<open>What a schema edit keeps\<close>

text \<open>The places below a node, one step at a time.\<close>

datatype schema_step = InMap string string | InNode string | InList string nat

fun sub_schema :: "schema_step \<Rightarrow> json \<Rightarrow> json option" where
  "sub_schema (InMap k s) v = (if k \<in> set map_keys then Option.bind (vget v k) (\<lambda>p. vget p s) else None)"
| "sub_schema (InNode k) v = (if k \<in> set node_keys then vget v k else None)"
| "sub_schema (InList k i) v =
     (if k \<in> set list_keys then
        (case vget v k of Some (JArr a) \<Rightarrow> (if i < length a then Some (a ! i) else None) | _ \<Rightarrow> None)
      else None)"

fun schema_at :: "schema_step list \<Rightarrow> json \<Rightarrow> json option" where
  "schema_at [] v = Some v"
| "schema_at (st # sts) v = Option.bind (sub_schema st v) (schema_at sts)"

text \<open>The field names a node declares, in order.\<close>

definition field_names :: "json \<Rightarrow> string list" where
  "field_names v = (case vget v ''properties'' of Some (JObj p) \<Rightarrow> jkeys p | _ \<Rightarrow> [])"

definition same_node :: "json \<Rightarrow> json \<Rightarrow> bool" where
  "same_node v w \<longleftrightarrow> field_names w = field_names v \<and> vget w ''type'' = vget v ''type'' \<and>
     vget w ''required'' = vget v ''required''"

lemma jget_map_snd: "jget (map (\<lambda>(k, c). (k, f c)) p) s = map_option f (jget p s)"
  unfolding jget_def by (induction p) auto

lemma container_at_schema_at: "container_at ss v = schema_at (map (InMap ''properties'') ss) v"
proof (induction ss arbitrary: v)
  case (Cons s ss)
  then have "container_at ss = schema_at (map (InMap ''properties'') ss)" by blast
  then show ?case by (simp add: map_keys_def)
qed simp

lemma sub_schema_in: "sub_schema st v = Some c \<Longrightarrow> \<exists>k x. vget v k = Some x \<and> (c = x \<or> (\<exists>s. vget x s = Some c) \<or> (\<exists>a. x = JArr a \<and> c \<in> set a))"
  by (cases st) (fastforce simp: option_bind_Some_iff split: if_splits option.splits json.splits)+

lemma wf_sub_schema:
  assumes "wf_json v" "sub_schema st v = Some c"
  shows "wf_json c"
proof -
  obtain k x where x: "vget v k = Some x" "c = x \<or> (\<exists>s. vget x s = Some c) \<or> (\<exists>a. x = JArr a \<and> c \<in> set a)"
    using sub_schema_in [OF assms(2)] by blast
  have "wf_json x" using assms(1) x(1) by (rule wf_json_vget)
  with x(2) show ?thesis by (auto simp: list_all_iff intro: wf_json_vget)
qed

locale schema_edit =
  fixes edit :: "json \<Rightarrow> json" and own :: "jmap \<Rightarrow> jmap"
  assumes edit_node_obj: "edit (JObj m) = JObj (for_each_child_schema edit (own m))"
    and edit_other: "\<not> is_object v \<Longrightarrow> edit v = v"
    and own_keeps: "distinct (jkeys m) \<Longrightarrow> k \<in> set schema_keys \<Longrightarrow> jget (own m) k = jget m k"
begin

lemma vget_edit:
  assumes "wf_json (JObj m)" "k \<in> set schema_keys"
  shows "vget (edit (JObj m)) k =
    (if k \<in> set map_keys then map_option (edit_map edit) (jget m k)
     else if k \<in> set node_keys then map_option (edit_node edit) (jget m k)
     else if k \<in> set list_keys then map_option (edit_list edit) (jget m k)
     else jget m k)"
  using assms own_keeps [of m k] by (simp add: edit_node_obj jget_for_each_child)

lemma edit_node_edit: "edit_node edit v = edit v"
proof (cases "is_object v")
  case False
  then show ?thesis by (simp add: edit_node_def edit_other)
qed (simp add: edit_node_def)

lemma edit_same_node: "wf_json v \<Longrightarrow> same_node v (edit v)"
proof (cases v)
  case (JObj m)
  assume w: "wf_json v"
  have k: "''type'' \<notin> set map_keys \<union> set node_keys \<union> set list_keys" "''required'' \<notin> set map_keys \<union> set node_keys \<union> set list_keys"
    "''properties'' \<in> set map_keys"
    by (simp_all add: map_keys_def node_keys_def list_keys_def)
  have s: "''type'' \<in> set schema_keys" "''required'' \<in> set schema_keys" "''properties'' \<in> set schema_keys"
    by (simp_all add: schema_keys_def map_keys_def)
  have "field_names (edit (JObj m)) = field_names (JObj m)"
    using w k(3) vget_edit [of m "''properties''"] s(3) JObj
    by (auto simp: field_names_def jkeys_def comp_def case_prod_beta split: option.split json.split)
  moreover have "vget (edit (JObj m)) ''type'' = jget m ''type''" "vget (edit (JObj m)) ''required'' = jget m ''required''"
    using w k s JObj by (simp_all add: vget_edit)
  ultimately show ?thesis using JObj by (simp add: same_node_def)
qed (simp_all add: edit_other is_object_def same_node_def)

lemma sub_schema_edit: "wf_json v \<Longrightarrow> sub_schema st (edit v) = map_option edit (sub_schema st v)"
proof (cases v)
  case (JObj m)
  assume w: "wf_json v"
  note e = vget_edit [OF w [unfolded JObj]]
  show ?thesis
  proof (cases st)
    case (InMap k s)
    show ?thesis
    proof (cases "k \<in> set map_keys")
      case True
      then have "vget (edit (JObj m)) k = map_option (edit_map edit) (jget m k)"
        using e [of k] by (simp add: schema_keys_def)
      moreover have "vget (edit_map edit x) s = map_option edit (vget x s)" for x
        by (cases x) (simp_all add: vget_def jget_map_snd)
      ultimately show ?thesis using True JObj InMap by (simp split: bind_split option.split)
    qed (simp add: InMap)
  next
    case (InNode k)
    show ?thesis
    proof (cases "k \<in> set node_keys")
      case True
      then have "k \<notin> set map_keys" using child_key_lists by auto
      with True have "vget (edit (JObj m)) k = map_option (edit_node edit) (jget m k)"
        using e [of k] by (simp add: schema_keys_def)
      with True JObj InNode show ?thesis by (cases "jget m k") (simp_all add: edit_node_edit)
    qed (simp add: InNode)
  next
    case (InList k i)
    show ?thesis
    proof (cases "k \<in> set list_keys")
      case True
      then have "k \<notin> set map_keys" "k \<notin> set node_keys" using child_key_lists by auto
      with True have "vget (edit (JObj m)) k = map_option (edit_list edit) (jget m k)"
        using e [of k] by (simp add: schema_keys_def)
      with True JObj InList show ?thesis by (auto split: option.split json.split)
    qed (simp add: InList)
  qed
qed (cases st; simp add: edit_other is_object_def vget_def)+

lemma schema_at_edit: "wf_json v \<Longrightarrow> schema_at sts (edit v) = map_option edit (schema_at sts v)"
proof (induction sts arbitrary: v)
  case (Cons st sts)
  then show ?case
    by (cases "sub_schema st v") (simp_all add: sub_schema_edit wf_sub_schema)
qed simp

lemma schema_at_wf: "wf_json v \<Longrightarrow> schema_at sts v = Some c \<Longrightarrow> wf_json c"
  by (induction sts arbitrary: v) (auto simp: option_bind_Some_iff dest: wf_sub_schema)

lemma edit_keeps_structure:
  "wf_json v \<Longrightarrow> rel_option same_node (schema_at sts v) (schema_at sts (edit v))"
  using schema_at_wf [of v sts] edit_same_node
  by (cases "schema_at sts v") (simp_all add: schema_at_edit)

end

lemma own_keeps_minify:
  assumes "distinct (jkeys m)" "k \<in> set schema_keys"
  shows "jget (minify_own m) k = jget m k"
proof -
  have k: "k \<noteq> ''description''" "k \<noteq> ''enum''" "k \<noteq> ''enum_truncated''" "k \<noteq> ''example''" "k \<noteq> ''examples''"
    using assms(2) by (auto simp: schema_keys_def map_keys_def node_keys_def list_keys_def)
  then show ?thesis using assms(1)
    by (simp add: minify_own_def Let_def jget_jmodify split: option.split json.split)
qed

lemma own_keeps_minify_hard:
  assumes "distinct (jkeys m)" "k \<in> set schema_keys"
  shows "jget (minify_hard_own m) k = jget m k"
proof -
  have k: "k \<noteq> ''description''" "k \<noteq> ''enum''" "k \<noteq> ''enum_truncated''" "k \<noteq> ''title''" "k \<noteq> ''format''"
    using assms(2) by (auto simp: schema_keys_def map_keys_def node_keys_def list_keys_def)
  then show ?thesis using assms(1)
    by (simp add: minify_hard_own_def Let_def)
qed

interpretation minified: schema_edit minify_schema minify_own
proof
  show "minify_schema v = v" if "\<not> is_object v" for v
    using that by (cases v) (simp_all add: minify_schema.simps is_object_def)
qed (simp_all add: minify_schema.simps own_keeps_minify)

interpretation minified_hard: schema_edit minify_schema_hard minify_hard_own
proof
  show "minify_schema_hard v = v" if "\<not> is_object v" for v
    using that by (cases v) (simp_all add: minify_schema_hard.simps is_object_def)
qed (simp_all add: minify_schema_hard.simps own_keeps_minify_hard)

text \<open>Edited schemas are well formed, so the second stage finds the first one's result as it expects.\<close>

lemma wf_jmodify:
  "wf_json (JObj m) \<Longrightarrow> (\<And>v. wf_json v \<Longrightarrow> wf_json (f v)) \<Longrightarrow> wf_json (JObj (jmodify k f m))"
  by (cases "jget m k") (simp_all add: jmodify_def wf_json_get del: wf_json.simps(2))

lemma wf_fold_jmodify:
  "wf_json (JObj m) \<Longrightarrow> (\<And>v. wf_json v \<Longrightarrow> wf_json (f v)) \<Longrightarrow> wf_json (JObj (fold (\<lambda>k. jmodify k f) ks m))"
proof (induction ks arbitrary: m)
  case (Cons k ks)
  then show ?case using wf_jmodify [of m f k] by (simp del: wf_json.simps(2))
qed simp

lemma wf_edit_map: "wf_json v \<Longrightarrow> (\<And>c. wf_json c \<Longrightarrow> wf_json (f c)) \<Longrightarrow> wf_json (edit_map f v)"
  by (cases v) (auto simp: list_all_iff jkeys_def comp_def case_prod_beta)

lemma wf_edit_list: "wf_json v \<Longrightarrow> (\<And>c. wf_json c \<Longrightarrow> wf_json (f c)) \<Longrightarrow> wf_json (edit_list f v)"
  by (cases v) (auto simp: list_all_iff)

lemma wf_for_each_child:
  assumes "wf_json (JObj m)" "\<And>c. c \<in> child_schemas m \<Longrightarrow> wf_json c \<Longrightarrow> wf_json (f c)"
  shows "wf_json (JObj (for_each_child_schema f m))"
proof -
  let ?g = "\<lambda>c. if c \<in> child_schemas m then f c else c"
  have g: "wf_json (?g c)" if "wf_json c" for c using that assms(2) by simp
  have "wf_json (JObj (for_each_child_schema ?g m))"
    unfolding for_each_child_schema_def
  proof (intro wf_fold_jmodify assms(1))
    fix v assume v: "wf_json v"
    then show "wf_json (edit_map ?g v)" by (rule wf_edit_map) (rule g)
    show "wf_json (edit_node ?g v)" using g [OF v] v unfolding edit_node_def by presburger
    show "wf_json (edit_list ?g v)" using v g by (rule wf_edit_list)
  qed
  moreover have "for_each_child_schema ?g m = for_each_child_schema f m"
    by (rule for_each_child_cong) simp_all
  ultimately show ?thesis by simp
qed

lemma wf_minify_own: "wf_json (JObj m) \<Longrightarrow> wf_json (JObj (minify_own m))"
proof -
  assume w: "wf_json (JObj m)"
  let ?m = "jmodify ''description'' (\<lambda>d. case d of JStr s \<Rightarrow> JStr (truncate_in_place s minify_desc_chars) | _ \<Rightarrow> d)
      (swap_remove ''examples'' (swap_remove ''example'' m))"
  have w': "wf_json (JObj ?m)"
    using w by (intro wf_jmodify) (auto simp del: wf_json.simps(2) split: json.split)
  have "wf_json (JArr (take n vals))" if "jget ?m ''enum'' = Some (JArr vals)" for n vals
    using wf_json_get [OF w' that] by (auto simp: list_all_iff dest: in_set_takeD)
  with w' show ?thesis
    unfolding minify_own_def Let_def
    by (auto simp del: wf_json.simps(2) split: option.split json.split intro!: wf_json_jput)
qed

lemma wf_minify_schema: "wf_json v \<Longrightarrow> wf_json (minify_schema v)"
proof (induction v rule: minify_schema.induct)
  case (1 m)
  then show ?case
    unfolding minify_schema.simps by (intro wf_for_each_child wf_minify_own)
qed (simp_all add: minify_schema.simps)

text \<open>C34: the two display minifications never hide structure. In a well-formed schema, every node
  reached through \<open>properties\<close>, \<open>patternProperties\<close>, \<open>definitions\<close>, \<open>$defs\<close>, \<open>items\<close>,
  \<open>additionalProperties\<close>, \<open>not\<close>, \<open>anyOf\<close>, \<open>oneOf\<close>, \<open>allOf\<close> and \<open>prefixItems\<close>, to any depth, is still
  there after the first stage and after both, with the same property names in the same order, the same
  \<open>type\<close> and the same \<open>required\<close> list; and no node appears that was not there.\<close>

theorem minify_keeps_structure:
  assumes "wf_json v"
  shows "rel_option same_node (schema_at sts v) (schema_at sts (minify_schema v)) \<and>
    rel_option same_node (schema_at sts v) (schema_at sts (minify_schema_hard (minify_schema v)))"
proof -
  have a: "rel_option same_node (schema_at sts v) (schema_at sts (minify_schema v))"
    using assms by (rule minified.edit_keeps_structure)
  have b: "rel_option same_node (schema_at sts (minify_schema v)) (schema_at sts (minify_schema_hard (minify_schema v)))"
    using wf_minify_schema [OF assms] by (rule minified_hard.edit_keeps_structure)
  from a b show ?thesis by (auto simp: option_rel_Some1 same_node_def split: option.splits elim!: option.rel_cases)
qed

theorem minify_keeps_structure_witness:
  "rel_option same_node (schema_at [InMap ''properties'' ''description'']
      (JObj [(''description'', JStr ''x''), (''example'', JNull),
         (''properties'', JObj [(''description'', JObj [(''type'', JStr ''string''), (''title'', JStr ''t'')])])]))
    (schema_at [InMap ''properties'' ''description'']
      (minify_schema_hard (minify_schema (JObj [(''description'', JStr ''x''), (''example'', JNull),
         (''properties'', JObj [(''description'', JObj [(''type'', JStr ''string''), (''title'', JStr ''t'')])])]))))"
  by (rule minify_keeps_structure [THEN conjunct2]) (simp add: jkeys_def)

section \<open>Pruning by depth\<close>

definition wrapped_schemas :: "jmap \<Rightarrow> json set" where
  "wrapped_schemas m =
     {c. \<exists>k v. (k, v) \<in> set m \<and> ((k = ''items'' \<and> c = v) \<or>
        (k \<in> {''anyOf'', ''oneOf'', ''allOf''} \<and> (\<exists>a. v = JArr a \<and> c \<in> set a)))}"

definition for_each_wrapped :: "(json \<Rightarrow> json) \<Rightarrow> jmap \<Rightarrow> jmap" where
  "for_each_wrapped f m = fold (\<lambda>k. jmodify k (edit_list f)) [''anyOf'', ''oneOf'', ''allOf''] (jmodify ''items'' f m)"

lemma for_each_wrapped_cong [fundef_cong]:
  assumes "m = m'" "\<And>c. c \<in> wrapped_schemas m' \<Longrightarrow> f c = g c"
  shows "for_each_wrapped f m = for_each_wrapped g m'"
proof -
  have 1: "jmodify ''items'' f m = jmodify ''items'' g m'"
  proof (cases "jget m' ''items''")
    case (Some v)
    then have "v \<in> wrapped_schemas m'" using jget_in [OF Some] unfolding wrapped_schemas_def by blast
    with Some assms show ?thesis by (simp add: jmodify_def)
  qed (simp add: assms(1) jmodify_def)
  have "fold (\<lambda>k. jmodify k (edit_list f)) [''anyOf'', ''oneOf'', ''allOf''] (jmodify ''items'' g m')
      = fold (\<lambda>k. jmodify k (edit_list g)) [''anyOf'', ''oneOf'', ''allOf''] (jmodify ''items'' g m')"
  proof (rule fold_jmodify_cong)
    fix k v assume a: "k \<in> set [''anyOf'', ''oneOf'', ''allOf'']" "jget (jmodify ''items'' g m') k = Some v"
    then have m: "jget m' k = Some v" by (auto simp: jget_jmodify)
    have "f c = g c" if "v = JArr b" "c \<in> set b" for b c
      using that a(1) jget_in [OF m] by (intro assms(2)) (auto simp: wrapped_schemas_def)
    then show "edit_list f v = edit_list g v" by (cases v) auto
  qed simp
  with 1 show ?thesis by (simp add: for_each_wrapped_def del: fold.simps)
qed

definition prune_properties :: "(json \<Rightarrow> json) option \<Rightarrow> jmap \<Rightarrow> jmap" where
  "prune_properties deeper m =
     (case jget m ''properties'' of
        Some (JObj p) \<Rightarrow> (case deeper of
            None \<Rightarrow> jput ''nested_fields_elided'' (jnat (length p)) (swap_remove ''properties'' m)
          | Some f \<Rightarrow> jput ''properties'' (JObj (map (\<lambda>(k, c). (k, f c)) p)) m)
      | _ \<Rightarrow> m)"

lemma prune_properties_cong [fundef_cong]:
  assumes "m = m'" "d = d'"
    "\<And>n p c. d' = Some n \<Longrightarrow> jget m' ''properties'' = Some (JObj p) \<Longrightarrow> c \<in> snd ` set p \<Longrightarrow> f n c = g n c"
  shows "prune_properties (map_option f d) m = prune_properties (map_option g d') m'"
proof (cases d')
  case (Some n)
  have "map (\<lambda>(k, c). (k, f n c)) p = map (\<lambda>(k, c). (k, g n c)) p" if "jget m' ''properties'' = Some (JObj p)" for p
    using assms(3) [OF Some that] by (auto simp: rev_image_eqI)
  with Some assms(1,2) show ?thesis
    by (simp add: prune_properties_def del: map_eq_conv split: option.split json.split)
qed (use assms in \<open>simp add: prune_properties_def\<close>)

definition depth_below :: "nat \<Rightarrow> nat option" where
  "depth_below d = (case d of 0 \<Rightarrow> None | Suc n \<Rightarrow> Some n)"

function (sequential) prune_below_depth :: "nat \<Rightarrow> json \<Rightarrow> json" where
  "prune_below_depth depth (JObj m) =
     JObj (for_each_wrapped (prune_below_depth depth)
       (prune_properties (map_option prune_below_depth (depth_below depth)) m))"
| "prune_below_depth depth v = v"
  by pat_completeness auto

lemma set_prune_properties: "(k, v) \<in> set (prune_properties df m) \<Longrightarrow> k \<noteq> ''properties'' \<Longrightarrow>
    k \<noteq> ''nested_fields_elided'' \<Longrightarrow> (k, v) \<in> set m"
  unfolding prune_properties_def
  by (auto split: option.splits json.splits dest!: set_jput_key set_swap_remove_subset [THEN subsetD])

termination prune_below_depth
proof (relation "measure (\<lambda>(d, v). size v)", simp)
  fix depth m x n p c
  assume "jget m ''properties'' = Some (JObj p)" "c \<in> snd ` set p"
  then show "((n, c), depth, JObj m) \<in> measure (\<lambda>(d, v). size v)"
    by (auto dest!: json_obj_size jget_size)
next
  fix depth m c
  assume "c \<in> wrapped_schemas (prune_properties (map_option prune_below_depth (depth_below depth)) m)"
  then obtain k v where k: "(k, v) \<in> set m" "c = v \<or> (\<exists>a. v = JArr a \<and> c \<in> set a)"
    unfolding wrapped_schemas_def by (auto dest!: set_prune_properties)
  have "size v < size (JObj m)" using json_obj_size [OF k(1)] by simp
  moreover have "size c \<le> size v" using k(2) by (auto dest: json_arr_size)
  ultimately show "((depth, c), depth, JObj m) \<in> measure (\<lambda>(d, v). size v)" by simp
qed

declare prune_below_depth.simps [simp del]

lemma jget_for_each_wrapped: "jget (for_each_wrapped f m) ''properties'' = jget m ''properties''"
  by (simp add: for_each_wrapped_def jget_jmodify)

lemma child_prune:
  assumes "wf_json v"
  shows "child (prune_below_depth d v) s =
    (case d of 0 \<Rightarrow> None | Suc n \<Rightarrow> map_option (prune_below_depth n) (child v s))"
proof (cases v)
  case (JObj m)
  have "distinct (jkeys m)" using assms JObj by simp
  then show ?thesis
    using JObj
    by (auto simp: prune_below_depth.simps child_JObj jget_for_each_wrapped prune_properties_def depth_below_def
        jget_map_snd split: nat.split option.split json.split)
qed (simp_all add: prune_below_depth.simps child_def vget_def split: nat.split)

text \<open>Exactly the fields within the depth survive.\<close>

lemma prune_depth_exact: "wf_json v \<Longrightarrow> has_path ss (prune_below_depth d v) \<longleftrightarrow> has_path ss v \<and> length ss \<le> d"
proof (induction ss arbitrary: d v)
  case (Cons s ss)
  show ?case
  proof (cases d)
    case 0
    then show ?thesis using Cons.prems by (simp add: has_path_Cons child_prune del: has_path.simps)
  next
    case (Suc n)
    have "has_path ss (prune_below_depth n c) \<longleftrightarrow> has_path ss c \<and> length ss \<le> n" if "child v s = Some c" for c
      using wf_child [OF Cons.prems that] by (rule Cons.IH)
    with Suc Cons.prems show ?thesis
      by (auto simp: has_path_Cons child_prune simp del: has_path.simps)
  qed
qed simp

section \<open>Budgets\<close>

lemma length_take_floor: "length (take (floor_char_boundary s n) s) \<le> n"
  using floor_char_boundary_le [of s n] by simp

lemma budget_truncate_length: "length suffix \<le> n \<Longrightarrow> length (budget_truncate s n suffix) \<le> n"
  using length_take_floor [of s "n - length suffix"] unfolding budget_truncate_def by simp linarith

lemma budget_truncate_cases:
  "length s \<le> n \<and> budget_truncate s n suffix = s \<or>
   length s > n \<and> (\<exists>i. is_char_boundary s i \<and> i \<le> n - length suffix \<and> budget_truncate s n suffix = take i s @ suffix)"
  using floor_char_boundary_le [of s "n - length suffix"] floor_char_boundary_boundary [of s "n - length suffix"]
  unfolding budget_truncate_def by (cases "length s \<le> n") auto

lemma truncate_in_place_cases:
  "length s \<le> n \<and> truncate_in_place s n = s \<or>
   length s > n \<and> (\<exists>i \<le> n. is_char_boundary s i \<and> truncate_in_place s n = take i s @ ellipsis)"
  using floor_char_boundary_le [of s n] floor_char_boundary_boundary [of s n]
  unfolding truncate_in_place_def by auto

end
