(* ===== verification/JsonText.thy ===== *)
theory JsonText
  imports Json
begin

text \<open>
  JSON as text. \<open>text_round_trip\<close> is what the development relies on of the JSON library's printer and
  parser, which stay parameters; a reader for the compact text of \<open>json_text\<close> shows that the law can
  be met, and instantiates the parser where a concrete one is called for.
\<close>

text \<open>What the JSON library documents: the parser yields well-formed values with valid number
  literals, and reads back what the printer writes of such a value.\<close>

definition text_round_trip :: "(string \<Rightarrow> bool) \<Rightarrow> (json \<Rightarrow> string) \<Rightarrow> (string \<Rightarrow> json option) \<Rightarrow> bool" where
  "text_round_trip num ser parse \<longleftrightarrow>
     (\<forall>t v. parse t = Some v \<longrightarrow> wf_json v \<and> numbers_ok num v) \<and>
     (\<forall>v. wf_json v \<longrightarrow> numbers_ok num v \<longrightarrow> parse (ser v) = Some v)"

lemma numbers_ok_set: "numbers_ok num (JObj m) \<longleftrightarrow> (\<forall>(k, v) \<in> set m. numbers_ok num v)"
  by (auto simp: list_all_iff)

lemma numbers_ok_jget: "numbers_ok num (JObj m) \<Longrightarrow> jget m k = Some v \<Longrightarrow> numbers_ok num v"
  by (auto simp: list_all_iff dest!: jget_in)

lemma numbers_ok_jput: "numbers_ok num (JObj m) \<Longrightarrow> numbers_ok num v \<Longrightarrow> numbers_ok num (JObj (jput k v m))"
  using set_jput_subset [of k v m] by (auto simp: list_all_iff)

lemma numbers_ok_swap_remove: "numbers_ok num (JObj m) \<Longrightarrow> numbers_ok num (JObj (swap_remove k m))"
  using set_swap_remove_subset [of k m] by (auto simp: list_all_iff)

section \<open>A concrete reader\<close>

lemma json_unescape_length: "json_unescape s = Some (c, r) \<Longrightarrow> length r < length s"
  by (induction s rule: json_unescape.induct) (auto split: if_splits list.splits)

function read_string :: "string \<Rightarrow> (string \<times> string) option" where
  "read_string s =
     (case s of
        [] \<Rightarrow> None
      | c # r \<Rightarrow>
          if c = CHR 0x22 then Some ([], r)
          else (case json_unescape s of
              None \<Rightarrow> None
            | Some (c, r) \<Rightarrow> map_option (\<lambda>(t, r). (c # t, r)) (read_string r)))"
  by pat_completeness auto

termination read_string
  by (relation "measure length") (auto simp del: json_unescape.simps dest!: json_unescape_length)

declare read_string.simps [simp del]

fun read_value :: "nat \<Rightarrow> string \<Rightarrow> (json \<times> string) option"
  and read_items :: "nat \<Rightarrow> string \<Rightarrow> (json list \<times> string) option"
  and read_fields :: "nat \<Rightarrow> string \<Rightarrow> (jmap \<times> string) option" where
  "read_value (Suc n) (c # r) =
     (if c = CHR ''n'' then map_option (\<lambda>r. (JNull, r)) (strip_prefix ''ull'' r)
      else if c = CHR ''t'' then map_option (\<lambda>r. (JBool True, r)) (strip_prefix ''rue'' r)
      else if c = CHR ''f'' then map_option (\<lambda>r. (JBool False, r)) (strip_prefix ''alse'' r)
      else if c = CHR 0x22 then map_option (\<lambda>(t, r). (JStr t, r)) (read_string r)
      else if c = CHR ''['' then
        (if r \<noteq> [] \<and> hd r = CHR '']'' then Some (JArr [], tl r)
         else map_option (\<lambda>(a, r). (JArr a, r)) (read_items n r))
      else if c = CHR 0x7B then
        (if r \<noteq> [] \<and> hd r = CHR 0x7D then Some (JObj [], tl r)
         else map_option (\<lambda>(m, r). (JObj m, r)) (read_fields n r))
      else if num_char c then Some (JNum (takeWhile num_char (c # r)), dropWhile num_char (c # r))
      else None)"
| "read_value _ _ = None"
| "read_items (Suc n) s =
     (case read_value n s of
        Some (v, c # r) \<Rightarrow>
          if c = CHR '','' then map_option (\<lambda>(a, r). (v # a, r)) (read_items n r)
          else if c = CHR '']'' then Some ([v], r) else None
      | _ \<Rightarrow> None)"
| "read_items _ _ = None"
| "read_fields (Suc n) s =
     (case s of
        q # s \<Rightarrow>
          if q \<noteq> CHR 0x22 then None
          else (case read_string s of
              Some (k, col # s) \<Rightarrow>
                if col \<noteq> CHR '':'' then None
                else (case read_value n s of
                    Some (v, c # r) \<Rightarrow>
                      if c = CHR '','' then map_option (\<lambda>(m, r). ((k, v) # m, r)) (read_fields n r)
                      else if c = CHR 0x7D then Some ([(k, v)], r) else None
                  | _ \<Rightarrow> None)
            | _ \<Rightarrow> None)
      | [] \<Rightarrow> None)"
| "read_fields _ _ = None"

definition json_read :: "string \<Rightarrow> json option" where
  "json_read t =
     (case read_value (2 * length t + 1) t of
        Some (v, []) \<Rightarrow> if wf_json v \<and> numbers_ok num_literal v then Some v else None
      | _ \<Rightarrow> None)"

text \<open>Fuel enough for a value.\<close>

fun json_weight :: "json \<Rightarrow> nat" where
  "json_weight (JArr a) = Suc (sum_list (map (\<lambda>v. Suc (json_weight v)) a))"
| "json_weight (JObj m) = Suc (sum_list (map (\<lambda>p. Suc (json_weight (snd p))) m))"
| "json_weight v = 1"

lemma read_string_text:
  "read_string (concat (map json_escape_char s) @ CHR 0x22 # x) = Some (s, x)"
proof (induction s)
  case Nil
  then show ?case by (subst read_string.simps) simp
next
  case (Cons c s)
  obtain a e where a: "json_escape_char c = a # e" "a \<noteq> CHR 0x22" using json_escape_start by blast
  let ?r = "concat (map json_escape_char s) @ CHR 0x22 # x"
  have "json_unescape (a # e @ ?r) = Some (c, ?r)" using json_unescape_escape [of c ?r] a(1) by simp
  then show ?case using a Cons.IH by (subst read_string.simps) simp
qed

definition ends_value :: "string \<Rightarrow> bool" where
  "ends_value x \<longleftrightarrow> x = [] \<or> \<not> num_char (hd x)"

lemma takeWhile_num: "list_all num_char s \<Longrightarrow> ends_value x \<Longrightarrow> takeWhile num_char (s @ x) = s \<and> dropWhile num_char (s @ x) = x"
  by (induction s) (cases x; simp add: ends_value_def)+

lemma num_char_not: "num_char c \<Longrightarrow> c \<notin> {CHR ''n'', CHR ''t'', CHR ''f'', CHR 0x22, CHR ''['', CHR 0x7B}"
  by (auto simp: num_char_def is_ascii_digit_def)

lemma json_text_start:
  "numbers_ok num_literal v \<Longrightarrow> \<exists>c r. json_text v = c # r \<and> c \<noteq> CHR '']''"
proof (cases v)
  case (JNum s)
  assume "numbers_ok num_literal v"
  with JNum show ?thesis by (cases s) (auto simp: num_literal_def num_char_def is_ascii_digit_def)
qed (auto simp: json_string_text_def)

lemma ends_value_simps [simp]: "ends_value []" "ends_value (CHR '','' # x)" "ends_value (CHR '']'' # x)"
    "ends_value (CHR 0x7D # x)"
  by (simp_all add: ends_value_def num_char_def is_ascii_digit_def)

lemma read_items_text:
  assumes "\<And>v n x. v \<in> set a \<Longrightarrow> json_weight v \<le> n \<Longrightarrow> ends_value x \<Longrightarrow> read_value n (json_text v @ x) = Some (v, x)"
    "a \<noteq> []" "sum_list (map (\<lambda>v. Suc (json_weight v)) a) \<le> n"
  shows "read_items n (join_with '','' (map json_text a) @ CHR '']'' # x) = Some (a, x)"
  using assms
proof (induction a arbitrary: n)
  case (Cons v a)
  then obtain n' where n: "n = Suc n'" by (cases n) auto
  have v: "read_value n' (json_text v @ y) = Some (v, y)" if "ends_value y" for y
    using Cons.prems(1,3) that n by simp
  show ?case
  proof (cases a)
    case Nil
    with n v show ?thesis by simp
  next
    case (Cons w b)
    have "read_items n' (join_with '','' (map json_text a) @ CHR '']'' # x) = Some (a, x)"
      using Cons.IH Cons.prems n Cons by simp
    with n v Cons show ?thesis by simp
  qed
qed simp

definition field_text :: "string \<times> json \<Rightarrow> string" where
  "field_text p = json_string_text (fst p) @ '':'' @ json_text (snd p)"

lemma read_fields_text:
  assumes "\<And>k v n x. (k, v) \<in> set m \<Longrightarrow> json_weight v \<le> n \<Longrightarrow> ends_value x \<Longrightarrow> read_value n (json_text v @ x) = Some (v, x)"
    "m \<noteq> []" "sum_list (map (\<lambda>p. Suc (json_weight (snd p))) m) \<le> n"
  shows "read_fields n (join_with '','' (map field_text m) @ CHR 0x7D # x) = Some (m, x)"
  using assms
proof (induction m arbitrary: n)
  case (Cons p m)
  obtain k v where p: "p = (k, v)" by (cases p)
  from Cons.prems obtain n' where n: "n = Suc n'" by (cases n) auto
  have v: "read_value n' (json_text v @ y) = Some (v, y)" if "ends_value y" for y
    using Cons.prems(1) [of k v n' y] Cons.prems(3) that n p by simp
  have k: "field_text p @ y = CHR 0x22 # concat (map json_escape_char k) @ CHR 0x22 # CHR '':'' # json_text v @ y" for y
    by (simp add: field_text_def json_string_text_def p)
  show ?case
  proof (cases m)
    case Nil
    then have "join_with '','' (map field_text (p # m)) @ CHR 0x7D # x = field_text p @ CHR 0x7D # x" by simp
    with Nil n v show ?thesis unfolding k by (simp add: read_string_text p)
  next
    case (Cons q b)
    have "read_fields n' (join_with '','' (map field_text m) @ CHR 0x7D # x) = Some (m, x)"
    proof (rule Cons.IH)
      show "read_value i (json_text w @ y) = Some (w, y)" if "(j, w) \<in> set m" "json_weight w \<le> i" "ends_value y" for j w i y
        using Cons.prems(1) [of j w i y] that by simp
    qed (use Cons.prems(3) n Cons in auto)
    moreover have "join_with '','' (map field_text (p # m)) @ CHR 0x7D # x =
        field_text p @ CHR '','' # join_with '','' (map field_text m) @ CHR 0x7D # x"
      using Cons by simp
    ultimately show ?thesis using n v unfolding k by (simp add: read_string_text p)
  qed
qed simp

lemma join_start: "xs \<noteq> [] \<Longrightarrow> hd xs = c # r \<Longrightarrow> \<exists>r'. join_with s xs = c # r'"
  by (cases xs; cases "tl xs") auto

lemma read_value_text:
  "json_weight v \<le> n \<Longrightarrow> numbers_ok num_literal v \<Longrightarrow> ends_value x \<Longrightarrow> read_value n (json_text v @ x) = Some (v, x)"
proof (induction v arbitrary: n x rule: json_weight.induct [case_names Arr Obj Null Bool Num Str])
  case (Arr a)
  then obtain n' where n: "n = Suc n'" by (cases n) auto
  show ?case
  proof (cases a)
    case Nil
    with n show ?thesis by simp
  next
    case (Cons v b)
    have ok: "numbers_ok num_literal w" if "w \<in> set a" for w using "Arr.prems"(2) that by (simp add: list_all_iff)
    have "read_items n' (join_with '','' (map json_text a) @ CHR '']'' # x) = Some (a, x)"
    proof (rule read_items_text)
      show "read_value k (json_text w @ y) = Some (w, y)" if "w \<in> set a" "json_weight w \<le> k" "ends_value y" for w k y
        using "Arr.IH" [OF that(1,2) ok [OF that(1)] that(3)] .
    qed (use "Arr.prems"(1) n Cons in auto)
    moreover obtain c r where c: "join_with '','' (map json_text a) = c # r" "c \<noteq> CHR '']''"
    proof -
      obtain c r where "json_text v = c # r" "c \<noteq> CHR '']''" using json_text_start [OF ok [of v]] Cons by auto
      then show thesis using that join_start [of "map json_text a" c r "'',''"] Cons by auto
    qed
    ultimately show ?thesis using n by simp
  qed
next
  case (Obj m)
  then obtain n' where n: "n = Suc n'" by (cases n) auto
  have t: "json_text (JObj m) = CHR 0x7B # join_with '','' (map field_text m) @ [CHR 0x7D]"
    by (simp add: field_text_def [abs_def])
  show ?case
  proof (cases m)
    case Nil
    with n show ?thesis by simp
  next
    case (Cons p b)
    have ok: "numbers_ok num_literal w" if "(k, w) \<in> set m" for k w using "Obj.prems"(2) that by (auto simp: list_all_iff)
    have "read_fields n' (join_with '','' (map field_text m) @ CHR 0x7D # x) = Some (m, x)"
    proof (rule read_fields_text)
      show "read_value i (json_text w @ y) = Some (w, y)" if "(k, w) \<in> set m" "json_weight w \<le> i" "ends_value y" for k w i y
        using "Obj.IH" [of "(k, w)" i y] that ok [OF that(1)] by simp
    qed (use "Obj.prems"(1) n Cons in auto)
    moreover obtain r where c: "join_with '','' (map field_text m) = CHR 0x22 # r"
      using join_start [of "map field_text m" "CHR 0x22" _ "'',''"] Cons
      by (auto simp: field_text_def json_string_text_def)
    ultimately show ?thesis using n unfolding t by simp
  qed
next
  case (Num s)
  then obtain n' where n: "n = Suc n'" by (cases n) auto
  from Num obtain c r where s: "s = c # r" "num_char c" "list_all num_char s" by (cases s) (auto simp: num_literal_def)
  from takeWhile_num [OF s(3) "Num.prems"(3)] num_char_not [OF s(2)] s(1,2) n show ?case by simp
next
  case (Str s)
  then obtain n' where "n = Suc n'" by (cases n) auto
  then show ?case by (simp add: json_string_text_def read_string_text)
qed (auto elim!: le_SucE split: nat.splits simp: Suc_le_eq gr0_conv_Suc)

lemma length_join: "xs \<noteq> [] \<Longrightarrow> length (join_with [c] xs) + 1 = sum_list (map (\<lambda>x. Suc (length x)) xs)"
  by (induction "[c]" xs rule: join_with.induct) auto

lemma sum_list_mono_map: "(\<And>x. x \<in> set xs \<Longrightarrow> f x \<le> (g x :: nat)) \<Longrightarrow> sum_list (map f xs) \<le> sum_list (map g xs)"
  by (induction xs) (simp, fastforce intro: add_mono)

lemma double_sum: "2 * sum_list (map f xs) = sum_list (map (\<lambda>x. 2 * f x) xs)" for f :: "'a \<Rightarrow> nat"
  by (induction xs) auto

lemma weight_items:
  assumes "\<And>x. x \<in> set xs \<Longrightarrow> w x \<le> 2 * length (t x)"
  shows "sum_list (map (\<lambda>x. Suc (w x)) xs) \<le> 2 * length (join_with [c] (map t xs)) + 2"
proof (cases "xs = []")
  case False
  have "sum_list (map (\<lambda>x. Suc (w x)) xs) \<le> sum_list (map (\<lambda>x. 2 * Suc (length (t x))) xs)"
    by (rule sum_list_mono_map) (use assms in fastforce)
  also have "\<dots> = 2 * sum_list (map (\<lambda>x. Suc (length (t x))) xs)" by (simp add: double_sum)
  also have "\<dots> = 2 * (length (join_with [c] (map t xs)) + 1)"
    using length_join [of "map t xs" c] False by (simp add: comp_def)
  finally show ?thesis by simp
qed simp

lemma json_weight_text: "numbers_ok num_literal v \<Longrightarrow> json_weight v \<le> 2 * length (json_text v)"
proof (induction v rule: json_weight.induct [case_names Arr Obj Null Bool Num Str])
  case (Arr a)
  have "sum_list (map (\<lambda>v. Suc (json_weight v)) a) \<le> 2 * length (join_with '','' (map json_text a)) + 2"
    by (rule weight_items) (use Arr in \<open>simp add: list_all_iff\<close>)
  then show ?case by simp
next
  case (Obj m)
  have "sum_list (map (\<lambda>p. Suc (json_weight (snd p))) m) \<le>
      2 * length (join_with '','' (map (\<lambda>p. json_string_text (fst p) @ '':'' @ json_text (snd p)) m)) + 2"
    by (rule weight_items) (use Obj in \<open>fastforce simp: list_all_iff\<close>)
  then show ?case by simp
next
  case (Num s)
  then show ?case by (cases s) (auto simp: num_literal_def)
qed (auto simp: json_string_text_def)

lemma json_read_text: "wf_json v \<Longrightarrow> numbers_ok num_literal v \<Longrightarrow> json_read (json_text v) = Some v"
  using read_value_text [of v "2 * length (json_text v) + 1" "[]"] json_weight_text [of v]
  by (simp add: json_read_def)

text \<open>The law the development relies on of the JSON library can be met: the reader here accepts only
  well-formed values and reads back everything the compact printer writes, at any depth, whatever
  characters the strings and keys hold.\<close>

theorem json_text_round_trip: "text_round_trip num_literal json_text json_read"
  unfolding text_round_trip_def
proof (intro conjI allI impI)
  fix t v assume "json_read t = Some v"
  then show "wf_json v" "numbers_ok num_literal v"
    by (auto simp: json_read_def split: option.splits list.splits if_splits)
qed (rule json_read_text)

text \<open>Compact text never holds a control character.\<close>

definition no_ctrl :: "string \<Rightarrow> bool" where
  "no_ctrl s \<longleftrightarrow> (\<forall>c \<in> set s. 32 \<le> byte c)"

lemma no_ctrl_simps [simp]:
  "no_ctrl []" "no_ctrl (c # s) \<longleftrightarrow> 32 \<le> byte c \<and> no_ctrl s" "no_ctrl (a @ b) \<longleftrightarrow> no_ctrl a \<and> no_ctrl b"
  by (auto simp: no_ctrl_def)

lemma no_ctrl_concat: "no_ctrl (concat xs) \<longleftrightarrow> (\<forall>x \<in> set xs. no_ctrl x)"
  by (auto simp: no_ctrl_def)

lemma no_ctrl_escape: "no_ctrl (json_escape_char c)"
proof -
  have "32 \<le> byte (hex_digit n)" if "n < 16" for n using that by (simp add: hex_digit_def)
  then show ?thesis by (auto simp: json_escape_char_def)
qed

lemma no_ctrl_string: "no_ctrl (json_string_text s)"
  by (simp add: json_string_text_def no_ctrl_concat no_ctrl_escape)

lemma no_ctrl_join: "no_ctrl sep \<Longrightarrow> (\<And>x. x \<in> set xs \<Longrightarrow> no_ctrl x) \<Longrightarrow> no_ctrl (join_with sep xs)"
  by (induction sep xs rule: join_with.induct) auto

lemma no_ctrl_json_text: "numbers_ok num_literal v \<Longrightarrow> no_ctrl (json_text v)"
proof (induction v rule: json_text.induct)
  case (3 s)
  have "32 \<le> byte c" if "num_char c" for c using that by (auto simp: num_char_def is_ascii_digit_def)
  with 3 show ?case by (simp add: no_ctrl_def num_literal_def list_all_iff)
next
  case (5 a)
  then show ?case by (auto intro!: no_ctrl_join simp: list_all_iff)
next
  case (6 m)
  then show ?case by (auto intro!: no_ctrl_join simp: list_all_iff no_ctrl_string)
qed (auto simp: no_ctrl_string)

lemma trim_nonblank: "\<not> is_whitespace [c] \<Longrightarrow> byte c < 128 \<Longrightarrow> s = [] \<or> \<not> is_cont (hd s) \<Longrightarrow> trim (c # s) \<noteq> []"
proof -
  assume a: "\<not> is_whitespace [c]" "s = [] \<or> \<not> is_cont (hd s)"
  then have "utf8_chars (c # s) = [c] # utf8_chars s" by (cases s) auto
  with a(1) have "trim_chars (utf8_chars (c # s)) \<noteq> []" "[] \<notin> set (trim_chars (utf8_chars (c # s)))"
    using utf8_chars_nonempty [of "[]" "c # s"]
    by (auto simp: trim_chars_def dropWhile_eq_Nil_conv dest!: set_dropWhileD)
  then show ?thesis unfolding trim_def by (cases "trim_chars (utf8_chars (c # s))") auto
qed

end
