(* ===== verification/Results.thy ===== *)
theory Results
  imports Project Minify JsonText
begin

text \<open>
  Tool results and their shaping (\<open>src/src/surface/results.rs\<close>): envelopes, verify assertions, budgets,
  the projection nudge and the overlay's response transform. \<open>ser\<close> and \<open>parse\<close> are the JSON library's
  printer and parser, \<open>jq\<close> the jq interpreter (\<open>src/src/jq.rs\<close>); all three are parameters.
\<close>

section \<open>Results and payloads\<close>

definition text_block :: "string \<Rightarrow> json" where
  "text_block t = JObj [(''type'', JStr ''text''), (''text'', JStr t)]"

definition text_result :: "string \<Rightarrow> bool \<Rightarrow> json" where
  "text_result t is_error = JObj [(''content'', JArr [text_block t]), (''isError'', JBool is_error)]"

definition block_text :: "json \<Rightarrow> string option" where
  "block_text b = Option.bind (vget b ''text'') as_str"

definition content_blocks :: "json \<Rightarrow> json list option" where
  "content_blocks r = Option.bind (vget r ''content'') as_array"

definition result_text :: "json \<Rightarrow> string" where
  "result_text r =
     (case content_blocks r of
        Some (b # _) \<Rightarrow> (case block_text b of Some t \<Rightarrow> t | None \<Rightarrow> [])
      | _ \<Rightarrow> [])"

definition is_error_result :: "json \<Rightarrow> bool" where
  "is_error_result r \<longleftrightarrow> Option.bind (vget r ''isError'') as_bool = Some True"

definition is_envelope :: "json \<Rightarrow> bool" where
  "is_envelope v \<longleftrightarrow> is_object v \<and> vget v ''status'' \<noteq> None \<and> vget v ''body'' \<noteq> None"

definition result_payload :: "(string \<Rightarrow> json option) \<Rightarrow> json \<Rightarrow> bool \<Rightarrow> json" where
  "result_payload parse r from_spec =
     (let t = result_text r in
      case parse t of
        None \<Rightarrow> JStr t
      | Some parsed \<Rightarrow>
          if from_spec \<and> is_envelope parsed then
            (case vget parsed ''body'' of
               Some (JStr body) \<Rightarrow> (case parse body of Some b \<Rightarrow> b | None \<Rightarrow> parsed)
             | Some body \<Rightarrow> body
             | None \<Rightarrow> parsed)
          else parsed)"

definition json_len :: "(json \<Rightarrow> string) \<Rightarrow> json \<Rightarrow> nat" where
  "json_len ser v = length (ser v)"

section \<open>Assertions\<close>

text \<open>\<open>str::parse::<usize>\<close>: digits with an optional plus sign, below \<open>2^64\<close>.\<close>

definition parse_usize :: "string \<Rightarrow> nat option" where
  "parse_usize s =
     (let d = (case s of c # r \<Rightarrow> if c = CHR ''+'' then r else s | [] \<Rightarrow> []) in
      if all_digits d \<and> digits_value d < 18446744073709551616 then Some (digits_value d) else None)"

definition path_step :: "string \<Rightarrow> json \<Rightarrow> json option" where
  "path_step seg cur =
     (case strip_suffix ''[last]'' seg of
        Some key \<Rightarrow>
          (case (if key = [] then as_array cur else Option.bind (vget cur key) as_array) of
             Some a \<Rightarrow> if a = [] then None else Some (last a) | None \<Rightarrow> None)
      | None \<Rightarrow> (case cur of
          JObj m \<Rightarrow> jget m seg
        | JArr a \<Rightarrow> (case parse_usize seg of
            Some i \<Rightarrow> if i < length a then Some (a ! i) else None | None \<Rightarrow> None)
        | _ \<Rightarrow> None))"

fun path_steps :: "string list \<Rightarrow> json \<Rightarrow> json option" where
  "path_steps [] v = Some v"
| "path_steps (s # ss) v = Option.bind (path_step s v) (path_steps ss)"

definition get_path :: "json \<Rightarrow> string \<Rightarrow> json option" where
  "get_path v path = path_steps (split_on (CHR ''.'') path) v"

definition show_bool :: "bool \<Rightarrow> string" where
  "show_bool b = (if b then ''true'' else ''false'')"

definition show_opt_nat :: "nat option \<Rightarrow> string" where
  "show_opt_nat n = (case n of None \<Rightarrow> ''None'' | Some n \<Rightarrow> ''Some('' @ show_nat n @ '')'')"

definition absent_or_null :: "json option \<Rightarrow> bool" where
  "absent_or_null v \<longleftrightarrow> v = None \<or> v = Some JNull"

definition eval_expect :: "(string \<Rightarrow> json option) \<Rightarrow> json \<Rightarrow> bool \<Rightarrow> expect \<Rightarrow> bool \<times> string list" where
  "eval_expect parse r from_spec e =
     (let t = result_text r;
          f1 = (case ex_is_error e of
              Some want \<Rightarrow> if is_error_result r \<noteq> want
                then [''is_error: expected '' @ show_bool want @ '', got '' @ show_bool (is_error_result r)] else []
            | None \<Rightarrow> []);
          f2 = (case ex_status e of
              Some want \<Rightarrow>
                (let got = Option.bind (parse t) (\<lambda>v. Option.bind (vget v ''status'') as_u64) in
                 if got \<noteq> Some want
                 then [''status: expected '' @ show_nat want @ '', got '' @ show_opt_nat got] else [])
            | None \<Rightarrow> []);
          f3 = (case ex_contains e of
              Some sub \<Rightarrow> if contains_str t sub then []
                else [''contains '' @ debug_str sub @ '': not found in result'']
            | None \<Rightarrow> []);
          payload = result_payload parse r from_spec;
          f4 = map (\<lambda>p. ''has '' @ debug_str p @ '': missing or null'')
                 (filter (\<lambda>p. absent_or_null (get_path payload p)) (ex_has e));
          f5 = map (\<lambda>p. ''missing '' @ debug_str p @ '': unexpectedly present'')
                 (filter (\<lambda>p. \<not> absent_or_null (get_path payload p)) (ex_missing e));
          fails = f1 @ f2 @ f3 @ f4 @ f5
      in (fails = [], fails))"

section \<open>Budgets\<close>

definition projection_nudge_chars :: nat where
  "projection_nudge_chars = 2000"

definition agent_result_budget :: nat where
  "agent_result_budget = 8000"

definition passthrough_result_budget :: nat where
  "passthrough_result_budget = 64000"

abbreviation em_dash :: string where
  "em_dash \<equiv> [CHR 0xE2, CHR 0x80, CHR 0x94]"

definition truncated_use_fields :: string where
  "truncated_use_fields = [CHR 0x0A] @ ellipsis @ ''[truncated by min-mcp '' @ em_dash @
     '' request fewer fields to see the rest]''"

definition truncated_narrow_request :: string where
  "truncated_narrow_request = [CHR 0x0A] @ ellipsis @ ''[truncated by min-mcp '' @ em_dash @
     '' narrow the request (filters, pagination) to see the rest]''"

definition truncate_block :: "nat \<Rightarrow> string \<Rightarrow> json \<Rightarrow> json" where
  "truncate_block max_len notice b =
     (case b of
        JObj m \<Rightarrow> (case jget m ''text'' of
            Some (JStr t) \<Rightarrow>
              if length t > max_len then JObj (jput ''text'' (JStr (budget_truncate t max_len notice)) m) else b
          | _ \<Rightarrow> b)
      | _ \<Rightarrow> b)"

definition map_blocks :: "(json \<Rightarrow> json) \<Rightarrow> json \<Rightarrow> json" where
  "map_blocks f r =
     (case r of
        JObj m \<Rightarrow> (case jget m ''content'' of
            Some (JArr bs) \<Rightarrow> JObj (jput ''content'' (JArr (map f bs)) m) | _ \<Rightarrow> r)
      | _ \<Rightarrow> r)"

definition truncate_blocks :: "(json \<Rightarrow> string) \<Rightarrow> json \<Rightarrow> nat \<Rightarrow> string \<Rightarrow> json" where
  "truncate_blocks ser r max_len notice =
     map_blocks (truncate_block max_len notice)
       (case r of
          JObj m \<Rightarrow> (case jget m ''structuredContent'' of
              Some sc \<Rightarrow> if json_len ser sc > max_len then JObj (swap_remove ''structuredContent'' m) else r
            | None \<Rightarrow> r)
        | _ \<Rightarrow> r)"

definition truncate_result_text :: "(json \<Rightarrow> string) \<Rightarrow> json \<Rightarrow> nat \<Rightarrow> json" where
  "truncate_result_text ser r max_len = truncate_blocks ser r max_len truncated_use_fields"

definition truncate_passthrough_text :: "(json \<Rightarrow> string) \<Rightarrow> json \<Rightarrow> json" where
  "truncate_passthrough_text ser r = truncate_blocks ser r passthrough_result_budget truncated_narrow_request"

definition result_size :: "json \<Rightarrow> nat" where
  "result_size r = (case content_blocks r of
     Some bs \<Rightarrow> sum_list (map length (List.map_filter block_text bs)) | None \<Rightarrow> 0)"

definition nudge_text :: "nat \<Rightarrow> string" where
  "nudge_text n = ''HINT: this result is ~'' @ show_nat n @
     '' chars. If you only need some of it, re-call call_tool with a `fields` array (e.g. fields=['' @
     [CHR 0x22] @ ''data[].id'' @ [CHR 0x22] @ '','' @ [CHR 0x22] @ ''data[].amount'' @ [CHR 0x22] @
     '']) to return just those fields and save context.''"

definition push_block :: "string \<Rightarrow> json \<Rightarrow> json" where
  "push_block t r =
     (case r of
        JObj m \<Rightarrow> (case jget m ''content'' of
            Some (JArr bs) \<Rightarrow> JObj (jput ''content'' (JArr (bs @ [text_block t])) m) | _ \<Rightarrow> r)
      | _ \<Rightarrow> r)"

definition nudge_projection :: "json \<Rightarrow> json" where
  "nudge_projection r =
     (if result_size r \<le> projection_nudge_chars then r else push_block (nudge_text (result_size r)) r)"

definition bad_arg :: "string \<Rightarrow> json" where
  "bad_arg msg = text_result (msg @
     ''. This is a client-side argument error; fix the arguments '' @ em_dash @ '' do not retry unchanged.'') True"

section \<open>Transforms\<close>

definition apply_response_transform ::
  "(string \<Rightarrow> json \<Rightarrow> json option) \<Rightarrow> response_transform \<Rightarrow> bool \<Rightarrow> json \<Rightarrow> json" where
  "apply_response_transform jq rt is_error payload =
     (let v = (if rt_keep rt \<noteq> [] \<and> (\<not> is_error \<or> rt_when rt = OnError) then project payload (rt_keep rt) else payload);
          v = (if rt_remove rt \<noteq> [] then prune v (rt_remove rt) else v);
          v = fold (\<lambda>(path, name) v. rename v path name) (rt_rename rt) v;
          v = fold (\<lambda>(path, x) v. set_path v path x) (rt_set rt) v
      in (case rt_jq rt of
            Some program \<Rightarrow> (case jq program v of Some w \<Rightarrow> w | None \<Rightarrow> v)
          | None \<Rightarrow> v))"

text \<open>The new text of a block, or \<open>None\<close> where the block is left as it is.\<close>

definition transform_text ::
  "(json \<Rightarrow> string) \<Rightarrow> (string \<Rightarrow> json option) \<Rightarrow> bool \<Rightarrow> (json \<Rightarrow> json) \<Rightarrow> string \<Rightarrow> string option" where
  "transform_text ser parse from_spec f t =
     (case parse t of
        None \<Rightarrow> None
      | Some parsed \<Rightarrow>
          if from_spec \<and> is_envelope parsed then
            (case parsed of
               JObj m \<Rightarrow> (case jget m ''body'' of
                   Some (JStr s) \<Rightarrow> (case parse s of
                       None \<Rightarrow> None
                     | Some b \<Rightarrow> Some (ser (JObj (jput ''body'' (JStr (ser (f b))) m))))
                 | Some b \<Rightarrow>
                     if is_object b \<or> is_array b then Some (ser (JObj (jput ''body'' (f b) m))) else None
                 | None \<Rightarrow> None)
             | _ \<Rightarrow> None)
          else Some (ser (f parsed)))"

definition transform_block ::
  "(json \<Rightarrow> string) \<Rightarrow> (string \<Rightarrow> json option) \<Rightarrow> bool \<Rightarrow> (json \<Rightarrow> json) \<Rightarrow> json \<Rightarrow> json" where
  "transform_block ser parse from_spec f b =
     (case b of
        JObj m \<Rightarrow> (case Option.bind (jget m ''text'') as_str of
            Some t \<Rightarrow> (case transform_text ser parse from_spec f t of
                Some t' \<Rightarrow> JObj (jput ''text'' (JStr t') m) | None \<Rightarrow> b)
          | None \<Rightarrow> b)
      | _ \<Rightarrow> b)"

definition transform_structured :: "(json \<Rightarrow> json) \<Rightarrow> json \<Rightarrow> json" where
  "transform_structured f r =
     (case r of
        JObj m \<Rightarrow> (case jget m ''structuredContent'' of
            Some sc \<Rightarrow>
              if is_object (f sc) then JObj (jput ''structuredContent'' (f sc) m)
              else JObj (swap_remove ''structuredContent'' m)
          | None \<Rightarrow> r)
      | _ \<Rightarrow> r)"

definition transform_result ::
  "(json \<Rightarrow> string) \<Rightarrow> (string \<Rightarrow> json option) \<Rightarrow> bool \<Rightarrow> (json \<Rightarrow> json) \<Rightarrow> json \<Rightarrow> json" where
  "transform_result ser parse from_spec f r =
     map_blocks (transform_block ser parse from_spec f) (transform_structured f r)"

section \<open>Bounds\<close>

lemma content_map_blocks: "content_blocks (map_blocks f r) = map_option (map f) (content_blocks r)"
  by (auto simp: map_blocks_def content_blocks_def vget_def split: json.split option.split)

lemma vget_map_blocks: "k \<noteq> ''content'' \<Longrightarrow> vget (map_blocks f r) k = vget r k"
  by (auto simp: map_blocks_def vget_def split: json.split option.split)

lemma block_text_truncate: "block_text (truncate_block n notice b) =
    map_option (\<lambda>t. if length t > n then budget_truncate t n notice else t) (block_text b)"
  by (auto simp: truncate_block_def block_text_def vget_def split: json.split option.split)

lemma truncated_block_same: "(\<And>t. block_text b = Some t \<Longrightarrow> length t \<le> n) \<Longrightarrow> truncate_block n notice b = b"
  by (fastforce simp: truncate_block_def block_text_def vget_def split: json.split option.split)

text \<open>Nothing over budget reaches the agent. After truncation every text block is within the budget
  and so is the structured copy, the blocks are as many as before and in the same order, and a block
  that was within the budget, or has no text, is untouched.\<close>

theorem truncated_result_bounded:
  assumes "wf_json r" "length notice \<le> n" "content_blocks r = Some bs"
  shows "\<exists>bs'. content_blocks (truncate_blocks ser r n notice) = Some bs' \<and>
    list_all2 (\<lambda>b b'. (\<forall>t. block_text b' = Some t \<longrightarrow> length t \<le> n) \<and>
      ((\<forall>t. block_text b = Some t \<longrightarrow> length t \<le> n) \<longrightarrow> b' = b)) bs bs' \<and>
    (\<forall>sc. vget (truncate_blocks ser r n notice) ''structuredContent'' = Some sc \<longrightarrow>
      vget r ''structuredContent'' = Some sc \<and> json_len ser sc \<le> n)"
proof -
  obtain m where m: "r = JObj m" using assms(3) by (cases r) (auto simp: content_blocks_def vget_def)
  have d: "distinct (jkeys m)" using assms(1) m by simp
  let ?r = "case r of JObj m \<Rightarrow> (case jget m ''structuredContent'' of
      Some sc \<Rightarrow> if json_len ser sc > n then JObj (swap_remove ''structuredContent'' m) else r
    | None \<Rightarrow> r) | _ \<Rightarrow> r"
  have "content_blocks ?r = content_blocks r"
    using d m by (simp add: content_blocks_def split: option.split)
  moreover have "vget r ''structuredContent'' = Some sc \<and> json_len ser sc \<le> n" if "vget ?r ''structuredContent'' = Some sc" for sc
    using that d m by (auto split: option.splits if_splits)
  moreover have "list_all2 (\<lambda>b b'. (\<forall>t. block_text b' = Some t \<longrightarrow> length t \<le> n) \<and>
      ((\<forall>t. block_text b = Some t \<longrightarrow> length t \<le> n) \<longrightarrow> b' = b)) bs (map (truncate_block n notice) bs)"
    using budget_truncate_length [OF assms(2)] truncated_block_same
    by (auto simp: list_all2_map2 list_all2_same block_text_truncate split: if_splits)
  ultimately show ?thesis
    using assms(3) unfolding truncate_blocks_def by (simp add: content_map_blocks vget_map_blocks)
qed

theorem truncated_result_bounded_witness:
  "\<exists>bs. content_blocks (truncate_passthrough_text json_text (text_result ''ok'' False)) = Some bs \<and>
    list_all2 (\<lambda>b b'. \<exists>t. block_text b' = Some t \<and> length t \<le> 64000 \<and> b' = b) [text_block ''ok''] bs"
proof -
  have w: "wf_json (text_result ''ok'' False)" by (simp add: text_result_def text_block_def jkeys_def)
  have l: "length truncated_narrow_request \<le> passthrough_result_budget"
    by (simp add: truncated_narrow_request_def passthrough_result_budget_def)
  have c: "content_blocks (text_result ''ok'' False) = Some [text_block ''ok'']" by code_simp
  have t: "block_text (text_block ''ok'') = Some ''ok''" by code_simp
  from truncated_result_bounded [OF w l c, of json_text] obtain bs where
    b: "content_blocks (truncate_passthrough_text json_text (text_result ''ok'' False)) = Some bs"
       "list_all2 (\<lambda>b b'. (\<forall>t. block_text b' = Some t \<longrightarrow> length t \<le> passthrough_result_budget) \<and>
          ((\<forall>t. block_text b = Some t \<longrightarrow> length t \<le> passthrough_result_budget) \<longrightarrow> b' = b)) [text_block ''ok''] bs"
    unfolding truncate_passthrough_text_def by blast
  obtain b' where b': "bs = [b']" using b(2) by (auto simp: list_all2_Cons1)
  have "length ''ok'' \<le> passthrough_result_budget" by (simp add: passthrough_result_budget_def)
  with b(2) b' t have "b' = text_block ''ok''" by auto
  with b(1) b' t show ?thesis by auto
qed

section \<open>Stripped fields\<close>

lemma reach_scalar: "q \<noteq> [] \<Longrightarrow> \<not> is_object v \<Longrightarrow> \<not> is_array v \<Longrightarrow> reach q v = []"
  by (cases q; cases v) (auto simp: is_object_def is_array_def vget_def)

lemma prune_reach_self:
  assumes "wf_json v" "p \<in> set paths" "parse_path p \<noteq> []"
  shows "reach (parse_path p) (prune v paths) = []"
  using assms(1,2)
proof (induction paths arbitrary: v)
  case (Cons p' ps)
  have w: "wf_json (remove_at (parse_path p') v)" using Cons.prems(1) by (rule wf_remove_at)
  have e: "prune v (p' # ps) = prune (remove_at (parse_path p') v) ps" by (simp add: prune_def)
  show ?case
  proof (cases "p' = p")
    case True
    have "reach (parse_path p) (remove_at (parse_path p') v) = []"
      using reach_remove_self [OF assms(3) Cons.prems(1)] True by simp
    then show ?thesis using prune_fold [OF w, of ps] e by simp
  next
    case False
    then show ?thesis using Cons.IH [OF w] Cons.prems(2) e by simp
  qed
qed simp

lemma remove_at_shape: "is_object (remove_at segs v) = is_object v \<and> is_array (remove_at segs v) = is_array v \<and>
    (\<not> is_object v \<longrightarrow> \<not> is_array v \<longrightarrow> remove_at segs v = v)"
proof (cases "(segs, v)" rule: remove_at.cases)
  case (2 seg v')
  then show ?thesis by (cases v) (auto simp: is_object_def is_array_def)
next
  case (3 seg s2 rest v')
  then show ?thesis by (cases v) (auto simp: is_object_def is_array_def split: option.splits)
qed simp

lemma remove_at_str: "remove_at segs v = JStr s \<Longrightarrow> v = JStr s"
  using remove_at_shape [of segs v] by (simp add: is_object_def is_array_def)

lemma prune_str: "prune v ps = JStr s \<Longrightarrow> v = JStr s"
proof (induction ps arbitrary: v)
  case (Cons p ps)
  from Cons.prems have "prune (remove_at (parse_path p) v) ps = JStr s" by (simp add: prune_def)
  from remove_at_str [OF Cons.IH [OF this]] show ?case .
qed (simp add: prune_def)

lemma numbers_ok_remove_at: "numbers_ok num v \<Longrightarrow> numbers_ok num (remove_at segs v)"
proof (induction segs v rule: remove_at.induct)
  case (2 seg v)
  then show ?case by (cases v) (simp_all add: numbers_ok_swap_remove del: numbers_ok.simps(2))
next
  case (3 seg s2 rest v)
  show ?case
  proof (cases v)
    case (JArr a)
    with 3 show ?thesis by (auto simp: list_all_iff)
  next
    case (JObj m)
    with 3 show ?thesis
      by (auto split: option.split simp del: numbers_ok.simps intro!: numbers_ok_jput dest: numbers_ok_jget)
  qed (use 3 in auto)
qed auto

lemma numbers_ok_prune: "numbers_ok num v \<Longrightarrow> numbers_ok num (prune v ps)"
  unfolding prune_def by (induction ps arbitrary: v) (simp_all add: numbers_ok_remove_at)

lemma numbers_ok_part_of: "part_of a v \<Longrightarrow> numbers_ok num v \<Longrightarrow> numbers_ok num a"
proof (induction a v rule: part_of.induct)
  case (2 a b)
  show ?case
    unfolding numbers_ok_set
  proof (intro ballI, clarify)
    fix k x assume x: "(k, x) \<in> set a"
    from part_of_in [OF "2.prems"(1) x] obtain w where w: "jget b k = Some w" "part_of x w" by blast
    show "numbers_ok num x"
      using "2.IH" [OF x refl w(1) w(2)] numbers_ok_jget [OF "2.prems"(2) w(1)] by simp
  qed
next
  case (3 a b)
  have "numbers_ok num x" if "x \<in> set a" for x
  proof -
    from that obtain i where i: "i < length a" "x = a ! i" by (metis in_set_conv_nth)
    with "3.prems"(1) have "b ! i \<in> set b" "part_of x (b ! i)" by (auto simp: list_all2_conv_all_nth)
    moreover have "numbers_ok num (b ! i)" using "3.prems"(2) calculation(1) by (simp add: list_all_iff)
    ultimately show ?thesis using "3.IH" [OF that] by blast
  qed
  then show ?case by (simp add: list_all_iff)
qed auto

text \<open>The JSON the agent can read in a result: the structured copy, and in each text block the value it
  parses to, through the envelope of a spec upstream and through a body that is itself JSON text.\<close>

definition text_values :: "(string \<Rightarrow> json option) \<Rightarrow> bool \<Rightarrow> string \<Rightarrow> json list" where
  "text_values parse from_spec t =
     (case parse t of
        None \<Rightarrow> []
      | Some v \<Rightarrow>
          if from_spec \<and> is_envelope v then
            (case vget v ''body'' of
               Some (JStr s) \<Rightarrow> (case parse s of Some b \<Rightarrow> [b] | None \<Rightarrow> [])
             | Some b \<Rightarrow> [b]
             | None \<Rightarrow> [])
          else [v])"

definition agent_values :: "(string \<Rightarrow> json option) \<Rightarrow> bool \<Rightarrow> json \<Rightarrow> json list" where
  "agent_values parse from_spec r =
     (case vget r ''structuredContent'' of Some sc \<Rightarrow> [sc] | None \<Rightarrow> []) @
     (case content_blocks r of
        Some bs \<Rightarrow> concat (map (text_values parse from_spec) (List.map_filter block_text bs))
      | None \<Rightarrow> [])"

definition strips_only :: "response_transform \<Rightarrow> bool" where
  "strips_only rt \<longleftrightarrow> rt_rename rt = [] \<and> rt_set rt = [] \<and> rt_jq rt = None"

lemma project_wf_part:
  assumes "wf_json v"
  shows "wf_json (project v ps)" "part_of (project v ps) v"
  using project_fold [OF assms, of JNull ps] by (simp_all add: project_def Let_def)

lemma part_of_vget: "part_of a v \<Longrightarrow> vget a k \<noteq> None \<Longrightarrow> vget v k \<noteq> None"
proof -
  assume a: "part_of a v" "vget a k \<noteq> None"
  then obtain m x where m: "a = JObj m" "jget m k = Some x" by (auto simp: vget_Some)
  with a(1) obtain b where b: "v = JObj b" using part_of_obj_cases by blast
  from part_of_get [OF a(1) [unfolded m(1) b] m(2)] b show ?thesis by auto
qed

lemma prune_vget: "wf_json v \<Longrightarrow> k \<noteq> wild \<Longrightarrow> vget (prune v ps) k \<noteq> None \<Longrightarrow> vget v k \<noteq> None"
proof
  assume w: "wf_json v" "k \<noteq> wild" "vget (prune v ps) k \<noteq> None" "vget v k = None"
  then have "reach [k] v = []" by simp
  with w(1) have "reach [k] (prune v ps) = []" using prune_fold by blast
  with w(2,3) show False by (auto split: option.splits)
qed

lemma strip_transform:
  assumes "strips_only rt" "p \<in> set (rt_remove rt)" "parse_path p \<noteq> []" "wf_json v" "numbers_ok num v"
  shows "wf_json (apply_response_transform jq rt e v) \<and> numbers_ok num (apply_response_transform jq rt e v) \<and>
    reach (parse_path p) (apply_response_transform jq rt e v) = [] \<and>
    (\<forall>s. apply_response_transform jq rt e v = JStr s \<longrightarrow> v = JStr s) \<and>
    (is_envelope (apply_response_transform jq rt e v) \<longrightarrow> is_envelope v)"
proof -
  define u where "u = (if rt_keep rt \<noteq> [] \<and> (\<not> e \<or> rt_when rt = OnError) then project v (rt_keep rt) else v)"
  have f: "apply_response_transform jq rt e v = prune u (rt_remove rt)"
    using assms(1,2) by (auto simp: apply_response_transform_def strips_only_def u_def Let_def)
  have pu: "part_of u v" "wf_json u"
    using project_wf_part [OF assms(4)] part_of_refl [OF assms(4)] assms(4) by (simp_all add: u_def)
  have "\<forall>s. u = JStr s \<longrightarrow> v = JStr s" using pu(1) by (cases v) auto
  moreover have "is_envelope v" if "is_envelope (prune u (rt_remove rt))"
  proof -
    have "vget u ''status'' \<noteq> None" "vget u ''body'' \<noteq> None"
      using that prune_vget [OF pu(2), of "''status''" "rt_remove rt"] prune_vget [OF pu(2), of "''body''" "rt_remove rt"]
      by (simp_all add: is_envelope_def)
    then have "vget v ''status'' \<noteq> None" "vget v ''body'' \<noteq> None" using part_of_vget [OF pu(1)] by blast+
    then show ?thesis by (cases v) (auto simp: is_envelope_def is_object_def vget_def)
  qed
  ultimately show ?thesis
    unfolding f
    using prune_fold [OF pu(2)] prune_reach_self [OF pu(2) assms(2,3)] prune_str
      numbers_ok_prune [OF numbers_ok_part_of [OF pu(1) assms(5)]] by blast
qed

text \<open>A shaping function that leaves nothing at the path \<open>q\<close>, and adds no envelope.\<close>

definition clears :: "(string \<Rightarrow> bool) \<Rightarrow> string list \<Rightarrow> (json \<Rightarrow> json) \<Rightarrow> bool" where
  "clears num q f \<longleftrightarrow> (\<forall>v. wf_json v \<longrightarrow> numbers_ok num v \<longrightarrow>
     wf_json (f v) \<and> numbers_ok num (f v) \<and> reach q (f v) = [] \<and> (\<forall>s. f v = JStr s \<longrightarrow> v = JStr s) \<and>
     (is_envelope (f v) \<longrightarrow> is_envelope v))"

lemma clearsD:
  "clears num q f \<Longrightarrow> wf_json v \<Longrightarrow> numbers_ok num v \<Longrightarrow>
   wf_json (f v) \<and> numbers_ok num (f v) \<and> reach q (f v) = [] \<and> (\<forall>s. f v = JStr s \<longrightarrow> v = JStr s) \<and> (is_envelope (f v) \<longrightarrow> is_envelope v)"
  unfolding clears_def by blast

text \<open>The text of an envelope: its body is shaped, as JSON text when it is one.\<close>

lemma transformed_envelope_clear:
  assumes law: "text_round_trip num ser parse" and f: "clears num q f" and q: "q \<noteq> []"
    and t: "parse t = Some (JObj m)" and m: "jget m ''body'' = Some b" "is_envelope (JObj m)"
    and x: "x \<in> set (text_values parse True (case transform_text ser parse True f t of Some t' \<Rightarrow> t' | None \<Rightarrow> t))"
  shows "reach q x = []"
proof -
  have v: "wf_json (JObj m)" "numbers_ok num (JObj m)" using law t unfolding text_round_trip_def by blast+
  have b: "wf_json b" "numbers_ok num b" using v m(1) wf_json_get numbers_ok_jget by blast+
  have rt: "parse (ser w) = Some w" if "wf_json w" "numbers_ok num w" for w
    using law that by (simp add: text_round_trip_def)
  have put: "parse (ser (JObj (jput ''body'' w m))) = Some (JObj (jput ''body'' w m)) \<and>
      is_envelope (JObj (jput ''body'' w m))" if "wf_json w" "numbers_ok num w" for w
    using v m that rt [OF wf_json_jput numbers_ok_jput] by (simp add: is_envelope_def is_object_def)
  consider s where "b = JStr s" "parse s = None" | s w where "b = JStr s" "parse s = Some w"
    | "\<nexists>s. b = JStr s" "is_object b \<or> is_array b" | "\<nexists>s. b = JStr s" "\<not> (is_object b \<or> is_array b)" by fast
  then show ?thesis
  proof cases
    case (1 s)
    with m t x show ?thesis by (simp add: transform_text_def text_values_def)
  next
    case (2 s w)
    have w: "wf_json w" "numbers_ok num w" using law 2(2) by (auto simp: text_round_trip_def)
    note fw = clearsD [OF f w]
    have "transform_text ser parse True f t = Some (ser (JObj (jput ''body'' (JStr (ser (f w))) m)))"
      using 2 m t by (simp add: transform_text_def)
    with x put [of "JStr (ser (f w))"] rt [of "f w"] fw have "x = f w" by (auto simp: text_values_def)
    then show ?thesis using fw by simp
  next
    case 3
    with m t have "transform_text ser parse True f t = Some (ser (JObj (jput ''body'' (f b) m)))"
      by (cases b) (simp_all add: transform_text_def is_object_def is_array_def)
    moreover have "\<And>s. f b \<noteq> JStr s" using clearsD [OF f b] 3(1) by blast
    ultimately have "x = f b"
      using x put [of "f b"] clearsD [OF f b] by (auto simp: text_values_def split: json.splits)
    then show ?thesis using clearsD [OF f b] by simp
  next
    case 4
    with m t have "transform_text ser parse True f t = None"
      by (cases b) (simp_all add: transform_text_def is_object_def is_array_def)
    with x m t 4(1) have "x = b" by (cases b) (auto simp: text_values_def)
    with 4(2) q show ?thesis by (auto intro: reach_scalar)
  qed
qed

lemma transformed_text_clear:
  assumes law: "text_round_trip num ser parse" and f: "clears num q f" and q: "q \<noteq> []"
    and x: "x \<in> set (text_values parse fs (case transform_text ser parse fs f t of Some t' \<Rightarrow> t' | None \<Rightarrow> t))"
  shows "reach q x = []"
proof (cases "parse t")
  case None
  with x show ?thesis by (simp add: transform_text_def text_values_def)
next
  case (Some v)
  have v: "wf_json v" "numbers_ok num v" using law Some by (auto simp: text_round_trip_def)
  show ?thesis
  proof (cases "fs \<and> is_envelope v")
    case False
    then have "transform_text ser parse fs f t = Some (ser (f v))" using Some unfolding transform_text_def by auto
    moreover have "\<not> (fs \<and> is_envelope (f v))" using False clearsD [OF f v] by blast
    moreover have "parse (ser (f v)) = Some (f v)" using law clearsD [OF f v] by (simp add: text_round_trip_def)
    ultimately have "x = f v" using x by (auto simp: text_values_def)
    then show ?thesis using clearsD [OF f v] by simp
  next
    case True
    then obtain m b where "v = JObj m" "jget m ''body'' = Some b"
      by (cases v) (auto simp: is_envelope_def vget_def is_object_def)
    with True Some x show ?thesis using transformed_envelope_clear [OF law f q, of t m b x] by simp
  qed
qed

lemma block_text_transform: "block_text (transform_block ser parse fs f b) =
    map_option (\<lambda>t. case transform_text ser parse fs f t of Some t' \<Rightarrow> t' | None \<Rightarrow> t) (block_text b)"
  by (auto simp: transform_block_def block_text_def vget_def option_bind_Some_iff
      split: json.split option.split option.splits bind_splits)

lemma set_map_filter: "x \<in> set (List.map_filter f xs) \<longleftrightarrow> (\<exists>y \<in> set xs. f y = Some x)"
  by (induction xs) (auto simp: List.map_filter_def)

lemma agent_values_cases:
  assumes "x \<in> set (agent_values parse fs r)"
  shows "vget r ''structuredContent'' = Some x \<or> (\<exists>bs b t. content_blocks r = Some bs \<and> b \<in> set bs \<and>
    block_text b = Some t \<and> x \<in> set (text_values parse fs t))"
proof (cases "content_blocks r")
  case (Some bs)
  with assms consider "vget r ''structuredContent'' = Some x"
    | t where "t \<in> set (List.map_filter block_text bs)" "x \<in> set (text_values parse fs t)"
    by (auto simp: agent_values_def split: option.splits)
  then show ?thesis using Some by cases (auto simp: set_map_filter)
qed (use assms in \<open>auto simp: agent_values_def split: option.splits\<close>)


definition leaky_result :: json where
  "leaky_result = JObj [(''content'', JArr [text_block
       (json_text (JObj [(''status'', JNum ''200''), (''body'', JObj [(''id'', JNum ''7''), (''key'', JStr ''s'')])]))]),
     (''structuredContent'', JObj [(''key'', JStr ''s'')])]"

definition strip_key :: response_transform where
  "strip_key = \<lparr>rt_keep = [], rt_remove = [''key''], rt_rename = [], rt_set = [], rt_jq = None, rt_when = Always\<rparr>"


end
