(* ===== verification/Lint.thy ===== *)
theory Lint
  imports Json
begin

text \<open>
  The tool-definition linter and the tool-poisoning rules (\<open>src/src/lint.rs\<close>). \<open>lower\<close> is
  \<open>str::to_lowercase\<close>, which needs the Unicode tables.
\<close>

section \<open>The poisoning rules\<close>

definition model_directed :: "string list" where
  "model_directed =
    [''ignore previous'', ''ignore all previous'', ''ignore the above'', ''disregard previous'',
     ''disregard the above'', ''do not tell the user'', ''don'' @ [CHR 0x27] @ ''t tell the user'', ''do not mention'',
     ''without telling the user'', ''without informing the user'', ''do not inform'', ''before using this tool'',
     ''before calling this tool'', ''you must first'', ''always call this tool'', ''instead of the other'',
     ''system prompt'', ''new instructions'']"

definition secret_artifacts :: "string list" where
  "secret_artifacts =
    [''id_rsa'', ''id_ed25519'', ''id_dsa'', ''.aws/credentials'', ''.netrc'', ''.env file'', ''/etc/passwd'',
     ''/etc/shadow'', ''private key file'', ''credentials file'']"

text \<open>The code point of a character's UTF-8 bytes.\<close>

definition code_point :: "string \<Rightarrow> nat" where
  "code_point c = (case map byte c of
       [a] \<Rightarrow> a
     | [a, b] \<Rightarrow> (a - 192) * 64 + (b - 128)
     | [a, b, d] \<Rightarrow> (a - 224) * 4096 + (b - 128) * 64 + (d - 128)
     | [a, b, d, e] \<Rightarrow> (a - 240) * 262144 + (b - 128) * 4096 + (d - 128) * 64 + (e - 128)
     | _ \<Rightarrow> 0)"

definition in_range :: "nat \<Rightarrow> nat \<Rightarrow> nat \<Rightarrow> bool" where
  "in_range lo hi n \<longleftrightarrow> lo \<le> n \<and> n \<le> hi"

definition is_hidden :: "string \<Rightarrow> bool" where
  "is_hidden c =
     (let n = code_point c in
      in_range 0x200B 0x200F n \<or> n = 0x2060 \<or> n = 0xFEFF \<or> n = 0x00AD \<or> n = 0x180E \<or>
      in_range 0x202A 0x202E n \<or> in_range 0x2066 0x2069 n \<or> in_range 0xE0000 0xE007F n)"

definition poisoning :: "(string \<Rightarrow> string) \<Rightarrow> string \<Rightarrow> string \<Rightarrow> string list" where
  "poisoning lower name description =
     (if list_ex is_hidden (utf8_chars description) \<or> list_ex is_hidden (utf8_chars name)
      then [''hidden_text''] else []) @
     (if list_ex (contains_str (lower description)) model_directed then [''model_directed_instruction''] else []) @
     (if list_ex (contains_str (lower description)) secret_artifacts then [''secret_solicitation''] else [])"

section \<open>Descriptions\<close>

text \<open>\<open>rsplit_once\<close> of a pattern: what follows its last occurrence.\<close>

fun after_last :: "string \<Rightarrow> string \<Rightarrow> string option" where
  "after_last pat [] = None"
| "after_last pat (c # s) =
     (case after_last pat s of Some r \<Rightarrow> Some r | None \<Rightarrow> strip_prefix pat (c # s))"

definition human_desc :: "string \<Rightarrow> string" where
  "human_desc description =
     (let d = trim description in
      case after_last [CHR 0xE2, CHR 0x80, CHR 0x94] d of Some r \<Rightarrow> trim r | None \<Rightarrow> d)"

definition http_method :: "string \<Rightarrow> string option" where
  "http_method origin =
     (let w = (case split_whitespace origin of [] \<Rightarrow> [] | x # _ \<Rightarrow> to_ascii_uppercase x) in
      if w \<in> set [''GET'', ''POST'', ''PUT'', ''PATCH'', ''DELETE'', ''HEAD'', ''OPTIONS''] then Some w else None)"

definition is_mutating :: "string \<Rightarrow> bool" where
  "is_mutating origin \<longleftrightarrow>
     (case http_method origin of Some m \<Rightarrow> m \<in> set [''POST'', ''PUT'', ''PATCH'', ''DELETE''] | None \<Rightarrow> False)"

definition confusable_key :: "(string \<Rightarrow> string) \<Rightarrow> string \<Rightarrow> string option" where
  "confusable_key lower description =
     (let key = join_with '' '' (split_whitespace (lower (human_desc description))) in
      if length (utf8_chars key) \<ge> 12 then Some key else None)"

section \<open>The schema walk\<close>

record lint_walk =
  lw_param_total :: nat
  lw_param_undescribed :: nat
  lw_untyped :: bool
  lw_max_required :: nat
  lw_max_depth :: nat

definition default_walk :: lint_walk where
  "default_walk = \<lparr>lw_param_total = 0, lw_param_undescribed = 0, lw_untyped = False, lw_max_required = 0, lw_max_depth = 0\<rparr>"

definition is_opaque :: "json \<Rightarrow> bool" where
  "is_opaque p =
     (case as_object p of
        None \<Rightarrow> False
      | Some m \<Rightarrow> \<not> list_ex (jhas m) [''type'', ''properties'', ''items'', ''enum'', ''$ref'', ''$circular'',
          ''$omitted'', ''allOf'', ''oneOf''] \<and> jget m ''anyOf'' = None)"

definition described :: "json \<Rightarrow> bool" where
  "described p = (case Option.bind (vget p ''description'') as_str of Some d \<Rightarrow> trim d \<noteq> [] | None \<Rightarrow> False)"

definition count_param :: "json \<Rightarrow> lint_walk \<Rightarrow> lint_walk" where
  "count_param p w = w\<lparr>lw_param_total := lw_param_total w + 1,
     lw_param_undescribed := lw_param_undescribed w + (if described p then 0 else 1),
     lw_untyped := lw_untyped w \<or> is_opaque p\<rparr>"

definition note_node :: "jmap \<Rightarrow> nat \<Rightarrow> lint_walk \<Rightarrow> lint_walk" where
  "note_node m depth w = w\<lparr>lw_max_depth := max (lw_max_depth w) depth,
     lw_max_required := (case jget m ''required'' of
       Some (JArr req) \<Rightarrow> max (lw_max_required w) (length req) | _ \<Rightarrow> lw_max_required w)\<rparr>"

text \<open>The schemas below a node, in the order of the walk: the property schemas, which count as parameters,
  then the element schema, which does not.\<close>

definition lint_children :: "jmap \<Rightarrow> (bool \<times> json) list" where
  "lint_children m =
     (case jget m ''properties'' of Some (JObj props) \<Rightarrow> map (\<lambda>(k, p). (True, p)) props | _ \<Rightarrow> []) @
     (case jget m ''items'' of Some items \<Rightarrow> [(False, items)] | None \<Rightarrow> [])"

lemma lint_children_iff: "(b, c) \<in> set (lint_children m) \<longleftrightarrow>
    (b \<and> (\<exists>props k. jget m ''properties'' = Some (JObj props) \<and> (k, c) \<in> set props)) \<or>
    (\<not> b \<and> jget m ''items'' = Some c)"
proof -
  have "(b, c) \<in> set (case jget m ''properties'' of Some (JObj props) \<Rightarrow> map (\<lambda>(k, p). (True, p)) props | _ \<Rightarrow> []) \<longleftrightarrow>
      b \<and> (\<exists>props k. jget m ''properties'' = Some (JObj props) \<and> (k, c) \<in> set props)"
    by (cases "jget m ''properties''"; cases "the (jget m ''properties'')") force+
  moreover have "(b, c) \<in> set (case jget m ''items'' of Some items \<Rightarrow> [(False, items)] | None \<Rightarrow> []) \<longleftrightarrow>
      \<not> b \<and> jget m ''items'' = Some c"
    by (cases "jget m ''items''") auto
  ultimately show ?thesis by (simp add: lint_children_def)
qed

lemma lint_children_size:
  "(b, c) \<in> set (lint_children m) \<Longrightarrow> size c < Suc (size_list (size_prod (\<lambda>_. 0) size) m)"
  unfolding lint_children_iff by (fastforce dest: jget_size json_obj_size)

function (sequential) lint_visit :: "json \<Rightarrow> nat \<Rightarrow> lint_walk \<Rightarrow> lint_walk" where
  "lint_visit (JObj m) depth w =
     fold (\<lambda>(is_param, c) w. lint_visit c (depth + 1) (if is_param then count_param c w else w))
       (lint_children m) (note_node m depth w)"
| "lint_visit _ depth w = w"
  by pat_completeness auto

termination lint_visit
  by (relation "measure (\<lambda>(v, d, w). size v)") (auto dest!: lint_children_size)

definition required_max :: nat where
  "required_max = 8"

definition deep_max :: nat where
  "deep_max = 6"

definition lint :: "(string \<Rightarrow> string) \<Rightarrow> string \<Rightarrow> string \<Rightarrow> json \<Rightarrow> bool \<Rightarrow> string list" where
  "lint lower name description schema mutating =
     (let w = lint_visit schema 0 default_walk in
      poisoning lower name description @
      (if trim description = [] then [''no_description'']
       else if length (split_whitespace (human_desc description)) < 2 then [''thin_description''] else []) @
      (if lw_param_total w > 0 \<and> lw_param_undescribed w * 2 > lw_param_total w then [''params_undescribed''] else []) @
      (if lw_untyped w then [''untyped_param''] else []) @
      (if mutating \<and> lw_param_total w > 0 \<and> lw_max_required w = 0 then [''mutating_no_required''] else []) @
      (if lw_max_required w > required_max then [''many_required''] else []) @
      (if lw_max_depth w > deep_max then [''deep_schema''] else []))"

section \<open>What the rules see\<close>

declare lint_visit.simps [simp del]

text \<open>The linter and the startup check decide poisoning by one rule set.\<close>

definition poisoning_rules :: "string list" where
  "poisoning_rules = [''hidden_text'', ''model_directed_instruction'', ''secret_solicitation'']"

lemma lint_poisoning: "filter (\<lambda>r. r \<in> set poisoning_rules) (lint lower name d schema mutating) = poisoning lower name d"
  by (simp add: lint_def poisoning_def poisoning_rules_def Let_def)

text \<open>The parameters a schema declares: property schemas at any depth, through array elements.\<close>

inductive param_of :: "json \<Rightarrow> json \<Rightarrow> bool" where
  here: "vget v ''properties'' = Some (JObj props) \<Longrightarrow> (k, p) \<in> set props \<Longrightarrow> param_of v p"
| deeper: "vget v ''properties'' = Some (JObj props) \<Longrightarrow> (k, q) \<in> set props \<Longrightarrow> param_of q p \<Longrightarrow> param_of v p"
| element: "vget v ''items'' = Some q \<Longrightarrow> param_of q p \<Longrightarrow> param_of v p"

inductive_cases param_ofE: "param_of v p"

lemma fold_disj:
  assumes "\<And>p w. p \<in> set ps \<Longrightarrow> U (f p w) \<longleftrightarrow> U w \<or> P p"
  shows "U (fold f ps w) \<longleftrightarrow> U w \<or> (\<exists>p \<in> set ps. P p)"
  using assms by (induction ps arbitrary: w) auto

lemma param_of_obj: "param_of (JObj m) p \<longleftrightarrow>
    (\<exists>b c. (b, c) \<in> set (lint_children m) \<and> ((b \<and> p = c) \<or> param_of c p))"
proof
  assume "param_of (JObj m) p"
  then show "\<exists>b c. (b, c) \<in> set (lint_children m) \<and> ((b \<and> p = c) \<or> param_of c p)"
    by cases (auto simp: lint_children_iff)
next
  assume "\<exists>b c. (b, c) \<in> set (lint_children m) \<and> ((b \<and> p = c) \<or> param_of c p)"
  then obtain b c where bc: "(b, c) \<in> set (lint_children m)" "(b \<and> p = c) \<or> param_of c p" by blast
  show "param_of (JObj m) p"
  proof (cases b)
    case True
    with bc(1) obtain props k where pr: "vget (JObj m) ''properties'' = Some (JObj props)" "(k, c) \<in> set props"
      by (auto simp: lint_children_iff)
    from bc(2) show ?thesis
    proof
      assume "b \<and> p = c"
      then show ?thesis using here [OF pr] by simp
    next
      assume "param_of c p"
      then show ?thesis by (rule deeper [OF pr])
    qed
  next
    case False
    with bc(1) have "vget (JObj m) ''items'' = Some c" by (simp add: lint_children_iff)
    moreover have "param_of c p" using bc(2) False by simp
    ultimately show ?thesis by (rule element)
  qed
qed

lemma param_of_scalar: "\<not> is_object v \<Longrightarrow> \<not> param_of v p"
proof
  assume "\<not> is_object v" "param_of v p"
  from this(2) this(1) show False by cases (auto simp: vget_Some is_object_def)
qed

lemma bex_pair: "(\<exists>x \<in> A. P x) \<longleftrightarrow> (\<exists>b c. (b, c) \<in> A \<and> P (b, c))"
  by auto

text \<open>The walk finds an opaque parameter exactly when the schema declares one.\<close>

lemma visit_untyped: "lw_untyped (lint_visit v d w) \<longleftrightarrow> lw_untyped w \<or> (\<exists>p. param_of v p \<and> is_opaque p)"
proof (induction v d w rule: lint_visit.induct)
  case (1 m depth w)
  let ?P = "\<lambda>(is_param, c). (is_param \<and> is_opaque c) \<or> (\<exists>p. param_of c p \<and> is_opaque p)"
  have "lw_untyped (lint_visit (JObj m) depth w) \<longleftrightarrow> lw_untyped (note_node m depth w) \<or> (\<exists>p \<in> set (lint_children m). ?P p)"
    unfolding lint_visit.simps
  proof (rule fold_disj)
    fix p and u :: lint_walk assume "p \<in> set (lint_children m)"
    then show "lw_untyped ((case p of (is_param, c) \<Rightarrow> \<lambda>w. lint_visit c (depth + 1) (if is_param then count_param c w else w)) u)
        \<longleftrightarrow> lw_untyped u \<or> ?P p"
      using "1.IH" [of p "fst p" "snd p" u] by (auto simp: count_param_def split: prod.splits)
  qed
  moreover have "(\<exists>p \<in> set (lint_children m). ?P p) \<longleftrightarrow> (\<exists>p. param_of (JObj m) p \<and> is_opaque p)"
  proof -
    have "(\<exists>p \<in> set (lint_children m). ?P p) \<longleftrightarrow> (\<exists>b c. (b, c) \<in> set (lint_children m) \<and> ?P (b, c))"
      by (simp only: bex_pair)
    also have "\<dots> \<longleftrightarrow> (\<exists>p. param_of (JObj m) p \<and> is_opaque p)"
      unfolding param_of_obj prod.case by blast
    finally show ?thesis .
  qed
  ultimately show ?case by (simp add: note_node_def)
qed (simp_all add: lint_visit.simps param_of_scalar is_object_def)

end
