(* ===== verification/AuditChain.thy ===== *)
theory AuditChain
  imports JsonText
begin

text \<open>
  Tamper evidence for the audit stream (\<open>src/src/audit_chain.rs\<close>): each line carries its sequence number
  and a MAC over the previous line's MAC, the number and the content. \<open>hmac\<close> is HMAC-SHA256
  (\<open>ring\<close>), \<open>ser\<close> and \<open>parse\<close> the JSON printer and parser: parameters. A log file is its text, or \<open>None\<close>
  where it cannot be read.
\<close>

section \<open>The chain\<close>

record chain =
  ch_key :: string
  ch_next_seq :: nat
  ch_prev_mac :: string

definition genesis :: string where
  "genesis = ''genesis''"

definition new_chain :: "string \<Rightarrow> chain" where
  "new_chain secret = \<lparr>ch_key = secret, ch_next_seq = 1, ch_prev_mac = genesis\<rparr>"

definition hex :: "string \<Rightarrow> string" where
  "hex bytes = concat (map (\<lambda>b. [hex_digit (byte b div 16), hex_digit (byte b mod 16)]) bytes)"

abbreviation unit_sep :: char where
  "unit_sep \<equiv> CHR 0x1F"

text \<open>A line's content: everything but its MAC.\<close>

definition unsigned :: "json \<Rightarrow> json" where
  "unsigned line = (case line of JObj m \<Rightarrow> JObj (swap_remove ''mac'' m) | _ \<Rightarrow> line)"

definition mac_payload :: "(json \<Rightarrow> string) \<Rightarrow> string \<Rightarrow> nat \<Rightarrow> json \<Rightarrow> string" where
  "mac_payload ser prev seq line = prev @ unit_sep # show_nat seq @ unit_sep # ser (unsigned line)"

definition mac_for :: "(string \<Rightarrow> string \<Rightarrow> string) \<Rightarrow> (json \<Rightarrow> string) \<Rightarrow> string \<Rightarrow> string \<Rightarrow> nat \<Rightarrow> json \<Rightarrow> string" where
  "mac_for hmac ser key prev seq line = hex (hmac key (mac_payload ser prev seq line))"

definition put_field :: "string \<Rightarrow> json \<Rightarrow> json \<Rightarrow> json" where
  "put_field k v line = (case line of JObj m \<Rightarrow> JObj (jput k v m) | _ \<Rightarrow> line)"

definition stamp :: "(string \<Rightarrow> string \<Rightarrow> string) \<Rightarrow> (json \<Rightarrow> string) \<Rightarrow> chain \<Rightarrow> json \<Rightarrow> json \<times> chain" where
  "stamp hmac ser ch line =
     (let seq = ch_next_seq ch;
          line = put_field ''seq'' (jnat seq) line;
          mac = mac_for hmac ser (ch_key ch) (ch_prev_mac ch) seq line
      in (put_field ''mac'' (JStr mac) line, ch\<lparr>ch_next_seq := seq + 1, ch_prev_mac := mac\<rparr>))"

datatype audit_error = LastLineNotJson | UnsignedLog | UnreadableLog

definition line_seq :: "json \<Rightarrow> nat option" where
  "line_seq v = Option.bind (vget v ''seq'') as_u64"

definition line_mac :: "json \<Rightarrow> string option" where
  "line_mac v = Option.bind (vget v ''mac'') as_str"

definition written_lines :: "string \<Rightarrow> string list" where
  "written_lines text = filter (\<lambda>l. trim l \<noteq> []) (str_lines text)"

definition resume_from :: "(string \<Rightarrow> json option) \<Rightarrow> string option \<Rightarrow> chain \<Rightarrow> audit_error + chain" where
  "resume_from parse file ch =
     (case file of
        None \<Rightarrow> Inr ch
      | Some text \<Rightarrow>
          if written_lines text = [] then Inr ch
          else (case parse (last (written_lines text)) of
              None \<Rightarrow> Inl LastLineNotJson
            | Some v \<Rightarrow> (case (line_seq v, line_mac v) of
                  (Some seq, Some mac) \<Rightarrow> Inr (ch\<lparr>ch_next_seq := seq + 1, ch_prev_mac := mac\<rparr>)
                | _ \<Rightarrow> Inl UnsignedLog)))"

section \<open>Argument fingerprints\<close>

definition args_label :: string where
  "args_label = ''minmcp/args-mac/v1''"

definition args_key :: "(string \<Rightarrow> string \<Rightarrow> string) \<Rightarrow> string \<Rightarrow> string" where
  "args_key hmac secret = hmac secret args_label"

definition args_mac :: "(string \<Rightarrow> string \<Rightarrow> string) \<Rightarrow> string \<Rightarrow> string \<Rightarrow> string" where
  "args_mac hmac key canonical = hex (hmac key canonical)"

section \<open>Verification\<close>

datatype line_failure = NotJson | NoSeqOrMac | SequenceJumped nat nat | MacMismatch

record verdict =
  vd_lines :: nat
  vd_failures :: "(nat \<times> line_failure) list"

definition verdict_ok :: "verdict \<Rightarrow> bool" where
  "verdict_ok v \<longleftrightarrow> vd_failures v = []"

fun verify_from :: "(string \<Rightarrow> string \<Rightarrow> string) \<Rightarrow> (json \<Rightarrow> string) \<Rightarrow> (string \<Rightarrow> json option) \<Rightarrow> string
    \<Rightarrow> string \<Rightarrow> nat \<Rightarrow> nat \<Rightarrow> string list \<Rightarrow> verdict" where
  "verify_from hmac ser parse key prev expect n [] = \<lparr>vd_lines = n, vd_failures = []\<rparr>"
| "verify_from hmac ser parse key prev expect n (raw # rest) =
     (let n = n + 1; fail = (\<lambda>f. \<lparr>vd_lines = n, vd_failures = [(n, f)]\<rparr>) in
      case parse raw of
        None \<Rightarrow> fail NotJson
      | Some v \<Rightarrow> (case (line_seq v, line_mac v) of
          (Some seq, Some mac) \<Rightarrow>
            if seq \<noteq> expect then fail (SequenceJumped expect seq)
            else if mac_for hmac ser key prev seq v \<noteq> mac then fail MacMismatch
            else verify_from hmac ser parse key mac (seq + 1) n rest
        | _ \<Rightarrow> fail NoSeqOrMac))"

definition verify_log :: "(string \<Rightarrow> string \<Rightarrow> string) \<Rightarrow> (json \<Rightarrow> string) \<Rightarrow> (string \<Rightarrow> json option) \<Rightarrow> string
    \<Rightarrow> string option \<Rightarrow> audit_error + verdict" where
  "verify_log hmac ser parse secret file =
     (case file of
        None \<Rightarrow> Inl UnreadableLog
      | Some text \<Rightarrow> Inr (verify_from hmac ser parse secret genesis 1 0 (written_lines text)))"

section \<open>A log as it is written\<close>

fun stamp_all :: "(string \<Rightarrow> string \<Rightarrow> string) \<Rightarrow> (json \<Rightarrow> string) \<Rightarrow> chain \<Rightarrow> json list \<Rightarrow> json list \<times> chain" where
  "stamp_all hmac ser ch [] = ([], ch)"
| "stamp_all hmac ser ch (v # vs) =
     (let (line, ch) = stamp hmac ser ch v; (lines, ch) = stamp_all hmac ser ch vs in (line # lines, ch))"

definition log_text :: "(json \<Rightarrow> string) \<Rightarrow> json list \<Rightarrow> string" where
  "log_text ser lines = concat (map (\<lambda>l. ser l @ [CHR 0x0A]) lines)"

text \<open>What NDJSON needs of the printer: an object's text is not blank and holds no line break.\<close>

definition one_line :: "(string \<Rightarrow> bool) \<Rightarrow> (json \<Rightarrow> string) \<Rightarrow> bool" where
  "one_line num ser \<longleftrightarrow> (\<forall>m. wf_json (JObj m) \<longrightarrow> numbers_ok num (JObj m) \<longrightarrow>
     CHR 0x0A \<notin> set (ser (JObj m)) \<and> CHR 0x0D \<notin> set (ser (JObj m)) \<and> trim (ser (JObj m)) \<noteq> [])"

definition log_value :: "(string \<Rightarrow> bool) \<Rightarrow> json \<Rightarrow> bool" where
  "log_value num v \<longleftrightarrow> is_object v \<and> wf_json v \<and> numbers_ok num v"

section \<open>The lines of a log\<close>

lemma split_on_terminated: "d \<notin> set a \<Longrightarrow> split_on d (a @ d # s) = a # split_on d s"
  by (induction a) auto

lemma strip_cr_none: "CHR 0x0D \<notin> set l \<Longrightarrow> strip_cr l = l"
  unfolding strip_cr_def by (cases "strip_suffix [CHR 0x0D] l") (auto simp: strip_suffix_Some)

lemma log_value_line:
  assumes "one_line num ser" "log_value num v"
  shows "CHR 0x0A \<notin> set (ser v)" "CHR 0x0D \<notin> set (ser v)" "trim (ser v) \<noteq> []"
  using assms by (cases v; simp add: one_line_def log_value_def is_object_def)+

lemma split_log_text:
  assumes "one_line num ser" "list_all (log_value num) ls"
  shows "split_on (CHR 0x0A) (log_text ser ls) = map ser ls @ [[]]"
  using assms(2)
proof (induction ls)
  case (Cons l ls)
  have "log_text ser (l # ls) = ser l @ CHR 0x0A # log_text ser ls" by (simp add: log_text_def)
  with Cons log_value_line(1) [OF assms(1)] show ?case by (simp add: split_on_terminated)
qed (simp add: log_text_def)

lemma written_log_text:
  assumes "one_line num ser" "list_all (log_value num) ls"
  shows "written_lines (log_text ser ls) = map ser ls"
proof -
  have "map strip_cr (map ser ls) = map ser ls"
    using assms(2) log_value_line(2) [OF assms(1)] by (simp add: strip_cr_none list_all_iff)
  moreover have "filter (\<lambda>l. trim l \<noteq> []) (map ser ls) = map ser ls"
    using assms(2) log_value_line(3) [OF assms(1)] by (auto simp: list_all_iff intro!: filter_True)
  moreover have "str_lines (log_text ser ls) = map strip_cr (map ser ls)"
    by (simp add: str_lines_def split_log_text [OF assms] Let_def)
  ultimately show ?thesis unfolding written_lines_def by metis
qed

section \<open>Stamping\<close>

lemma swap_remove_absent: "k \<notin> set (jkeys m) \<Longrightarrow> swap_remove k m = m"
  by (induction m) (auto simp: jkeys_def)

lemma swap_remove_jput: "swap_remove k (jput k x m) = swap_remove k m"
  unfolding jput_def
proof (induction k x m rule: alist_put.induct)
  case (2 k x k' y m)
  then show ?case by auto
qed simp

lemma unsigned_put_mac: "unsigned (put_field ''mac'' x v) = unsigned v"
  by (auto simp: unsigned_def put_field_def swap_remove_jput split: json.split)

lemma mac_for_put_mac: "mac_for hmac ser key prev seq (put_field ''mac'' x v) = mac_for hmac ser key prev seq v"
  by (simp add: mac_for_def mac_payload_def unsigned_put_mac)

lemma log_value_put: "log_value num v \<Longrightarrow> numbers_ok num x \<Longrightarrow> wf_json x \<Longrightarrow> log_value num (put_field k x v)"
  by (cases v) (simp_all add: log_value_def put_field_def is_object_def numbers_ok_jput del: wf_json.simps(2) numbers_ok.simps(2))

lemma stamp_facts:
  assumes "log_value num v" "\<forall>n. num (show_nat n)" "stamp hmac ser ch v = (line, ch')"
  shows "log_value num line" "ch' = ch\<lparr>ch_next_seq := ch_next_seq ch + 1, ch_prev_mac := ch_prev_mac ch'\<rparr>"
    "line_mac line = Some (ch_prev_mac ch')"
    "ch_next_seq ch < 18446744073709551616 \<Longrightarrow> line_seq line = Some (ch_next_seq ch)"
    "mac_for hmac ser (ch_key ch) (ch_prev_mac ch) (ch_next_seq ch) line = ch_prev_mac ch'"
proof -
  obtain m where m: "v = JObj m" using assms(1) by (cases v) (auto simp: log_value_def is_object_def)
  let ?s = "put_field ''seq'' (jnat (ch_next_seq ch)) v"
  let ?mac = "mac_for hmac ser (ch_key ch) (ch_prev_mac ch) (ch_next_seq ch) ?s"
  have line: "line = put_field ''mac'' (JStr ?mac) ?s"
    and ch': "ch' = ch\<lparr>ch_next_seq := ch_next_seq ch + 1, ch_prev_mac := ?mac\<rparr>"
    using assms(3) by (simp_all add: stamp_def Let_def)
  have "log_value num ?s" using assms(1,2) by (intro log_value_put) (simp_all add: jnat_def)
  then show "log_value num line" unfolding line by (rule log_value_put) simp_all
  show "ch' = ch\<lparr>ch_next_seq := ch_next_seq ch + 1, ch_prev_mac := ch_prev_mac ch'\<rparr>" by (simp add: ch')
  show "line_mac line = Some (ch_prev_mac ch')" by (simp add: line_mac_def line m put_field_def ch')
  show "line_seq line = Some (ch_next_seq ch)" if "ch_next_seq ch < 18446744073709551616"
    using that by (simp add: line_seq_def line m put_field_def)
  show "mac_for hmac ser (ch_key ch) (ch_prev_mac ch) (ch_next_seq ch) line = ch_prev_mac ch'"
    unfolding line mac_for_put_mac by (simp add: ch')
qed

lemma stamp_all_facts:
  assumes "\<forall>n. num (show_nat n)"
  shows "list_all (log_value num) vs \<Longrightarrow> stamp_all hmac ser ch vs = (lines, ch') \<Longrightarrow>
    list_all (log_value num) lines \<and> length lines = length vs \<and> ch_key ch' = ch_key ch \<and>
    ch_next_seq ch' = ch_next_seq ch + length vs"
proof (induction vs arbitrary: ch lines)
  case (Cons v vs)
  obtain line ch1 where s: "stamp hmac ser ch v = (line, ch1)" by fastforce
  obtain ls where ls: "stamp_all hmac ser ch1 vs = (ls, ch')" "lines = line # ls"
    using Cons.prems(2) s by (auto split: prod.splits)
  have v: "log_value num v" "list_all (log_value num) vs" using Cons.prems(1) by simp_all
  note f = stamp_facts [OF v(1) assms s]
  have "ch_key ch1 = ch_key ch" "ch_next_seq ch1 = ch_next_seq ch + 1" by (subst f(2), simp)+
  with Cons.IH [OF v(2) ls(1)] f(1) ls(2) show ?case by simp
qed simp

lemma verify_stamped:
  assumes "\<forall>n. num (show_nat n)" "text_round_trip num ser parse"
  shows "list_all (log_value num) vs \<Longrightarrow> stamp_all hmac ser ch vs = (lines, ch') \<Longrightarrow>
    ch_next_seq ch + length vs \<le> 18446744073709551616 \<Longrightarrow>
    verify_from hmac ser parse (ch_key ch) (ch_prev_mac ch) (ch_next_seq ch) n (map ser lines) =
      \<lparr>vd_lines = n + length vs, vd_failures = []\<rparr>"
proof (induction vs arbitrary: ch lines n)
  case (Cons v vs)
  obtain line ch1 where s: "stamp hmac ser ch v = (line, ch1)" by fastforce
  obtain ls where ls: "stamp_all hmac ser ch1 vs = (ls, ch')" "lines = line # ls"
    using Cons.prems(2) s by (auto split: prod.splits)
  have v: "log_value num v" "list_all (log_value num) vs" using Cons.prems(1) by simp_all
  note f = stamp_facts [OF v(1) assms(1) s]
  have ch1: "ch_key ch1 = ch_key ch" "ch_next_seq ch1 = ch_next_seq ch + 1" by (subst f(2), simp)+
  have "parse (ser line) = Some line"
    using f(1) assms(2) by (simp add: log_value_def text_round_trip_def)
  moreover have "verify_from hmac ser parse (ch_key ch1) (ch_prev_mac ch1) (ch_next_seq ch1) (n + 1) (map ser ls) =
      \<lparr>vd_lines = n + 1 + length vs, vd_failures = []\<rparr>"
    by (rule Cons.IH) (use v(2) ls(1) Cons.prems(3) ch1 in simp_all)
  ultimately show ?case
    using f(3,5) f(4) Cons.prems(3) ch1 by (simp add: ls(2) Let_def)
qed simp

lemma line_mac_last:
  assumes "\<forall>n. num (show_nat n)"
  shows "list_all (log_value num) vs \<Longrightarrow> stamp_all hmac ser ch vs = (lines, ch') \<Longrightarrow> vs \<noteq> [] \<Longrightarrow>
    line_mac (last lines) = Some (ch_prev_mac ch') \<and>
    (ch_next_seq ch' \<le> 18446744073709551616 \<longrightarrow> line_seq (last lines) = Some (ch_next_seq ch' - 1))"
proof (induction vs arbitrary: ch lines)
  case (Cons v vs)
  obtain line ch1 where s: "stamp hmac ser ch v = (line, ch1)" by fastforce
  obtain ls where ls: "stamp_all hmac ser ch1 vs = (ls, ch')" "lines = line # ls"
    using Cons.prems(2) s by (auto split: prod.splits)
  have v: "log_value num v" "list_all (log_value num) vs" using Cons.prems(1) by simp_all
  note f = stamp_facts [OF v(1) assms s]
  have next1: "ch_next_seq ch1 = ch_next_seq ch + 1" by (subst f(2)) simp
  show ?case
  proof (cases "vs = []")
    case True
    with ls next1 f(3,4) show ?thesis by auto
  next
    case False
    moreover have "ls \<noteq> []" using stamp_all_facts [OF assms v(2) ls(1)] False by auto
    ultimately show ?thesis using Cons.IH [OF v(2) ls(1)] ls(2) by simp
  qed
qed simp

text \<open>C17: an untouched log always verifies, across restarts: whatever the process logs, its text verifies
  with every line accepted, and a process that resumes from that file continues with exactly the chain
  state the previous one ended in, so a restart is never taken for tampering.\<close>

theorem log_round_trip:
  assumes "text_round_trip num ser parse" "one_line num ser" "\<forall>n. num (show_nat n)"
    "list_all (log_value num) vs" "length vs < 18446744073709551615"
    "stamp_all hmac ser (new_chain secret) vs = (lines, ch)"
  shows "verify_log hmac ser parse secret (Some (log_text ser lines)) = Inr \<lparr>vd_lines = length vs, vd_failures = []\<rparr> \<and>
    resume_from parse (Some (log_text ser lines)) (new_chain secret) = Inr ch"
proof
  have a: "list_all (log_value num) lines" "length lines = length vs" "ch_key ch = secret"
      "ch_next_seq ch = 1 + length vs"
    using stamp_all_facts [OF assms(3,4,6)] by (simp_all add: new_chain_def)
  have w: "written_lines (log_text ser lines) = map ser lines" using assms(2) a(1) by (rule written_log_text)
  have "verify_from hmac ser parse (ch_key (new_chain secret)) (ch_prev_mac (new_chain secret))
      (ch_next_seq (new_chain secret)) 0 (map ser lines) = \<lparr>vd_lines = 0 + length vs, vd_failures = []\<rparr>"
    by (rule verify_stamped [OF assms(3,1,4,6)]) (use assms(5) in \<open>simp add: new_chain_def\<close>)
  then show "verify_log hmac ser parse secret (Some (log_text ser lines)) = Inr \<lparr>vd_lines = length vs, vd_failures = []\<rparr>"
    by (simp add: verify_log_def w new_chain_def)
  show "resume_from parse (Some (log_text ser lines)) (new_chain secret) = Inr ch"
  proof (cases "vs = []")
    case True
    with a(2) w assms(6) show ?thesis by (simp add: resume_from_def)
  next
    case False
    then have ne: "lines \<noteq> []" using a(2) by auto
    then have "log_value num (last lines)" using a(1) by (simp add: list_all_iff)
    then have "parse (ser (last lines)) = Some (last lines)"
      using assms(1) by (simp add: log_value_def text_round_trip_def)
    moreover have "line_mac (last lines) = Some (ch_prev_mac ch)" "line_seq (last lines) = Some (length vs)"
      using line_mac_last [OF assms(3,4,6) False] a(4) assms(5) by simp_all
    moreover have "last (map ser lines) = ser (last lines)" using ne by (simp add: last_map)
    moreover have "ch = (new_chain secret)\<lparr>ch_next_seq := length vs + 1, ch_prev_mac := ch_prev_mac ch\<rparr>"
      using a(3,4) by (cases ch) (simp add: new_chain_def)
    ultimately show ?thesis using w ne by (simp add: resume_from_def)
  qed
qed

section \<open>Tampering shows\<close>

lemma hex_digit_inj: "i < 16 \<Longrightarrow> j < 16 \<Longrightarrow> hex_digit i = hex_digit j \<Longrightarrow> i = j"
  by (metis hex_value_digit)

lemma hex_byte: "hex_digit (byte c div 16) = hex_digit (byte d div 16) \<Longrightarrow>
    hex_digit (byte c mod 16) = hex_digit (byte d mod 16) \<Longrightarrow> c = d"
proof -
  assume a: "hex_digit (byte c div 16) = hex_digit (byte d div 16)" "hex_digit (byte c mod 16) = hex_digit (byte d mod 16)"
  have b: "byte x div 16 < 16" for x by (simp add: less_mult_imp_div_less)
  have "byte c div 16 = byte d div 16" by (rule hex_digit_inj [OF b b a(1)])
  moreover have "byte c mod 16 = (byte d mod 16 :: nat)" using hex_digit_inj [OF _ _ a(2)] by simp
  ultimately have "byte c = (byte d :: nat)" by (metis div_mult_mod_eq)
  then show "c = d" by simp
qed

lemma hex_inj: "hex a = hex b \<Longrightarrow> a = b"
proof (induction a arbitrary: b)
  case Nil
  then show ?case by (cases b) (auto simp: hex_def)
next
  case (Cons c a)
  then obtain d b' where b: "b = d # b'" by (cases b) (auto simp: hex_def)
  have h: "hex (x # y) = hex_digit (byte x div 16) # hex_digit (byte x mod 16) # hex y" for x y
    by (simp add: hex_def)
  have e: "hex_digit (byte c div 16) = hex_digit (byte d div 16)" "hex_digit (byte c mod 16) = hex_digit (byte d mod 16)"
      "hex a = hex b'"
    using Cons.prems unfolding b h by (simp_all only: list.inject)
  show ?case using hex_byte [OF e(1,2)] Cons.IH [OF e(3)] b by simp
qed

lemma hex_digit_sep: "hex_digit n \<noteq> unit_sep" if "n < 16"
proof -
  have "byte (hex_digit n) \<ge> 48" using that by (simp add: hex_digit_def)
  then show ?thesis by auto
qed

lemma hex_no_sep: "unit_sep \<notin> set (hex a)"
proof (induction a)
  case (Cons c a)
  have "hex_digit (byte c div 16) \<noteq> unit_sep" "hex_digit (byte c mod 16) \<noteq> unit_sep"
    by (rule hex_digit_sep, simp add: less_mult_imp_div_less)+
  with Cons show ?case by (simp add: hex_def)
qed (simp add: hex_def)

lemma sep_unique: "(d :: char) \<notin> set a \<Longrightarrow> d \<notin> set a' \<Longrightarrow> a @ d # b = a' @ d # b' \<Longrightarrow> a = a' \<and> b = b'"
  using split_once_Some [of d "a @ d # b" a b] split_once_Some [of d "a @ d # b" a' b'] by simp

lemma show_nat_no_sep: "unit_sep \<notin> set (show_nat n)"
  using show_nat_digits [of n] by (auto simp: list_all_iff is_ascii_digit_def)

lemma mac_payload_inj:
  assumes "unit_sep \<notin> set prev" "unit_sep \<notin> set prev'"
    "mac_payload ser prev seq v = mac_payload ser prev' seq' v'"
  shows "seq = seq' \<and> ser (unsigned v) = ser (unsigned v')"
  using sep_unique [OF assms(1,2) assms(3) [unfolded mac_payload_def]]
    sep_unique [OF show_nat_no_sep [of seq] show_nat_no_sep [of seq'], of "ser (unsigned v)" "ser (unsigned v')"] by simp

lemma stamped_nth:
  assumes "\<forall>n. num (show_nat n)"
  shows "list_all (log_value num) vs \<Longrightarrow> stamp_all hmac ser ch vs = (lines, ch') \<Longrightarrow>
    \<exists>macs. length macs = length lines \<and> (\<forall>i < length lines. line_mac (lines ! i) = Some (macs ! i) \<and>
      mac_for hmac ser (ch_key ch) ((ch_prev_mac ch # macs) ! i) (ch_next_seq ch + i) (lines ! i) = macs ! i)"
proof (induction vs arbitrary: ch lines)
  case (Cons v vs)
  obtain line ch1 where s: "stamp hmac ser ch v = (line, ch1)" by fastforce
  obtain ls where ls: "stamp_all hmac ser ch1 vs = (ls, ch')" "lines = line # ls"
    using Cons.prems(2) s by (auto split: prod.splits)
  have v: "log_value num v" "list_all (log_value num) vs" using Cons.prems(1) by simp_all
  note f = stamp_facts [OF v(1) assms s]
  have ch1: "ch_key ch1 = ch_key ch" "ch_next_seq ch1 = ch_next_seq ch + 1" by (subst f(2), simp)+
  from Cons.IH [OF v(2) ls(1)] obtain macs where macs: "length macs = length ls"
    "\<forall>i < length ls. line_mac (ls ! i) = Some (macs ! i) \<and>
      mac_for hmac ser (ch_key ch) ((ch_prev_mac ch1 # macs) ! i) (ch_next_seq ch + 1 + i) (ls ! i) = macs ! i"
    unfolding ch1 by blast
  show ?case
  proof (intro exI [of _ "ch_prev_mac ch1 # macs"] conjI allI impI)
    fix i assume i: "i < length lines"
    show "line_mac (lines ! i) = Some ((ch_prev_mac ch1 # macs) ! i)"
      using i f(3) macs(2) by (cases i) (simp_all add: ls(2))
    show "mac_for hmac ser (ch_key ch) ((ch_prev_mac ch # ch_prev_mac ch1 # macs) ! i) (ch_next_seq ch + i) (lines ! i) =
        (ch_prev_mac ch1 # macs) ! i"
      using i f(5) macs(2) by (cases i) (simp_all add: ls(2))
  qed (simp add: macs(1) ls(2))
qed simp

lemma unsigned_keeps: "wf_json v \<and> numbers_ok num v \<Longrightarrow> wf_json (unsigned v) \<and> numbers_ok num (unsigned v)"
  by (cases v) (simp_all add: unsigned_def numbers_ok_swap_remove del: wf_json.simps(2) numbers_ok.simps(2))

lemma verified_prefix:
  assumes law: "text_round_trip num ser parse" and coll: "inj (hmac key)"
    and ok: "list_all (log_value num) lines"
    and macs: "length macs = length lines" "\<And>i. i < length lines \<Longrightarrow> line_mac (lines ! i) = Some (macs ! i) \<and>
        mac_for hmac ser key ((genesis # macs) ! i) (1 + i) (lines ! i) = macs ! i"
  shows "vd_failures (verify_from hmac ser parse key ((genesis # macs) ! i) (1 + i) n raws) = [] \<Longrightarrow> i \<le> length lines \<Longrightarrow>
    (\<And>raw v m. raw \<in> set raws \<Longrightarrow> parse raw = Some v \<Longrightarrow> line_mac v = Some m \<Longrightarrow> \<exists>line \<in> set lines. line_mac line = Some m) \<Longrightarrow>
    map (\<lambda>raw. map_option unsigned (parse raw)) raws = map (\<lambda>l. Some (unsigned l)) (take (length raws) (drop i lines))"
proof (induction raws arbitrary: i n)
  case (Cons raw raws)
  have nosep: "unit_sep \<notin> set ((genesis # macs) ! j)" if "j \<le> length lines" for j
  proof (cases j)
    case 0
    then show ?thesis by (simp add: genesis_def)
  next
    case (Suc k)
    then have "macs ! k = mac_for hmac ser key ((genesis # macs) ! k) (1 + k) (lines ! k)" using macs(2) [of k] that by simp
    with Suc show ?thesis by (simp add: mac_for_def hex_no_sep)
  qed
  from Cons.prems(1) obtain v m where v: "parse raw = Some v" "line_seq v = Some (1 + i)" "line_mac v = Some m"
      "mac_for hmac ser key ((genesis # macs) ! i) (1 + i) v = m"
      "vd_failures (verify_from hmac ser parse key m (1 + i + 1) (n + 1) raws) = []"
    by (auto simp: Let_def split: option.splits if_splits)
  obtain line where "line \<in> set lines" "line_mac line = Some m" using Cons.prems(3) [of raw v m] v(1,3) by auto
  then obtain j where j: "j < length lines" "macs ! j = m" using macs(2) by (metis in_set_conv_nth option.inject)
  have "hmac key (mac_payload ser ((genesis # macs) ! i) (1 + i) v) =
      hmac key (mac_payload ser ((genesis # macs) ! j) (1 + j) (lines ! j))"
    using v(4) macs(2) [OF j(1)] j(2) hex_inj unfolding mac_for_def by metis
  then have "mac_payload ser ((genesis # macs) ! i) (1 + i) v = mac_payload ser ((genesis # macs) ! j) (1 + j) (lines ! j)"
    using coll by (simp add: inj_eq)
  from mac_payload_inj [OF nosep nosep this] Cons.prems(2) j(1)
  have e: "i = j" "ser (unsigned v) = ser (unsigned (lines ! j))" by simp_all
  have "wf_json v \<and> numbers_ok num v" using law v(1) by (simp add: text_round_trip_def)
  moreover have "wf_json (lines ! j) \<and> numbers_ok num (lines ! j)"
    using ok j(1) by (simp add: list_all_length log_value_def)
  ultimately have "Some (unsigned v) = Some (unsigned (lines ! j))"
    using law e(2) unsigned_keeps unfolding text_round_trip_def by metis
  moreover have "map (\<lambda>raw. map_option unsigned (parse raw)) raws =
      map (\<lambda>l. Some (unsigned l)) (take (length raws) (drop (Suc j) lines))"
  proof (rule Cons.IH)
    show "vd_failures (verify_from hmac ser parse key ((genesis # macs) ! Suc j) (1 + Suc j) (n + 1) raws) = []"
      using v(5) j(2) e(1) by simp
  qed (use j(1) Cons.prems(3) in auto)
  ultimately show ?case using e(1) v(1) j(1) by (simp add: Cons_nth_drop_Suc [symmetric])
qed simp


section \<open>A concrete log\<close>

lemma one_line_json_text: "one_line num_literal json_text"
  unfolding one_line_def
proof (intro allI impI)
  fix m assume "numbers_ok num_literal (JObj m)"
  then have "no_ctrl (json_text (JObj m))" by (rule no_ctrl_json_text)
  moreover have "trim (json_text (JObj m)) \<noteq> []"
  proof -
    let ?s = "join_with '','' (map (\<lambda>p. json_string_text (fst p) @ '':'' @ json_text (snd p)) m) @ ''}''"
    have "hd ?s = CHR 0x22 \<or> hd ?s = CHR 0x7D"
    proof (cases m)
      case (Cons p r)
      obtain s where "join_with '','' (map (\<lambda>p. json_string_text (fst p) @ '':'' @ json_text (snd p)) m) = CHR 0x22 # s"
        using join_start [of "map (\<lambda>p. json_string_text (fst p) @ '':'' @ json_text (snd p)) m" "CHR 0x22" _ "'',''"] Cons
        by (auto simp: json_string_text_def)
      then show ?thesis by simp
    qed simp
    then have "\<not> is_cont (hd ?s)" by (auto simp: is_cont_def)
    then have "trim (CHR 0x7B # ?s) \<noteq> []" by (intro trim_nonblank) (simp_all add: is_whitespace_def)
    then show ?thesis by simp
  qed
  ultimately show "CHR 0x0A \<notin> set (json_text (JObj m)) \<and> CHR 0x0D \<notin> set (json_text (JObj m)) \<and> trim (json_text (JObj m)) \<noteq> []"
    by (auto simp: no_ctrl_def)
qed

lemma num_literal_show_nat: "num_literal (show_nat n)"
  using show_nat_digits [of n] by (auto simp: num_literal_def num_char_def list_all_iff)

definition toy_hmac :: "string \<Rightarrow> string \<Rightarrow> string" where
  "toy_hmac key msg = key @ msg"

definition toy_event :: "string \<Rightarrow> json" where
  "toy_event e = JObj [(''event'', JStr e), (''caller'', JStr ''alice'')]"

lemma toy_events_ok: "list_all (log_value num_literal) (map toy_event es)"
  by (simp add: list_all_iff toy_event_def log_value_def is_object_def jkeys_def)

theorem log_round_trip_witness:
  "let (lines, ch) = stamp_all toy_hmac json_text (new_chain ''k'') [toy_event ''a'', toy_event ''b''] in
    verify_log toy_hmac json_text json_read ''k'' (Some (log_text json_text lines)) =
      Inr \<lparr>vd_lines = 2, vd_failures = []\<rparr> \<and>
    resume_from json_read (Some (log_text json_text lines)) (new_chain ''k'') = Inr ch"
proof -
  obtain lines ch where s: "stamp_all toy_hmac json_text (new_chain ''k'') [toy_event ''a'', toy_event ''b''] = (lines, ch)"
    by fastforce
  have "verify_log toy_hmac json_text json_read ''k'' (Some (log_text json_text lines)) =
      Inr \<lparr>vd_lines = length [toy_event ''a'', toy_event ''b''], vd_failures = []\<rparr> \<and>
    resume_from json_read (Some (log_text json_text lines)) (new_chain ''k'') = Inr ch"
    by (rule log_round_trip [OF json_text_round_trip one_line_json_text _ _ _ s])
       (use num_literal_show_nat toy_events_ok [of "[''a'', ''b'']"] in simp_all)
  then show ?thesis unfolding Let_def s by simp
qed


end
