(* ===== verification/Generators.thy ===== *)
theory Generators
  imports Json "HOL-Library.Word"
begin

text \<open>
  Per-request header generators and fingerprints (\<open>src/src/surface/generators.rs\<close>): the clock in
  milliseconds, the random bytes and the fallback counter are arguments. \<open>iso8601_utc\<close> is proved against
  the Gregorian calendar.
\<close>

unbundle bit_operations_syntax

section \<open>FNV-1a\<close>

definition fnv1a :: "string \<Rightarrow> 64 word" where
  "fnv1a s = foldl (\<lambda>h b. (h XOR word_of_nat (byte b)) * 0x100000001b3) 0xcbf29ce484222325 s"

text \<open>\<open>{:016x}\<close>.\<close>

definition hex64 :: "64 word \<Rightarrow> string" where
  "hex64 w = map (\<lambda>i. hex_digit (unat (drop_bit (60 - 4 * i) w) mod 16)) [0..<16]"

definition tool_fingerprint :: "(json \<Rightarrow> string) \<Rightarrow> string \<Rightarrow> json \<Rightarrow> string" where
  "tool_fingerprint ser description schema = hex64 (fnv1a (description @ [CHR 0x00] @ ser schema))"

section \<open>UUIDs\<close>

definition le_bytes :: "64 word \<Rightarrow> nat list" where
  "le_bytes w = map (\<lambda>i. unat (drop_bit (8 * i) w) mod 256) [0..<8]"

text \<open>The counter mix used when the system's random source is unavailable.\<close>

definition fallback_bytes :: "nat \<Rightarrow> nat \<Rightarrow> nat list" where
  "fallback_bytes ms counter =
     (let n = word_of_nat counter * (0x9E3779B97F4A7C15 :: 64 word);
          mix = word_of_nat ms XOR n
      in le_bytes mix @ le_bytes (word_rotl 32 mix))"

definition with_version_bits :: "nat list \<Rightarrow> nat list" where
  "with_version_bits b = b[6 := (b ! 6) mod 16 + 64, 8 := (b ! 8) mod 64 + 128]"

definition hex_bytes :: "nat list \<Rightarrow> string" where
  "hex_bytes b = concat (map (\<lambda>x. [hex_digit (x div 16), hex_digit (x mod 16)]) b)"

definition gen_uuid :: "nat list option \<Rightarrow> nat \<Rightarrow> nat \<Rightarrow> string" where
  "gen_uuid random ms counter =
     (let b = with_version_bits (case random of Some b \<Rightarrow> b | None \<Rightarrow> fallback_bytes ms counter);
          h = hex_bytes b
      in take 8 h @ ''-'' @ take 4 (drop 8 h) @ ''-'' @ take 4 (drop 12 h) @ ''-'' @ take 4 (drop 16 h) @ ''-'' @ drop 20 h)"

section \<open>Dates\<close>

text \<open>Rust's division truncates toward zero.\<close>

definition trunc_div :: "int \<Rightarrow> int \<Rightarrow> int" where
  "trunc_div a b = (if 0 \<le> a then a div b else - ((- a) div b))"

text \<open>\<open>{:0w}\<close> of an integer.\<close>

definition pad_int :: "nat \<Rightarrow> int \<Rightarrow> string" where
  "pad_int w i =
     (let d = show_nat (nat \<bar>i\<bar>) in
      if 0 \<le> i then replicate (w - length d) (CHR ''0'') @ d
      else CHR ''-'' # replicate (w - 1 - length d) (CHR ''0'') @ d)"

record civil =
  cv_year :: int
  cv_month :: int
  cv_day :: int

definition civil_from_days :: "int \<Rightarrow> civil" where
  "civil_from_days days =
     (let z = days + 719468;
          era = trunc_div (if 0 \<le> z then z else z - 146096) 146097;
          doe = z - era * 146097;
          yoe = (doe - doe div 1460 + doe div 36524 - doe div 146096) div 365;
          y = yoe + era * 400;
          doy = doe - (365 * yoe + yoe div 4 - yoe div 100);
          mp = (5 * doy + 2) div 153;
          d = doy - (153 * mp + 2) div 5 + 1;
          m = (if mp < 10 then mp + 3 else mp - 9)
      in \<lparr>cv_year = (if m \<le> 2 then y + 1 else y), cv_month = m, cv_day = d\<rparr>)"

definition iso8601_utc :: "int \<Rightarrow> string" where
  "iso8601_utc secs =
     (let c = civil_from_days (secs div 86400); tod = secs mod 86400 in
      pad_int 4 (cv_year c) @ ''-'' @ pad_int 2 (cv_month c) @ ''-'' @ pad_int 2 (cv_day c) @ ''T'' @
      pad_int 2 (tod div 3600) @ '':'' @ pad_int 2 ((tod mod 3600) div 60) @ '':'' @ pad_int 2 (tod mod 60) @ ''Z'')"

section \<open>Header values\<close>

definition resolve_generators :: "string \<Rightarrow> nat \<Rightarrow> string \<Rightarrow> string \<Rightarrow> string" where
  "resolve_generators uuid now_ms s args_hash =
     (if \<not> contains_str s ''{{'' then s
      else
        (let out = replace_str ''{{hash}}'' args_hash s;
             out = replace_str ''{{uuid}}'' uuid out;
             out = replace_str ''{{now_ms}}'' (show_nat now_ms) out;
             out = replace_str ''{{now}}'' (show_nat (now_ms div 1000)) out
         in replace_str ''{{iso8601}}'' (iso8601_utc (int (now_ms div 1000))) out))"

section \<open>The calendar\<close>

definition leap_year :: "int \<Rightarrow> bool" where
  "leap_year y \<longleftrightarrow> y mod 4 = 0 \<and> (y mod 100 \<noteq> 0 \<or> y mod 400 = 0)"

definition days_in_month :: "int \<Rightarrow> int \<Rightarrow> int" where
  "days_in_month y m =
     (if m = 2 then if leap_year y then 29 else 28 else if m \<in> {4, 6, 9, 11} then 30 else 31)"

text \<open>Days from 1 January of year 1 to 1 January of year \<open>y\<close>, and to the first of a month.\<close>

definition days_before_year :: "int \<Rightarrow> int" where
  "days_before_year y = 365 * (y - 1) + (y - 1) div 4 - (y - 1) div 100 + (y - 1) div 400"

definition days_before_month :: "int \<Rightarrow> int \<Rightarrow> int" where
  "days_before_month y m = sum_list (map (days_in_month y) [1..m - 1])"

definition days_since_epoch :: "int \<Rightarrow> int \<Rightarrow> int \<Rightarrow> int" where
  "days_since_epoch y m d =
     days_before_year y + days_before_month y m + (d - 1) - days_before_year 1970"

lemma div_pred: "0 < k \<Longrightarrow> y div k = (y - 1) div k + (if y mod k = 0 then 1 else 0)" for y k :: int
proof -
  assume k: "0 < k"
  have y: "y = k * (y div k) + y mod k" "0 \<le> y mod k" "y mod k < k" using k by simp_all
  show ?thesis
  proof (cases "y mod k = 0")
    case True
    then have "y - 1 = k * (y div k - 1) + (k - 1)" using y(1) by (simp add: algebra_simps)
    then have "(y - 1) div k = y div k - 1" using int_div_pos_eq [of "y - 1" k "y div k - 1" "k - 1"] k by simp
    with True show ?thesis by simp
  next
    case False
    then have "y - 1 = k * (y div k) + (y mod k - 1)" "0 \<le> y mod k - 1" "y mod k - 1 < k" using y by auto
    then have "(y - 1) div k = y div k" by (rule int_div_pos_eq)
    with False show ?thesis by simp
  qed
qed

lemma leap_count:
  fixes y a b c a' b' c' :: int
  assumes "c100 \<Longrightarrow> c4" "c400 \<Longrightarrow> c100" "a' = a + (if c4 then 1 else 0)" "b' = b + (if c100 then 1 else 0)"
    "c' = c + (if c400 then 1 else 0)"
  shows "365 * y + a' - b' + c' = 365 * (y - 1) + a - b + c + (if c4 \<and> (\<not> c100 \<or> c400) then 366 else 365)"
proof (cases c4)
  case True
  with assms show ?thesis by (cases c100; cases c400) simp_all
next
  case False
  with assms have "\<not> c100" "\<not> c400" by blast+
  with False assms(3-) show ?thesis by simp
qed

lemma days_before_year_step: "days_before_year (y + 1) = days_before_year y + (if leap_year y then 366 else 365)"
proof -
  have "y mod 100 = 0 \<Longrightarrow> y mod 4 = 0" "y mod 400 = 0 \<Longrightarrow> y mod 100 = 0"
    using dvd_trans [of 4 100 y] dvd_trans [of 100 400 y] by (simp_all add: dvd_eq_mod_eq_0)
  from leap_count [OF this div_pred [OF zero_less_numeral] div_pred [OF zero_less_numeral] div_pred [OF zero_less_numeral]]
  show ?thesis unfolding days_before_year_def leap_year_def add_diff_cancel_right' .
qed

lemma days_before_month_table:
  "days_before_month y 1 = 0" "days_before_month y 2 = 31"
  "days_before_month y 3 = 59 + (if leap_year y then 1 else 0)"
  "days_before_month y 4 = 90 + (if leap_year y then 1 else 0)"
  "days_before_month y 5 = 120 + (if leap_year y then 1 else 0)"
  "days_before_month y 6 = 151 + (if leap_year y then 1 else 0)"
  "days_before_month y 7 = 181 + (if leap_year y then 1 else 0)"
  "days_before_month y 8 = 212 + (if leap_year y then 1 else 0)"
  "days_before_month y 9 = 243 + (if leap_year y then 1 else 0)"
  "days_before_month y 10 = 273 + (if leap_year y then 1 else 0)"
  "days_before_month y 11 = 304 + (if leap_year y then 1 else 0)"
  "days_before_month y 12 = 334 + (if leap_year y then 1 else 0)"
  by (simp_all add: days_before_month_def days_in_month_def upto_rec1)

section \<open>Years of an era\<close>

text \<open>An era is 400 years from 1 March; \<open>era_start y\<close> its day on which year \<open>y\<close> begins.\<close>

definition era_start :: "int \<Rightarrow> int" where
  "era_start y = 365 * y + y div 4 - y div 100 + y div 400"

definition year_quotient :: "int \<Rightarrow> int" where
  "year_quotient doe = doe - doe div 1460 + doe div 36524 - doe div 146096"

lemma minus_div_mono: "0 < k \<Longrightarrow> a \<le> b \<Longrightarrow> a - a div k \<le> b - b div k" for a b k :: int
proof -
  assume k: "0 < k" and ab: "a \<le> b"
  have "(b - a) * 1 \<le> (b - a) * k" using k ab by (intro mult_left_mono) simp_all
  then have "b div k \<le> (a + (b - a) * k) div k" using k by (intro zdiv_mono1) simp_all
  also have "\<dots> = a div k + (b - a)" using k by simp
  finally show ?thesis by simp
qed

lemma year_quotient_mono: "a \<le> b \<Longrightarrow> year_quotient a \<le> year_quotient b"
proof -
  assume ab: "a \<le> b"
  have e: "x div 146096 = x div 36524 div 4" for x :: int by (simp add: zdiv_zmult2_eq [symmetric])
  have "a - a div 1460 \<le> b - b div 1460" using ab by (intro minus_div_mono) simp_all
  moreover have "a div 36524 - a div 36524 div 4 \<le> b div 36524 - b div 36524 div 4"
    using ab by (intro minus_div_mono) (simp_all add: zdiv_mono1)
  ultimately show ?thesis unfolding year_quotient_def e by linarith
qed

lemma year_quotient_ends:
  "list_all (\<lambda>y. 365 * y \<le> year_quotient (era_start y) \<and> year_quotient (era_start (y + 1) - 1) \<le> 365 * y + 364) [0..399]"
  by code_simp

lemma era_start_0: "era_start 0 = 0" "era_start 400 = 146097"
  by (simp_all add: era_start_def)

lemma era_year_ex: "0 \<le> doe \<Longrightarrow> doe < era_start (int n) \<Longrightarrow>
    \<exists>y. 0 \<le> y \<and> y < int n \<and> era_start y \<le> doe \<and> doe < era_start (y + 1)"
proof (induction n)
  case (Suc n)
  show ?case
  proof (cases "doe < era_start (int n)")
    case True
    with Suc obtain y where "0 \<le> y \<and> y < int n \<and> era_start y \<le> doe \<and> doe < era_start (y + 1)" by blast
    then show ?thesis by auto
  next
    case False
    with Suc.prems show ?thesis by (intro exI [of _ "int n"]) (simp add: add.commute)
  qed
qed (simp add: era_start_0)

lemma era_year:
  assumes "0 \<le> doe" "doe < 146097"
  shows "let y = year_quotient doe div 365 in 0 \<le> y \<and> y < 400 \<and> era_start y \<le> doe \<and> doe < era_start (y + 1)"
proof -
  have "doe < era_start (int 400)" using assms(2) by (simp add: era_start_0)
  from era_year_ex [OF assms(1) this] obtain y where
    y: "0 \<le> y" "y < 400" "era_start y \<le> doe" "doe < era_start (y + 1)" by auto
  have "y \<in> set [0..399]" using y(1,2) by simp
  with year_quotient_ends have "365 * y \<le> year_quotient (era_start y)" "year_quotient (era_start (y + 1) - 1) \<le> 365 * y + 364"
    unfolding list_all_iff by blast+
  moreover have "year_quotient (era_start y) \<le> year_quotient doe" "year_quotient doe \<le> year_quotient (era_start (y + 1) - 1)"
    using year_quotient_mono y(3,4) by simp_all
  ultimately have "year_quotient doe div 365 = y"
    by (intro int_div_pos_eq [of _ _ _ "year_quotient doe - 365 * y"]) linarith+
  with y show ?thesis by (simp add: Let_def)
qed

lemma days_before_year_era: "days_before_year (y + 1 + 400 * e) = 146097 * e + era_start y"
proof -
  have "(y + 400 * e) div 4 = y div 4 + 100 * e" "(y + 400 * e) div 100 = y div 100 + 4 * e"
    "(y + 400 * e) div 400 = y div 400 + e"
    using div_mult_self1 [of 4 y "100 * e"] div_mult_self1 [of 100 y "4 * e"] div_mult_self1 [of 400 y e]
    by (simp_all add: algebra_simps)
  moreover have "y + 1 + 400 * e - 1 = y + 400 * e" by simp
  ultimately show ?thesis unfolding days_before_year_def era_start_def by (simp only: algebra_simps) simp
qed

lemma months_of_march_year:
  "list_all (\<lambda>doy. let mp = (5 * doy + 2) div 153 in mp \<in> set [0..11] \<and>
     (153 * mp + 2) div 5 \<le> doy \<and> (mp < 11 \<longrightarrow> doy < (153 * (mp + 1) + 2) div 5)) ([0..365] :: int list)"
  by code_simp

lemma month_ends:
  "mp \<in> set [0..11 :: int] \<Longrightarrow> (if mp < 10 then days_before_month Y (mp + 3) = 59 + (if leap_year Y then 1 else 0) + (153 * mp + 2) div 5
     else days_before_month (Y + 1) (mp - 9) = (153 * mp + 2) div 5 - 306) \<and>
   (mp < 11 \<longrightarrow> (153 * (mp + 1) + 2) div 5 - (153 * mp + 2) div 5 =
      days_in_month (if mp < 10 then Y else Y + 1) (if mp < 10 then mp + 3 else mp - 9))"
  by (auto simp: upto_rec1 days_before_month_table days_in_month_def)

text \<open>The truncating division of the code is the floor, before the era 0 too.\<close>

lemma era_floor: "trunc_div (if 0 \<le> z then z else z - 146096) 146097 = z div (146097 :: int)"
proof (cases "0 \<le> z")
  case False
  have "- (z - 146096) = 146097 * (- (z div 146097)) + (146096 - z mod 146097)"
    using mult_div_mod_eq [of 146097 z] by linarith
  moreover have "0 \<le> 146096 - z mod 146097" "146096 - z mod 146097 < 146097"
    using pos_mod_bound [of 146097 z] pos_mod_sign [of 146097 z] by simp_all
  ultimately have "- (z - 146096) div 146097 = - (z div 146097)" by (rule int_div_pos_eq)
  with False show ?thesis by (simp add: trunc_div_def)
qed (simp add: trunc_div_def)

lemma day_in_month:
  assumes "mp \<in> set [0..11 :: int]" "mp < 11 \<Longrightarrow> doy < (153 * (mp + 1) + 2) div 5" "doy < (if leap_year (Y + 1) then 366 else 365)"
  shows "doy < (153 * mp + 2) div 5 + days_in_month (if mp < 10 then Y else Y + 1) (if mp < 10 then mp + 3 else mp - 9)"
proof (cases "mp = 11")
  case True
  with assms(3) show ?thesis by (simp add: days_in_month_def split: if_splits)
next
  case False
  then have "mp < 11" using assms(1) by simp
  with assms(2) month_ends [OF assms(1), of Y] show ?thesis by linarith
qed

lemma civil_from_days_gregorian:
  "let c = civil_from_days days in 1 \<le> cv_month c \<and> cv_month c \<le> 12 \<and>
    1 \<le> cv_day c \<and> cv_day c \<le> days_in_month (cv_year c) (cv_month c) \<and>
    days_since_epoch (cv_year c) (cv_month c) (cv_day c) = days"
proof -
  define z where "z = days + 719468"
  define era where "era = trunc_div (if 0 \<le> z then z else z - 146096) 146097"
  define doe where "doe = z - era * 146097"
  have era: "era = z div 146097" unfolding era_def by (rule era_floor)
  have doe: "doe = z mod 146097" by (simp add: doe_def era minus_div_mult_eq_mod)
  then have doe_bounds: "0 \<le> doe" "doe < 146097" by simp_all
  define yoe where "yoe = year_quotient doe div 365"
  note yoe = era_year [OF doe_bounds, folded yoe_def, unfolded Let_def]
  define Y where "Y = yoe + era * 400"
  define doy where "doy = doe - era_start yoe"
  have es: "era_start yoe = 365 * yoe + yoe div 4 - yoe div 100" using yoe by (simp add: era_start_def)
  have e1: "days_before_year (Y + 1) = 146097 * era + era_start yoe"
    using days_before_year_era [of yoe era] by (simp add: Y_def algebra_simps)
  have e2: "days_before_year (Y + 1 + 1) = 146097 * era + era_start (yoe + 1)"
    using days_before_year_era [of "yoe + 1" era] by (simp add: Y_def algebra_simps)
  have doy: "0 \<le> doy" "doy < (if leap_year (Y + 1) then 366 else 365)"
    using yoe days_before_year_step [of "Y + 1"] e1 e2 by (auto simp: doy_def)
  have days: "days = days_before_year (Y + 1) + doy - 719468"
    unfolding e1 doy_def doe_def z_def by simp
  define mp where "mp = (5 * doy + 2) div 153"
  define cum where "cum = (153 * mp + 2) div 5"
  have "doy \<in> set [0..365]" using doy by (auto split: if_splits)
  with months_of_march_year have mp: "mp \<in> set [0..11]" "cum \<le> doy" "mp < 11 \<Longrightarrow> doy < (153 * (mp + 1) + 2) div 5"
    unfolding list_all_iff mp_def cum_def Let_def by blast+
  note ends = month_ends [OF mp(1), of Y, folded cum_def]
  have c: "civil_from_days days = \<lparr>cv_year = (if mp < 10 then Y else Y + 1),
      cv_month = (if mp < 10 then mp + 3 else mp - 9), cv_day = doy - cum + 1\<rparr>"
    using mp(1)
    unfolding civil_from_days_def Let_def z_def [symmetric] era_def [symmetric] doe_def [symmetric]
      year_quotient_def [symmetric] yoe_def [symmetric] es [symmetric] doy_def [symmetric] mp_def [symmetric]
      cum_def [symmetric] Y_def [symmetric]
    by auto
  have e70: "days_before_year 1970 = 719162" by (simp add: days_before_year_def)
  have "doy < cum + days_in_month (if mp < 10 then Y else Y + 1) (if mp < 10 then mp + 3 else mp - 9)"
    unfolding cum_def by (rule day_in_month [OF mp(1,3) doy(2)])
  then show ?thesis
    using mp(1,2) ends days days_before_year_step [of Y] e70 c
    by (cases "mp < 10") (auto simp: Let_def days_since_epoch_def)
qed

lemma clock_split:
  fixes tod h r mi s :: int
  assumes "tod = 3600 * h + r" "0 \<le> r" "r < 3600" "r = 60 * mi + s" "0 \<le> s" "s < 60" "0 \<le> tod" "tod < 86400"
  shows "0 \<le> h \<and> h < 24 \<and> 0 \<le> mi \<and> mi < 60 \<and> 0 \<le> s \<and> s < 60 \<and> tod = 3600 * h + 60 * mi + s"
  using assms by auto

text \<open>C35: the timestamp generator prints the Gregorian UTC date and time of any number of seconds, before
  or after 1970: the printed year, month and day are a real date of the calendar, the time of day is in
  range, and together they name exactly that second.\<close>

theorem iso8601_gregorian:
  "\<exists>y m d h mi s. iso8601_utc secs = pad_int 4 y @ ''-'' @ pad_int 2 m @ ''-'' @ pad_int 2 d @ ''T'' @
      pad_int 2 h @ '':'' @ pad_int 2 mi @ '':'' @ pad_int 2 s @ ''Z'' \<and>
    1 \<le> m \<and> m \<le> 12 \<and> 1 \<le> d \<and> d \<le> days_in_month y m \<and>
    0 \<le> h \<and> h < 24 \<and> 0 \<le> mi \<and> mi < 60 \<and> 0 \<le> s \<and> s < 60 \<and>
    secs = 86400 * days_since_epoch y m d + 3600 * h + 60 * mi + s"
proof -
  define tod where "tod = secs mod 86400"
  have tod: "0 \<le> tod" "tod < 86400" by (simp_all add: tod_def)
  let ?c = "civil_from_days (secs div 86400)"
  have secs: "secs = 86400 * (secs div 86400) + tod" by (simp add: tod_def)
  have t: "0 \<le> tod div 3600 \<and> tod div 3600 < 24 \<and> 0 \<le> (tod mod 3600) div 60 \<and> (tod mod 3600) div 60 < 60 \<and>
      0 \<le> tod mod 60 \<and> tod mod 60 < 60 \<and> tod = 3600 * (tod div 3600) + 60 * ((tod mod 3600) div 60) + tod mod 60"
  proof -
    have r: "tod mod 60 = tod mod 3600 mod 60" by (simp add: mod_mod_cancel)
    have "tod = 3600 * (tod div 3600) + tod mod 3600" by simp
    from clock_split [OF this _ _ _ _ _ tod, of "tod mod 3600 div 60" "tod mod 3600 mod 60"]
    show ?thesis unfolding r by simp
  qed
  have i: "iso8601_utc secs = pad_int 4 (cv_year ?c) @ ''-'' @ pad_int 2 (cv_month ?c) @ ''-'' @ pad_int 2 (cv_day ?c) @ ''T'' @
      pad_int 2 (tod div 3600) @ '':'' @ pad_int 2 ((tod mod 3600) div 60) @ '':'' @ pad_int 2 (tod mod 60) @ ''Z''"
    by (simp add: iso8601_utc_def Let_def tod_def)
  note c = civil_from_days_gregorian [of "secs div 86400", unfolded Let_def]
  show ?thesis
    by (rule exI [of _ "cv_year ?c"], rule exI [of _ "cv_month ?c"], rule exI [of _ "cv_day ?c"],
        rule exI [of _ "tod div 3600"], rule exI [of _ "(tod mod 3600) div 60"], rule exI [of _ "tod mod 60"])
       (use i c t secs in auto)
qed

end
