(* ===== verification/Redirect.thy ===== *)
theory Redirect
  imports Prelude
begin

text \<open>
  The redirect policy of every client that carries a credential (\<open>src/src/redirect.rs\<close>). A URL is what
  the policy reads of it: scheme, host and explicit port; \<open>known_port\<close> is the URL library's table of
  default ports. A client run is the list of locations the server answers with, one per hop.
\<close>

record url =
  url_scheme :: string
  url_host :: "string option"
  url_port :: "nat option"

definition max_hops :: nat where
  "max_hops = 10"

definition port_or_known_default :: "(string \<Rightarrow> nat option) \<Rightarrow> url \<Rightarrow> nat option" where
  "port_or_known_default known_port u = (case url_port u of Some p \<Rightarrow> Some p | None \<Rightarrow> known_port (url_scheme u))"

definition redirect_allowed :: "(string \<Rightarrow> nat option) \<Rightarrow> url \<Rightarrow> url \<Rightarrow> bool" where
  "redirect_allowed known_port from to \<longleftrightarrow>
     (if url_host from \<noteq> url_host to then False
      else
        (let same = url_scheme from = url_scheme to \<and>
               port_or_known_default known_port from = port_or_known_default known_port to;
             upgrade = url_scheme from = ''http'' \<and> url_scheme to = ''https'' \<and> url_port from = None \<and> url_port to = None
         in same \<or> upgrade))"

definition url_origin :: "(string \<Rightarrow> nat option) \<Rightarrow> url \<Rightarrow> string" where
  "url_origin known_port u =
     (let host = (case url_host u of Some h \<Rightarrow> h | None \<Rightarrow> []) in
      case port_or_known_default known_port u of
        Some p \<Rightarrow> url_scheme u @ ''://'' @ host @ '':'' @ show_nat p
      | None \<Rightarrow> url_scheme u @ ''://'' @ host)"

datatype redirect_action = Follow | Stop | Refuse string

text \<open>\<open>previous\<close> are the URLs requested so far, the first one first.\<close>

definition decide :: "(string \<Rightarrow> nat option) \<Rightarrow> url list \<Rightarrow> url \<Rightarrow> redirect_action" where
  "decide known_port previous to =
     (case previous of
        [] \<Rightarrow> Stop
      | start # _ \<Rightarrow>
          if length previous > max_hops then Refuse (''too many redirects (over '' @ show_nat max_hops @ '')'')
          else if redirect_allowed known_port start to then Follow
          else Refuse (''refused redirect from '' @ url_origin known_port start @ '' to '' @ url_origin known_port to @
            '': a redirect off the configured origin would carry credentials''))"

section \<open>A client following redirects\<close>

fun requests :: "(string \<Rightarrow> nat option) \<Rightarrow> url list \<Rightarrow> url list \<Rightarrow> url list" where
  "requests known_port previous [] = previous"
| "requests known_port previous (to # locations) =
     (if decide known_port previous to = Follow then requests known_port (previous @ [to]) locations else previous)"

definition trusted_from :: "(string \<Rightarrow> nat option) \<Rightarrow> url \<Rightarrow> url \<Rightarrow> bool" where
  "trusted_from known_port start u \<longleftrightarrow> url_host u = url_host start \<and>
     ((url_scheme u = url_scheme start \<and> port_or_known_default known_port u = port_or_known_default known_port start) \<or>
      (url_scheme start = ''http'' \<and> url_scheme u = ''https'' \<and> url_port start = None \<and> url_port u = None))"

lemma requests_trusted:
  "previous = start # rest \<Longrightarrow> \<forall>u \<in> set previous. trusted_from known_port start u \<Longrightarrow> length previous \<le> Suc max_hops \<Longrightarrow>
    (\<forall>u \<in> set (requests known_port previous locations). trusted_from known_port start u) \<and>
    length (requests known_port previous locations) \<le> Suc max_hops"
proof (induction locations arbitrary: previous rest)
  case (Cons to locations)
  show ?case
  proof (cases "decide known_port previous to = Follow")
    case True
    then have "length previous \<le> max_hops" "trusted_from known_port start to"
      using Cons.prems(1)
      by (auto simp: decide_def redirect_allowed_def trusted_from_def Let_def split: if_splits)
    then have "(\<forall>u \<in> set (requests known_port (previous @ [to]) locations). trusted_from known_port start u) \<and>
        length (requests known_port (previous @ [to]) locations) \<le> Suc max_hops"
      using Cons.prems by (intro Cons.IH) auto
    with True show ?thesis by simp
  qed (use Cons.prems in simp)
qed simp

text \<open>C23: credentials stay where they were sent. Whatever locations servers answer with, every request of
  a client goes to the host it started at, on the same scheme and port or from plain http to https at the
  default ports, never back from https, and there are at most eleven requests.\<close>

theorem redirects_stay_home:
  shows "list_all (trusted_from known_port start) (requests known_port [start] locations) \<and>
    list_all (\<lambda>u. \<not> (url_scheme start = ''https'' \<and> url_scheme u \<noteq> ''https'')) (requests known_port [start] locations) \<and>
    length (requests known_port [start] locations) \<le> 11"
proof -
  have "trusted_from known_port start start" by (simp add: trusted_from_def)
  then have "\<forall>u \<in> set [start]. trusted_from known_port start u" by simp
  from requests_trusted [OF refl this, of locations]
  have r: "\<forall>u \<in> set (requests known_port [start] locations). trusted_from known_port start u"
      "length (requests known_port [start] locations) \<le> Suc max_hops"
    by simp_all
  have "\<not> (url_scheme start = ''https'' \<and> url_scheme u \<noteq> ''https'')" if "trusted_from known_port start u" for u
  proof
    assume a: "url_scheme start = ''https'' \<and> url_scheme u \<noteq> ''https''"
    then have "url_scheme start \<noteq> ''http''" by simp
    with that have "url_scheme u = url_scheme start" unfolding trusted_from_def by blast
    with a show False by simp
  qed
  with r have "\<forall>u \<in> set (requests known_port [start] locations). \<not> (url_scheme start = ''https'' \<and> url_scheme u \<noteq> ''https'')"
    by blast
  with r show ?thesis unfolding list_all_iff max_hops_def by simp
qed

end
