(* ===== verification/Catalog.thy ===== *)
theory Catalog
  imports Patch Lint Generators "HOL-Library.List_Lexorder" "HOL-Library.Char_ord"
begin

text \<open>
  The catalog (\<open>src/src/surface/catalog.rs\<close>): everything derived from the upstreams' tool listings, the
  checks it must pass to be served (\<open>vet\<close> in \<open>src/src/surface.rs\<close>, \<open>broken_bindings_in\<close> and
  \<open>poisoned_in\<close> in \<open>src/src/surface/audit.rs\<close>), and re-indexing when an upstream's tools change.
  Parameters: \<open>lower\<close> (Unicode lowercase), \<open>ser\<close> (the JSON printer), \<open>expand\<close> (a secret template's
  value), and the upstreams themselves: the resolved schema of a spec operation, and what a listing
  request answers.
\<close>

section \<open>The upstreams as the catalog sees them\<close>

datatype backend_kind = BK_Mcp | BK_Http | BK_Spec

record upstream =
  us_name :: string
  us_kind :: backend_kind
  us_resolved :: "string \<Rightarrow> json option"
  us_origin :: "string \<Rightarrow> string"

datatype 'e catalog_error =
    SecretFailed 'e
  | BindingsBroken "(string \<times> string list) list"
  | PoisonedTools "(string \<times> string list) list"

record catalog =
  ct_tools :: "tool_def list"
  ct_by_id :: "(string \<times> nat) list"
  ct_exposed :: "(string \<times> string) list"
  ct_origin_sha :: "(string \<times> string) list"
  ct_patched_schemas :: "(string \<times> json) list"
  ct_tool_headers :: "(string \<times> (string \<times> string) list) list"
  ct_user_supplied :: "(string \<times> (string \<times> string) list) list"
  ct_listings :: "tool_def list list"

definition cat_def :: "catalog \<Rightarrow> string \<Rightarrow> tool_def option" where
  "cat_def cat tool_id = map_option (\<lambda>i. ct_tools cat ! i) (map_of (ct_by_id cat) tool_id)"

section \<open>Assembling\<close>

definition user_supplied_fields :: "(string \<times> field_patch) list \<Rightarrow> (string \<times> string) list" where
  "user_supplied_fields fs =
     List.map_filter (\<lambda>(path, patch). map_option (\<lambda>s. (path, s)) (fs_user_supplied (patch_spec patch))) fs"

fun expand_headers :: "(string \<Rightarrow> 'e + string) \<Rightarrow> (string \<times> string) list \<Rightarrow> 'e + (string \<times> string) list" where
  "expand_headers expand [] = Inr []"
| "expand_headers expand ((k, v) # hs) =
     (case expand v of
        Inl e \<Rightarrow> Inl e
      | Inr x \<Rightarrow> (case expand_headers expand hs of Inl e \<Rightarrow> Inl e | Inr r \<Rightarrow> Inr ((k, x) # r)))"

text \<open>The overlay of one tool: its description, its patched schema and injected fields, its headers.\<close>

definition put_headers :: "(string \<Rightarrow> 'e + string) \<Rightarrow> overlay \<Rightarrow> string \<Rightarrow> catalog \<Rightarrow> 'e + catalog" where
  "put_headers expand ov tool_id cat =
     (if ov_headers ov = [] then Inr cat
      else (case expand_headers expand (ov_headers ov) of
          Inl e \<Rightarrow> Inl e
        | Inr hs \<Rightarrow> Inr (cat\<lparr>ct_tool_headers := alist_put tool_id hs (ct_tool_headers cat)\<rparr>)))"

definition put_patches :: "upstream \<Rightarrow> overlay \<Rightarrow> tool_def \<Rightarrow> catalog \<Rightarrow> catalog" where
  "put_patches up ov t cat =
     (if ov_fields ov = [] then cat
      else
        (let schema = (case us_resolved up (td_name t) of Some s \<Rightarrow> s | None \<Rightarrow> td_input_schema t);
             cat = cat\<lparr>ct_patched_schemas :=
               alist_put (td_id t) (apply_field_patches (ov_fields ov) schema) (ct_patched_schemas cat)\<rparr>;
             us = user_supplied_fields (ov_fields ov)
         in if us = [] then cat
            else cat\<lparr>ct_user_supplied := alist_put (td_id t) us (ct_user_supplied cat)\<rparr>))"

definition add_tool ::
  "(json \<Rightarrow> string) \<Rightarrow> (string \<Rightarrow> 'e + string) \<Rightarrow> config \<Rightarrow> upstream \<Rightarrow> tool_def \<Rightarrow> catalog \<Rightarrow> 'e + catalog" where
  "add_tool ser expand cfg up t cat =
     (if \<not> passes_filter cfg (us_name up) (td_id t) then Inr cat
      else
        (let cat = cat\<lparr>ct_origin_sha :=
               alist_put (td_id t) (tool_fingerprint ser (td_description t) (td_input_schema t)) (ct_origin_sha cat)\<rparr>;
             push = (\<lambda>t cat. cat\<lparr>ct_by_id := alist_put (td_id t) (length (ct_tools cat)) (ct_by_id cat),
               ct_tools := ct_tools cat @ [t]\<rparr>)
         in case overlay_for cfg (td_id t) of
              None \<Rightarrow> Inr (push t cat)
            | Some ov \<Rightarrow>
                (let t = (case ov_description ov of Some d \<Rightarrow> t\<lparr>td_description := d\<rparr> | None \<Rightarrow> t) in
                 map_sum id (push t) (put_headers expand ov (td_id t) (put_patches up ov t cat)))))"

fun add_tools ::
  "(json \<Rightarrow> string) \<Rightarrow> (string \<Rightarrow> 'e + string) \<Rightarrow> config \<Rightarrow> (upstream \<times> tool_def) list \<Rightarrow> catalog \<Rightarrow> 'e + catalog" where
  "add_tools ser expand cfg [] cat = Inr cat"
| "add_tools ser expand cfg ((up, t) # ts) cat =
     (case add_tool ser expand cfg up t cat of
        Inl e \<Rightarrow> Inl e | Inr cat \<Rightarrow> add_tools ser expand cfg ts cat)"

definition empty_catalog :: catalog where
  "empty_catalog = \<lparr>ct_tools = [], ct_by_id = [], ct_exposed = [], ct_origin_sha = [], ct_patched_schemas = [],
     ct_tool_headers = [], ct_user_supplied = [], ct_listings = []\<rparr>"

definition listed_tools :: "upstream list \<Rightarrow> tool_def list list \<Rightarrow> (upstream \<times> tool_def) list" where
  "listed_tools ups listings = concat (map (\<lambda>(up, listed). map (\<lambda>t. (up, t)) listed) (zip ups listings))"

text \<open>The exposed names are a \<open>BTreeMap\<close>: iterated in the order of the names.\<close>

definition assemble ::
  "(json \<Rightarrow> string) \<Rightarrow> (string \<Rightarrow> 'e + string) \<Rightarrow> config \<Rightarrow> upstream list \<Rightarrow> tool_def list list \<Rightarrow> 'e catalog_error + catalog" where
  "assemble ser expand cfg ups listings =
     (case add_tools ser expand cfg (listed_tools ups listings) empty_catalog of
        Inl e \<Rightarrow> Inl (SecretFailed e)
      | Inr cat \<Rightarrow> Inr (cat\<lparr>ct_exposed := sort_key fst (exposed_names (c_mode cfg) (ct_tools cat)),
          ct_listings := listings\<rparr>))"

section \<open>Schemas\<close>

definition raw_resolved :: "upstream list \<Rightarrow> tool_def \<Rightarrow> json" where
  "raw_resolved ups t =
     (case (if td_upstream_idx t < length ups then us_resolved (ups ! td_upstream_idx t) (td_name t) else None) of
        Some s \<Rightarrow> s | None \<Rightarrow> td_input_schema t)"

definition resolved_schema :: "upstream list \<Rightarrow> catalog \<Rightarrow> tool_def \<Rightarrow> json" where
  "resolved_schema ups cat t =
     (case map_of (ct_patched_schemas cat) (td_id t) of Some p \<Rightarrow> p | None \<Rightarrow> raw_resolved ups t)"

definition max_cached_schema_bytes :: nat where
  "max_cached_schema_bytes = 64000"

text \<open>The memo of a catalog, and the lookup the code performs with it.\<close>

definition resolved_schema_memo ::
  "(json \<Rightarrow> string) \<Rightarrow> upstream list \<Rightarrow> catalog \<Rightarrow> tool_def \<Rightarrow> (string \<times> json) list \<Rightarrow> json \<times> (string \<times> json) list" where
  "resolved_schema_memo ser ups cat t memo =
     (case map_of (ct_patched_schemas cat) (td_id t) of
        Some p \<Rightarrow> (p, memo)
      | None \<Rightarrow> (case map_of memo (td_id t) of
          Some c \<Rightarrow> (c, memo)
        | None \<Rightarrow>
            (let v = raw_resolved ups t in
             (v, if length (ser v) \<le> max_cached_schema_bytes then alist_put (td_id t) v memo else memo))))"

section \<open>The checks\<close>

definition broken_bindings_in :: "config \<Rightarrow> upstream list \<Rightarrow> catalog \<Rightarrow> (string \<times> string list \<times> binding_strength) list" where
  "broken_bindings_in cfg ups cat =
     List.map_filter (\<lambda>ov.
       let live = (case map_of (ct_origin_sha cat) (ov_tool ov) of Some s \<Rightarrow> s | None \<Rightarrow> []) in
       case binding_status ov (map_option (raw_resolved ups) (cat_def cat (ov_tool ov))) live of
         (status, reasons) \<Rightarrow>
           if status = BBroken then Some (ov_tool ov, reasons, strength ov (c_binding_policy cfg)) else None)
       (c_overlays cfg)"

definition poisoned_in :: "(string \<Rightarrow> string) \<Rightarrow> catalog \<Rightarrow> (string \<times> string list) list" where
  "poisoned_in lower cat =
     List.map_filter (\<lambda>t. let fired = poisoning lower (td_name t) (td_description t) in
       if fired = [] then None else Some (td_id t, fired)) (ct_tools cat)"

definition vet :: "(string \<Rightarrow> string) \<Rightarrow> config \<Rightarrow> upstream list \<Rightarrow> catalog \<Rightarrow> 'e catalog_error + unit" where
  "vet lower cfg ups cat =
     (let strong = filter (\<lambda>(_, _, s). s = Strong) (broken_bindings_in cfg ups cat) in
      if strong \<noteq> [] then Inl (BindingsBroken (map (\<lambda>(t, why, _). (t, why)) strong))
      else if c_poisoning_policy cfg = PP_Strict \<and> poisoned_in lower cat \<noteq> []
      then Inl (PoisonedTools (poisoned_in lower cat))
      else Inr ())"

section \<open>Re-indexing\<close>

definition min_recheck :: nat where
  "min_recheck = 10 * 1000000000"

definition max_recheck :: nat where
  "max_recheck = 24 * 60 * 60 * 1000000000"

definition retry_after_failure :: nat where
  "retry_after_failure = 30 * 1000000000"

definition recheck_time :: "nat \<Rightarrow> nat option \<Rightarrow> nat option" where
  "recheck_time now ttl_ms = map_option (\<lambda>ms. now + min max_recheck (max min_recheck (ms * 1000000))) ttl_ms"

definition schedule_recheck :: "nat \<Rightarrow> nat \<Rightarrow> nat option \<Rightarrow> nat option list \<Rightarrow> nat option list" where
  "schedule_recheck now idx ttl_ms recheck = recheck[idx := recheck_time now ttl_ms]"

definition retry_later :: "nat \<Rightarrow> nat \<Rightarrow> nat option list \<Rightarrow> nat option list" where
  "retry_later now idx recheck = recheck[idx := Some (now + retry_after_failure)]"

definition due :: "nat \<Rightarrow> bool list \<Rightarrow> nat option list \<Rightarrow> nat list" where
  "due now stale recheck =
     filter (\<lambda>i. stale ! i \<or>
       (i < length recheck \<and> (case recheck ! i of Some at \<Rightarrow> at \<le> now | None \<Rightarrow> False))) [0..<length stale]"

definition listing_fingerprint :: "(json \<Rightarrow> string) \<Rightarrow> tool_def list \<Rightarrow> (string \<times> string) list" where
  "listing_fingerprint ser tools =
     sort (map (\<lambda>t. (td_id t, tool_fingerprint ser (td_description t) (td_input_schema t))) tools)"

text \<open>Re-listing the upstreams that are due: \<open>relist\<close> is what each one answers, its tools and their \<open>ttlMs\<close>,
  or \<open>None\<close> on a failure. The flags are cleared before the listing.\<close>

fun relist_due ::
  "(json \<Rightarrow> string) \<Rightarrow> (nat \<Rightarrow> (tool_def list \<times> nat option) option) \<Rightarrow> nat \<Rightarrow> tool_def list list \<Rightarrow> nat list
    \<Rightarrow> bool list \<Rightarrow> nat option list \<Rightarrow> (nat \<times> tool_def list) list \<times> bool list \<times> nat option list" where
  "relist_due ser relist now listings [] stale recheck = ([], stale, recheck)"
| "relist_due ser relist now listings (idx # idxs) stale recheck =
     (let stale = stale[idx := False] in
      case relist idx of
        None \<Rightarrow> relist_due ser relist now listings idxs stale (retry_later now idx recheck)
      | Some (listed, ttl) \<Rightarrow>
          (case relist_due ser relist now listings idxs stale (schedule_recheck now idx ttl recheck) of
             (fresh, stale, recheck) \<Rightarrow>
               (if listing_fingerprint ser listed \<noteq> listing_fingerprint ser (listings ! idx)
                then (idx, listed) # fresh else fresh, stale, recheck)))"

text \<open>One change at a time, each on top of the last accepted.\<close>

fun accept_changes ::
  "(tool_def list list \<Rightarrow> 'e catalog_error + catalog) \<Rightarrow> nat \<Rightarrow> catalog \<Rightarrow> catalog option \<Rightarrow> (nat \<times> tool_def list) list
    \<Rightarrow> nat option list \<Rightarrow> catalog option \<times> nat option list" where
  "accept_changes build now current accepted [] recheck = (accepted, recheck)"
| "accept_changes build now current accepted ((idx, listed) # fresh) recheck =
     (let base = (case accepted of Some c \<Rightarrow> c | None \<Rightarrow> current) in
      case build ((ct_listings base)[idx := listed]) of
        Inr c \<Rightarrow> accept_changes build now current (Some c) fresh recheck
      | Inl e \<Rightarrow> accept_changes build now current accepted fresh (retry_later now idx recheck))"

definition build_catalog ::
  "(json \<Rightarrow> string) \<Rightarrow> (string \<Rightarrow> 'e + string) \<Rightarrow> (string \<Rightarrow> string) \<Rightarrow> config \<Rightarrow> upstream list \<Rightarrow> tool_def list list
    \<Rightarrow> 'e catalog_error + catalog" where
  "build_catalog ser expand lower cfg ups listings =
     (case assemble ser expand cfg ups listings of
        Inl e \<Rightarrow> Inl e
      | Inr c \<Rightarrow> (case vet lower cfg ups c of Inl e \<Rightarrow> Inl e | Inr _ \<Rightarrow> Inr c))"

record index_state =
  ix_catalog :: catalog
  ix_stale :: "bool list"
  ix_recheck :: "nat option list"

definition refresh_if_due ::
  "(json \<Rightarrow> string) \<Rightarrow> (tool_def list list \<Rightarrow> 'e catalog_error + catalog) \<Rightarrow> (nat \<Rightarrow> (tool_def list \<times> nat option) option)
    \<Rightarrow> nat \<Rightarrow> index_state \<Rightarrow> bool \<times> index_state" where
  "refresh_if_due ser build relist now st =
     (let idxs = due now (ix_stale st) (ix_recheck st) in
      if idxs = [] then (False, st)
      else
        (case relist_due ser relist now (ct_listings (ix_catalog st)) idxs (ix_stale st) (ix_recheck st) of
           (fresh, stale, recheck) \<Rightarrow>
             (case accept_changes build now (ix_catalog st) None fresh recheck of
                (None, recheck) \<Rightarrow> (False, st\<lparr>ix_stale := stale, ix_recheck := recheck\<rparr>)
              | (Some next, recheck) \<Rightarrow>
                  (True, \<lparr>ix_catalog = next, ix_stale = stale, ix_recheck = recheck\<rparr>))))"

section \<open>What an assembled catalog holds\<close>

text \<open>Every entry of the lookup is a tool of the catalog with that id, and it passes the filters of the
  upstream that listed it.\<close>

definition catalog_ok :: "config \<Rightarrow> (upstream \<times> tool_def) list \<Rightarrow> catalog \<Rightarrow> bool" where
  "catalog_ok cfg listed cat \<longleftrightarrow>
     (\<forall>tid i. map_of (ct_by_id cat) tid = Some i \<longrightarrow> i < length (ct_tools cat) \<and> td_id (ct_tools cat ! i) = tid) \<and>
     (\<forall>t \<in> set (ct_tools cat). \<exists>(up, raw) \<in> set listed. td_id raw = td_id t \<and> passes_filter cfg (us_name up) (td_id t))"

lemma catalog_ok_mono: "catalog_ok cfg ls cat \<Longrightarrow> set ls \<subseteq> set ls' \<Longrightarrow> catalog_ok cfg ls' cat"
  unfolding catalog_ok_def by blast

lemma put_patches_keeps [simp]:
  "ct_tools (put_patches up ov t cat) = ct_tools cat" "ct_by_id (put_patches up ov t cat) = ct_by_id cat"
  by (simp_all add: put_patches_def Let_def)

lemma put_headers_keeps: "put_headers expand ov tid cat = Inr cat' \<Longrightarrow>
    ct_tools cat' = ct_tools cat \<and> ct_by_id cat' = ct_by_id cat"
  by (auto simp: put_headers_def split: if_splits sum.splits)

text \<open>Adding a tool either skips it, filtered out, or appends a tool with its id and points the lookup there.\<close>

lemma add_tool_cases:
  assumes "add_tool ser expand cfg up t cat = Inr cat'"
  obtains "\<not> passes_filter cfg (us_name up) (td_id t)" "cat' = cat"
  | t' where "passes_filter cfg (us_name up) (td_id t)" "td_id t' = td_id t" "ct_tools cat' = ct_tools cat @ [t']"
      "ct_by_id cat' = alist_put (td_id t) (length (ct_tools cat)) (ct_by_id cat)"
proof (cases "passes_filter cfg (us_name up) (td_id t)")
  case False
  with assms that(1) show thesis by (simp add: add_tool_def)
next
  case True
  show thesis
  proof (cases "overlay_for cfg (td_id t)")
    case None
    with assms True show thesis by (auto simp: add_tool_def Let_def intro: that(2))
  next
    case (Some ov)
    let ?c = "cat\<lparr>ct_origin_sha := alist_put (td_id t) (tool_fingerprint ser (td_description t) (td_input_schema t))
      (ct_origin_sha cat)\<rparr>"
    define u where "u = (case ov_description ov of Some d \<Rightarrow> t\<lparr>td_description := d\<rparr> | None \<Rightarrow> t)"
    from assms True Some obtain h where h: "put_headers expand ov (td_id t) (put_patches up ov u ?c) = Inr h"
      "cat' = h\<lparr>ct_by_id := alist_put (td_id u) (length (ct_tools h)) (ct_by_id h), ct_tools := ct_tools h @ [u]\<rparr>"
      by (cases "ov_description ov"; cases "put_headers expand ov (td_id t) (put_patches up ov u ?c)")
        (auto simp: add_tool_def Let_def u_def)
    moreover have "td_id u = td_id t" by (simp add: u_def split: option.split)
    ultimately show thesis using True put_headers_keeps [OF h(1)] by (intro that(2)) simp_all
  qed
qed

lemma add_tool_ok:
  assumes "add_tool ser expand cfg up t cat = Inr cat'" "catalog_ok cfg ls cat" "(up, t) \<in> set ls"
  shows "catalog_ok cfg ls cat'"
  using assms(1)
proof (cases rule: add_tool_cases)
  case 1
  with assms(2) show ?thesis by simp
next
  case (2 t')
  with assms(2,3) show ?thesis
    by (auto simp: catalog_ok_def nth_append split: if_splits intro!: bexI [of _ "(up, t)"] dest: less_SucI)
qed

lemma add_tools_ok:
  "add_tools ser expand cfg ts cat = Inr cat' \<Longrightarrow> catalog_ok cfg ls cat \<Longrightarrow> set ts \<subseteq> set ls \<Longrightarrow> catalog_ok cfg ls cat'"
proof (induction ser expand cfg ts cat rule: add_tools.induct)
  case (2 ser expand cfg up t ts cat)
  from "2.prems"(1) obtain c where c: "add_tool ser expand cfg up t cat = Inr c" "add_tools ser expand cfg ts c = Inr cat'"
    by (auto split: sum.splits)
  from add_tool_ok [OF c(1) "2.prems"(2)] "2.prems"(3) have "catalog_ok cfg ls c" by simp
  with "2.IH" [OF c(1,2)] "2.prems"(3) show ?case by simp
qed simp

lemma assemble_ok:
  assumes "assemble ser expand cfg ups listings = Inr cat"
  shows "catalog_ok cfg (listed_tools ups listings) cat \<and> ct_listings cat = listings"
proof -
  from assms obtain c where c: "add_tools ser expand cfg (listed_tools ups listings) empty_catalog = Inr c"
    "cat = c\<lparr>ct_exposed := sort_key fst (exposed_names (c_mode cfg) (ct_tools c)), ct_listings := listings\<rparr>"
    by (auto simp: assemble_def split: sum.splits)
  have "catalog_ok cfg (listed_tools ups listings) c"
    by (rule add_tools_ok [OF c(1)]) (simp_all add: catalog_ok_def empty_catalog_def)
  with c(2) show ?thesis by (simp add: catalog_ok_def)
qed

lemma build_catalog_Inr:
  fixes cat :: catalog
  assumes "build_catalog ser expand lower cfg ups listings = (Inr cat :: 'e catalog_error + catalog)"
  shows "assemble ser expand cfg ups listings = (Inr cat :: 'e catalog_error + catalog)"
    "vet lower cfg ups cat = (Inr () :: 'e catalog_error + unit)"
  using assms by (auto simp: build_catalog_def split: sum.splits)

section \<open>Re-indexing, one upstream at a time\<close>

lemma due_iff: "i \<in> set (due now stale recheck) \<longleftrightarrow> i < length stale \<and>
    (stale ! i \<or> (i < length recheck \<and> (\<exists>at. recheck ! i = Some at \<and> at \<le> now)))"
  by (auto simp: due_def split: option.splits)

lemma distinct_due [simp]: "distinct (due now stale recheck)"
  by (simp add: due_def)

text \<open>What one upstream's slot holds after the listing: a failure waits, a success either brought a change or
  is what is being served.\<close>

definition relisted_well ::
  "(json \<Rightarrow> string) \<Rightarrow> (nat \<Rightarrow> (tool_def list \<times> nat option) option) \<Rightarrow> nat \<Rightarrow> tool_def list list \<Rightarrow> (nat \<times> tool_def list) list
    \<Rightarrow> nat option list \<Rightarrow> nat \<Rightarrow> bool" where
  "relisted_well ser relist now listings fresh recheck i \<longleftrightarrow>
     (case relist i of
        None \<Rightarrow> recheck ! i = Some (now + retry_after_failure)
      | Some (l, ttl) \<Rightarrow> (i, l) \<in> set fresh \<or> listing_fingerprint ser l = listing_fingerprint ser (listings ! i))"

lemma relist_due_spec:
  assumes "relist_due ser relist now listings idxs stale recheck = (fresh, stale', recheck')"
    "distinct idxs" "list_all (\<lambda>i. i < length recheck) idxs"
  shows "length stale' = length stale \<and> length recheck' = length recheck \<and>
    distinct (map fst fresh) \<and> fst ` set fresh \<subseteq> set idxs \<and>
    (\<forall>(i, l) \<in> set fresh. \<exists>ttl. relist i = Some (l, ttl)) \<and>
    (\<forall>i. i \<notin> set idxs \<longrightarrow> recheck' ! i = recheck ! i) \<and>
    (\<forall>i \<in> set idxs. relisted_well ser relist now listings fresh recheck' i)"
  using assms
proof (induction ser relist now listings idxs stale recheck arbitrary: fresh stale' recheck' rule: relist_due.induct)
  case (2 ser relist now listings idx idxs stale recheck)
  show ?case
  proof (cases "relist idx")
    case None
    have ih: "relist_due ser relist now listings idxs (stale[idx := False]) (retry_later now idx recheck) =
        (fresh, stale', recheck')"
      using "2.prems"(1) None by (simp add: Let_def)
    from "2.IH"(1) [OF refl None ih] "2.prems"(2,3) None show ?thesis
      by (auto simp: retry_later_def list_all_iff relisted_well_def)
  next
    case (Some a)
    obtain listed ttl where a: "a = (listed, ttl)" by (cases a)
    obtain f where ih: "relist_due ser relist now listings idxs (stale[idx := False]) (schedule_recheck now idx ttl recheck) =
        (f, stale', recheck')"
      and f: "fresh = (if listing_fingerprint ser listed \<noteq> listing_fingerprint ser (listings ! idx)
        then (idx, listed) # f else f)"
      using "2.prems"(1) Some a by (auto simp: Let_def split: prod.splits)
    from "2.IH"(2) [OF refl Some a [symmetric] ih] "2.prems"(2,3) Some a f show ?thesis
      by (auto simp: schedule_recheck_def list_all_iff relisted_well_def split: option.split)
  qed
qed simp

text \<open>The catalog served when some changes have been accepted, and what holds of it and the slots afterwards:
  it was built and vetted, upstreams without a change keep their tools and slots, and each change was either
  taken or refused, leaving that upstream's tools as they were and a retry in its slot.\<close>

abbreviation serving :: "catalog \<Rightarrow> catalog option \<Rightarrow> catalog" where
  "serving current acc \<equiv> (case acc of Some c \<Rightarrow> c | None \<Rightarrow> current)"

definition accepted_well ::
  "(tool_def list list \<Rightarrow> 'e catalog_error + catalog) \<Rightarrow> nat \<Rightarrow> catalog \<Rightarrow> nat option list \<Rightarrow> (nat \<times> tool_def list) list
    \<Rightarrow> catalog \<Rightarrow> nat option list \<Rightarrow> bool" where
  "accepted_well build now base recheck fresh cat recheck' \<longleftrightarrow>
     build (ct_listings cat) = Inr cat \<and> length recheck' = length recheck \<and>
     length (ct_listings cat) = length recheck \<and>
     (\<forall>i. i \<notin> fst ` set fresh \<longrightarrow> ct_listings cat ! i = ct_listings base ! i \<and> recheck' ! i = recheck ! i) \<and>
     (\<forall>(i, l) \<in> set fresh. (ct_listings cat ! i = l \<and> recheck' ! i = recheck ! i) \<or>
        (ct_listings cat ! i = ct_listings base ! i \<and> recheck' ! i = Some (now + retry_after_failure)))"

lemma accept_changes_spec:
  assumes "accept_changes build now current acc fresh recheck = (acc', recheck')"
    and "\<And>ls c. build ls = Inr c \<Longrightarrow> ct_listings c = ls"
    and "distinct (map fst fresh)" "list_all (\<lambda>(i, l). i < length recheck) fresh"
    and "build (ct_listings (serving current acc)) = Inr (serving current acc)"
    and "length (ct_listings (serving current acc)) = length recheck"
  shows "accepted_well build now (serving current acc) recheck fresh (serving current acc') recheck'"
  using assms
proof (induction build now current acc fresh recheck arbitrary: acc' recheck' rule: accept_changes.induct)
  case (1 build now current acc recheck)
  from "1.prems"(1,5,6) show ?case by (simp add: accepted_well_def)
next
  case (2 build now current acc idx listed fresh recheck)
  note build = "2.prems"(2)
  have fresh: "distinct (map fst fresh)" "idx \<notin> fst ` set fresh" "idx < length recheck"
    "list_all (\<lambda>(i, l). i < length recheck) fresh" using "2.prems"(3,4) by auto
  have ne: "idx \<noteq> i" if "(i, l) \<in> set fresh" for i l using fresh(2) that by force
  show ?case
  proof (cases "build ((ct_listings (serving current acc))[idx := listed])")
    case (Inr c)
    then have run: "accept_changes build now current (Some c) fresh recheck = (acc', recheck')"
      using "2.prems"(1) by (simp add: Let_def)
    have c: "ct_listings c = (ct_listings (serving current acc))[idx := listed]" by (rule build [OF Inr])
    have "accepted_well build now (serving current (Some c)) recheck fresh (serving current acc') recheck'"
      by (rule "2.IH"(2) [OF refl Inr run build fresh(1,4)]) (use c Inr "2.prems"(6) in simp_all)
    then show ?thesis
      using fresh(2,3) c "2.prems"(6) ne by (fastforce simp: accepted_well_def nth_list_update)
  next
    case (Inl e)
    then have run: "accept_changes build now current acc fresh (retry_later now idx recheck) = (acc', recheck')"
      using "2.prems"(1) by (simp add: Let_def)
    have "accepted_well build now (serving current acc) (retry_later now idx recheck) fresh (serving current acc') recheck'"
      by (rule "2.IH"(1) [OF refl Inl run build fresh(1)])
        (use fresh(4) "2.prems"(5,6) in \<open>simp_all add: retry_later_def\<close>)
    then show ?thesis
      using fresh(2,3) ne by (fastforce simp: accepted_well_def retry_later_def nth_list_update)
  qed
qed

text \<open>The state between refreshes: the served catalog is what building its own listings gives, and there is one
  listing, flag and slot per upstream.\<close>

definition index_ok :: "(tool_def list list \<Rightarrow> 'e catalog_error + catalog) \<Rightarrow> nat \<Rightarrow> index_state \<Rightarrow> bool" where
  "index_ok build n st \<longleftrightarrow>
     build (ct_listings (ix_catalog st)) = Inr (ix_catalog st) \<and>
     length (ct_listings (ix_catalog st)) = n \<and> length (ix_stale st) = n \<and> length (ix_recheck st) = n"

lemma refresh_spec:
  assumes "index_ok build n st" and build: "\<And>ls c. build ls = Inr c \<Longrightarrow> ct_listings c = ls"
    and st': "st' = snd (refresh_if_due ser build relist now st)"
  shows "index_ok build n st'"
    and "i < n \<Longrightarrow> ct_listings (ix_catalog st') ! i = ct_listings (ix_catalog st) ! i \<or>
      (\<exists>ttl. relist i = Some (ct_listings (ix_catalog st') ! i, ttl))"
    and "i \<in> set (due now (ix_stale st) (ix_recheck st)) \<Longrightarrow>
      (\<exists>l ttl. relist i = Some (l, ttl) \<and>
        listing_fingerprint ser (ct_listings (ix_catalog st') ! i) = listing_fingerprint ser l) \<or>
      ix_recheck st' ! i = Some (now + retry_after_failure)"
proof -
  let ?L = "ct_listings (ix_catalog st)" and ?D = "due now (ix_stale st) (ix_recheck st)"
  obtain fresh stale recheck where r: "relist_due ser relist now ?L ?D (ix_stale st) (ix_recheck st) = (fresh, stale, recheck)"
    by (metis prod_cases3)
  obtain acc recheck' where a: "accept_changes build now (ix_catalog st) None fresh recheck = (acc, recheck')"
    by fastforce
  have ok: "build ?L = Inr (ix_catalog st)" "length ?L = n" "length (ix_stale st) = n" "length (ix_recheck st) = n"
    using assms(1) by (simp_all add: index_ok_def)
  have dl: "list_all (\<lambda>i. i < length (ix_recheck st)) ?D" using ok by (auto simp: list_all_iff due_iff)
  note R = relist_due_spec [OF r distinct_due dl]
  have "accepted_well build now (serving (ix_catalog st) None) recheck fresh (serving (ix_catalog st) acc) recheck'"
  proof (rule accept_changes_spec [OF a build])
    show "list_all (\<lambda>(i, l). i < length recheck) fresh" using R dl by (fastforce simp: list_all_iff)
  qed (use R ok in auto)
  then have A: "accepted_well build now (ix_catalog st) recheck fresh (serving (ix_catalog st) acc) recheck'" by simp
  have st'_eq: "ix_catalog st' = serving (ix_catalog st) acc" "ix_stale st' = stale" "ix_recheck st' = recheck'"
    if "?D \<noteq> []"
    using that r a st' by (auto simp: refresh_if_due_def Let_def split: option.splits)
  have idle: "st' = st" if "?D = []" using that st' by (simp add: refresh_if_due_def)
  show "index_ok build n st'"
    using idle st'_eq A R ok assms(1) by (cases "?D = []") (auto simp: index_ok_def accepted_well_def)
  show "ct_listings (ix_catalog st') ! i = ?L ! i \<or> (\<exists>ttl. relist i = Some (ct_listings (ix_catalog st') ! i, ttl))"
    if "i < n"
  proof (cases "?D = []")
    case False
    show ?thesis
    proof (cases "i \<in> fst ` set fresh")
      case True
      then obtain l where l: "(i, l) \<in> set fresh" by force
      with A R show ?thesis unfolding st'_eq(1) [OF False] by (fastforce simp: accepted_well_def)
    qed (use A st'_eq(1) [OF False] in \<open>simp add: accepted_well_def\<close>)
  qed (use idle in simp)
  show "(\<exists>l ttl. relist i = Some (l, ttl) \<and>
      listing_fingerprint ser (ct_listings (ix_catalog st') ! i) = listing_fingerprint ser l) \<or>
      ix_recheck st' ! i = Some (now + retry_after_failure)" if i: "i \<in> set ?D"
  proof -
    have ne: "?D \<noteq> []" using i by auto
    have w: "relisted_well ser relist now ?L fresh recheck i" using R i by blast
    show ?thesis
    proof (cases "i \<in> fst ` set fresh")
      case True
      then obtain l where l: "(i, l) \<in> set fresh" by force
      with A R show ?thesis unfolding st'_eq [OF ne] by (fastforce simp: accepted_well_def)
    next
      case False
      with A have "ct_listings (serving (ix_catalog st) acc) ! i = ?L ! i" "recheck' ! i = recheck ! i"
        by (simp_all add: accepted_well_def)
      with w False show ?thesis unfolding st'_eq [OF ne]
        by (force simp: relisted_well_def split: option.splits)
    qed
  qed
qed

text \<open>A life of the index: upstreams announce changes, and requests refresh it.\<close>

datatype index_event =
    Announced nat
  | Refreshed nat "nat \<Rightarrow> (tool_def list \<times> nat option) option"

fun index_step ::
  "(json \<Rightarrow> string) \<Rightarrow> (tool_def list list \<Rightarrow> 'e catalog_error + catalog) \<Rightarrow> index_event \<Rightarrow> index_state \<Rightarrow> index_state" where
  "index_step ser build (Announced i) st = st\<lparr>ix_stale := (ix_stale st)[i := True]\<rparr>"
| "index_step ser build (Refreshed now relist) st = snd (refresh_if_due ser build relist now st)"

lemma index_run:
  assumes build: "\<And>ls c. build ls = Inr c \<Longrightarrow> ct_listings c = ls" and "index_ok build n st"
  shows "index_ok build n (fold (index_step ser build) evs st) \<and>
    (\<forall>i<n. ct_listings (ix_catalog (fold (index_step ser build) evs st)) ! i = ct_listings (ix_catalog st) ! i \<or>
      (\<exists>now relist ttl. Refreshed now relist \<in> set evs \<and>
        relist i = Some (ct_listings (ix_catalog (fold (index_step ser build) evs st)) ! i, ttl)))"
proof (induction evs rule: rev_induct)
  case Nil
  with assms(2) show ?case by simp
next
  case (snoc e evs)
  let ?st = "fold (index_step ser build) evs st"
  show ?case
  proof (cases e)
    case (Announced i)
    with snoc show ?thesis by (fastforce simp: index_ok_def)
  next
    case (Refreshed now relist)
    note r = refresh_spec(1,2) [OF conjunct1 [OF snoc] build, of _ ser relist now, OF _ refl]
    from r(1) have "index_ok build n (fold (index_step ser build) (evs @ [e]) st)" using Refreshed by simp
    moreover have "ct_listings (ix_catalog (fold (index_step ser build) (evs @ [e]) st)) ! i = ct_listings (ix_catalog st) ! i \<or>
      (\<exists>now relist ttl. Refreshed now relist \<in> set (evs @ [e]) \<and>
        relist i = Some (ct_listings (ix_catalog (fold (index_step ser build) (evs @ [e]) st)) ! i, ttl))" if "i < n" for i
    proof (cases "ct_listings (ix_catalog (fold (index_step ser build) (evs @ [e]) st)) ! i = ct_listings (ix_catalog ?st) ! i")
      case True
      with snoc that show ?thesis by auto
    next
      case False
      with r(2) [OF _ that] Refreshed show ?thesis by auto
    qed
    ultimately show ?thesis by blast
  qed
qed

lemma build_listings: "build_catalog ser expand lower cfg ups ls = (Inr c :: 'e catalog_error + catalog) \<Longrightarrow> ct_listings c = ls"
  using build_catalog_Inr(1) assemble_ok by metis

lemma vet_Inr: "vet lower cfg ups cat = Inr () \<Longrightarrow>
    (\<forall>(t, why, s) \<in> set (broken_bindings_in cfg ups cat). s \<noteq> Strong) \<and>
    (c_poisoning_policy cfg = PP_Strict \<longrightarrow> (\<forall>t \<in> set (ct_tools cat). poisoning lower (td_name t) (td_description t) = []))"
  by (auto simp: vet_def Let_def filter_empty_conv poisoned_in_def List.map_filter_def split: if_splits)

lemma cat_def_ok:
  assumes "catalog_ok cfg ls cat" "cat_def cat tid = Some t"
  shows "td_id t = tid" "t \<in> set (ct_tools cat)" "\<exists>(up, raw) \<in> set ls. td_id raw = tid \<and> passes_filter cfg (us_name up) tid"
  using assms by (fastforce simp: catalog_ok_def cat_def_def)+

text \<open>C3: only a vetted catalog is ever served. Whatever upstreams announce and whatever they answer, in whatever
  order: the catalog in force has no broken strong binding and, under the strict policy, no tool that trips a
  poisoning rule; the lookup finds only tools some upstream listed that pass that upstream's filters; and each
  upstream's tools are its first ones or an answer of that very upstream, never another's.\<close>

theorem served_catalog_vetted:
  fixes ser expand lower cfg ups
  defines "build \<equiv> (build_catalog ser expand lower cfg ups :: _ \<Rightarrow> 'e catalog_error + catalog)"
  assumes "index_ok build (length ups) st"
  shows "let cat = ix_catalog (fold (index_step ser build) evs st) in
    (\<forall>(t, why, s) \<in> set (broken_bindings_in cfg ups cat). s \<noteq> Strong) \<and>
    (c_poisoning_policy cfg = PP_Strict \<longrightarrow> (\<forall>t \<in> set (ct_tools cat). poisoning lower (td_name t) (td_description t) = [])) \<and>
    (\<forall>tid t. cat_def cat tid = Some t \<longrightarrow> td_id t = tid \<and>
      (\<exists>(up, raw) \<in> set (listed_tools ups (ct_listings cat)). td_id raw = tid \<and> passes_filter cfg (us_name up) tid)) \<and>
    (\<forall>i < length ups. ct_listings cat ! i = ct_listings (ix_catalog st) ! i \<or>
      (\<exists>now relist ttl. Refreshed now relist \<in> set evs \<and> relist i = Some (ct_listings cat ! i, ttl)))"
proof -
  let ?cat = "ix_catalog (fold (index_step ser build) evs st)"
  have run: "index_ok build (length ups) (fold (index_step ser build) evs st)"
    "\<forall>i < length ups. ct_listings ?cat ! i = ct_listings (ix_catalog st) ! i \<or>
      (\<exists>now relist ttl. Refreshed now relist \<in> set evs \<and> relist i = Some (ct_listings ?cat ! i, ttl))"
    using index_run [OF _ assms(2), of ser evs] build_listings unfolding build_def by blast+
  then have b: "build_catalog ser expand lower cfg ups (ct_listings ?cat) = (Inr ?cat :: 'e catalog_error + catalog)"
    by (simp add: index_ok_def build_def)
  note ok = conjunct1 [OF assemble_ok [OF build_catalog_Inr(1) [OF b]]]
  show ?thesis
    unfolding Let_def using vet_Inr [OF build_catalog_Inr(2) [OF b]] cat_def_ok(1,3) [OF ok] run(2) by blast
qed


section \<open>The schema memo\<close>

text \<open>The requests of one catalog look tools up and resolve their schemas, in any order, through the memo.\<close>

fun memo_run :: "(json \<Rightarrow> string) \<Rightarrow> upstream list \<Rightarrow> catalog \<Rightarrow> string list \<Rightarrow> (string \<times> json) list
    \<Rightarrow> json option list \<times> (string \<times> json) list" where
  "memo_run ser ups cat [] memo = ([], memo)"
| "memo_run ser ups cat (tid # tids) memo =
     (case cat_def cat tid of
        None \<Rightarrow> (case memo_run ser ups cat tids memo of (rs, memo) \<Rightarrow> (None # rs, memo))
      | Some t \<Rightarrow>
          (case resolved_schema_memo ser ups cat t memo of
             (v, memo) \<Rightarrow> (case memo_run ser ups cat tids memo of (rs, memo) \<Rightarrow> (Some v # rs, memo))))"

definition memo_ok :: "(json \<Rightarrow> string) \<Rightarrow> upstream list \<Rightarrow> catalog \<Rightarrow> (string \<times> json) list \<Rightarrow> bool" where
  "memo_ok ser ups cat memo \<longleftrightarrow>
     (\<forall>tid v. map_of memo tid = Some v \<longrightarrow> length (ser v) \<le> max_cached_schema_bytes \<and>
       map_option (raw_resolved ups) (cat_def cat tid) = Some v)"

lemma memo_run_spec:
  assumes "\<And>tid t. cat_def cat tid = Some t \<Longrightarrow> td_id t = tid"
  shows "memo_ok ser ups cat memo \<Longrightarrow> memo_run ser ups cat tids memo = (rs, memo') \<Longrightarrow>
    rs = map (\<lambda>tid. map_option (resolved_schema ups cat) (cat_def cat tid)) tids \<and> memo_ok ser ups cat memo'"
proof (induction tids arbitrary: memo rs memo')
  case (Cons tid tids)
  show ?case
  proof (cases "cat_def cat tid")
    case None
    with Cons show ?thesis by (auto split: prod.splits)
  next
    case (Some t)
    obtain v m where r: "resolved_schema_memo ser ups cat t memo = (v, m)" by fastforce
    have "v = resolved_schema ups cat t \<and> memo_ok ser ups cat m"
      using r Cons.prems(1) Some assms [OF Some]
      by (fastforce simp: resolved_schema_memo_def resolved_schema_def memo_ok_def Let_def split: option.splits if_splits)
    with Cons Some r show ?thesis by (auto split: prod.splits)
  qed
qed simp

text \<open>C36: the schema memo refines resolving afresh. Over the requests of one catalog, whatever tools they look up
  and how often, each gets exactly the schema that resolving it without the memo gives, and the memo holds only
  schemas whose text is at most 64,000 bytes.\<close>

theorem schema_memo_refines:
  assumes "assemble ser expand cfg ups listings = Inr cat" "memo_run ser ups cat tids [] = (rs, memo)"
  shows "rs = map (\<lambda>tid. map_option (resolved_schema ups cat) (cat_def cat tid)) tids \<and>
    list_all (\<lambda>(tid, v). length (ser v) \<le> max_cached_schema_bytes) (filter (\<lambda>(tid, v). map_of memo tid = Some v) memo)"
proof -
  note ok = conjunct1 [OF assemble_ok [OF assms(1)]]
  have "memo_ok ser ups cat []" by (simp add: memo_ok_def)
  from memo_run_spec [OF cat_def_ok(1) [OF ok] this assms(2)] show ?thesis
    by (auto simp: memo_ok_def list_all_iff)
qed

section \<open>Concrete catalogs\<close>

definition toy_upstream :: upstream where
  "toy_upstream = \<lparr>us_name = ''a'', us_kind = BK_Mcp, us_resolved = (\<lambda>_. None), us_origin = (\<lambda>n. n)\<rparr>"

definition toy_tool :: "string \<Rightarrow> tool_def" where
  "toy_tool d = \<lparr>td_upstream_idx = 0, td_name = ''x'', td_description = d, td_input_schema = JObj [], td_id = ''a.x'',
     td_read_only = None, td_extra = []\<rparr>"

text \<open>One overlaid tool under a strong binding.\<close>

definition toy_config :: config where
  "toy_config = (config_of_upstreams [stdio_upstream ''a'' ''srv''])
     \<lparr>c_mode := ThreeTool, c_overlays := [(default_overlay ''a.x'')\<lparr>ov_binding := Some Strong, ov_description := Some ''Reads x''\<rparr>],
      c_overlay_index := [(''a.x'', 0)]\<rparr>"

definition toy_build :: "(json \<Rightarrow> string) \<Rightarrow> tool_def list list \<Rightarrow> string catalog_error + catalog" where
  "toy_build ser = build_catalog ser Inr id toy_config [toy_upstream]"

definition toy_catalog :: "(json \<Rightarrow> string) \<Rightarrow> string \<Rightarrow> catalog" where
  "toy_catalog ser d = \<lparr>ct_tools = [toy_tool ''Reads x''], ct_by_id = [(''a.x'', 0)], ct_exposed = [],
     ct_origin_sha = [(''a.x'', tool_fingerprint ser d (JObj []))], ct_patched_schemas = [], ct_tool_headers = [],
     ct_user_supplied = [], ct_listings = [[toy_tool d]]\<rparr>"

lemma toy_build_ok: "toy_build ser [[toy_tool d]] = Inr (toy_catalog ser d)"
proof -
  have "assemble ser Inr toy_config [toy_upstream] [[toy_tool d]] = (Inr (toy_catalog ser d) :: string catalog_error + catalog)"
    by (simp add: assemble_def listed_tools_def toy_upstream_def toy_tool_def toy_config_def toy_catalog_def add_tool_def
      passes_filter_def config_of_upstreams_def overlay_for_def default_overlay_def put_patches_def put_headers_def
      empty_catalog_def exposed_names_def)
  moreover have "vet id toy_config [toy_upstream] (toy_catalog ser d) = (Inr () :: string catalog_error + unit)"
    by (simp add: vet_def broken_bindings_in_def toy_config_def toy_catalog_def config_of_upstreams_def default_overlay_def
      List.map_filter_def binding_status_def strength_def cat_def_def raw_resolved_def toy_upstream_def toy_tool_def)
  ultimately show ?thesis by (simp add: toy_build_def build_catalog_def)
qed

definition toy_index :: "(json \<Rightarrow> string) \<Rightarrow> index_state" where
  "toy_index ser = \<lparr>ix_catalog = toy_catalog ser ''old'', ix_stale = [True], ix_recheck = [None]\<rparr>"

lemma toy_index_ok: "index_ok (toy_build ser) 1 (toy_index ser)"
  using toy_build_ok [of ser "''old''"] by (simp add: index_ok_def toy_index_def toy_catalog_def)

theorem served_catalog_vetted_witness:
  "let evs = [Announced 0, Refreshed 5 (\<lambda>_. Some ([toy_tool ''new''], None)), Refreshed 9 (\<lambda>_. None)];
       cat = ix_catalog (fold (index_step (\<lambda>_. []) (toy_build (\<lambda>_. []))) evs (toy_index (\<lambda>_. [])))
   in list_all (\<lambda>(t, why, s). s \<noteq> Strong) (broken_bindings_in toy_config [toy_upstream] cat) \<and>
      (ct_listings cat ! 0 = [toy_tool ''old''] \<or> ct_listings cat ! 0 = [toy_tool ''new''])"
proof -
  let ?evs = "[Announced 0, Refreshed 5 (\<lambda>_. Some ([toy_tool ''new''], None)), Refreshed 9 (\<lambda>_. None)]"
  have "index_ok (toy_build (\<lambda>_. [])) (length [toy_upstream]) (toy_index (\<lambda>_. []))" using toy_index_ok by simp
  note w = served_catalog_vetted [where ser = "\<lambda>_. []" and evs = ?evs, OF this [unfolded toy_build_def],
    folded toy_build_def, unfolded Let_def]
  define cat where "cat = ix_catalog (fold (index_step (\<lambda>_. []) (toy_build (\<lambda>_. []))) ?evs (toy_index (\<lambda>_. [])))"
  from w [folded cat_def] have "list_all (\<lambda>(t, why, s). s \<noteq> Strong) (broken_bindings_in toy_config [toy_upstream] cat)"
    "ct_listings cat ! 0 = ct_listings (ix_catalog (toy_index (\<lambda>_. []))) ! 0 \<or>
      (\<exists>now relist ttl. Refreshed now relist \<in> set ?evs \<and> relist 0 = Some (ct_listings cat ! 0, ttl))"
    unfolding list_all_iff by blast+
  then show ?thesis
    unfolding Let_def cat_def [symmetric] by (auto simp: toy_index_def toy_catalog_def)
qed


theorem schema_memo_refines_witness:
  "fst (memo_run (\<lambda>_. []) [toy_upstream] (toy_catalog (\<lambda>_. []) ''d'') [''a.x'', ''a.y'', ''a.x''] []) =
     [Some (JObj []), None, Some (JObj [])]"
proof -
  let ?run = "memo_run (\<lambda>_. []) [toy_upstream] (toy_catalog (\<lambda>_. []) ''d'') [''a.x'', ''a.y'', ''a.x''] []"
  have "assemble (\<lambda>_. []) Inr toy_config [toy_upstream] [[toy_tool ''d'']] =
      (Inr (toy_catalog (\<lambda>_. []) ''d'') :: string catalog_error + catalog)"
    by (rule build_catalog_Inr(1) [OF toy_build_ok [unfolded toy_build_def]])
  from schema_memo_refines [where tids = "[''a.x'', ''a.y'', ''a.x'']" and rs = "fst ?run" and memo = "snd ?run", OF this] show ?thesis
    by (simp add: cat_def_def toy_catalog_def resolved_schema_def raw_resolved_def toy_upstream_def toy_tool_def)
qed

end
