(* ===== verification/OpenApi.thy ===== *)
theory OpenApi
  imports Names
begin

text \<open>
  OpenAPI documents as tools (\<open>src/src/spec.rs\<close>): operations with unique ids, \<open>$ref\<close> expansion within a
  budget, input schemas, media types and query styles. Parameters: \<open>lower\<close> (Unicode lowercase) and \<open>ser\<close>
  (the JSON printer, for a version that is not a string). A \<open>HashMap\<close> is an association list.
\<close>

section \<open>Operations\<close>

definition http_methods :: "string list" where
  "http_methods = [''get'', ''post'', ''put'', ''patch'', ''delete'', ''head'', ''options'']"

definition max_ref_chain :: nat where
  "max_ref_chain = 12"

definition max_resolved_nodes :: nat where
  "max_resolved_nodes = 10000"

record operation =
  op_id :: string
  op_method :: string
  op_path :: string
  op_summary :: string
  op_description :: string
  op_raw :: json

text \<open>The method is one of \<open>http_methods\<close>, so its uppercase is the ASCII one.\<close>

definition one_line :: "operation \<Rightarrow> string" where
  "one_line op =
     (let t = (if op_summary op \<noteq> [] then op_summary op
               else (case str_lines (op_description op) of
                   [] \<Rightarrow> [] | l # _ \<Rightarrow> concat (take 120 (utf8_chars l))))
      in op_id op @ '': '' @ to_ascii_uppercase (op_method op) @ '' '' @ op_path op @
         '' '' @ [CHR 0xE2, CHR 0x80, CHR 0x94] @ '' '' @ t)"

datatype query_style = Repeated | Delimited char | Deep

record spec =
  sp_title :: string
  sp_version :: string
  sp_swagger2 :: bool
  sp_root :: json
  sp_operations :: "operation list"
  sp_by_id :: "(string \<times> nat) list"

definition trim_matches :: "char \<Rightarrow> string \<Rightarrow> string" where
  "trim_matches c s = rev (dropWhile (\<lambda>x. x = c) (rev (dropWhile (\<lambda>x. x = c) s)))"

definition make_op_id :: "json \<Rightarrow> string \<Rightarrow> string \<Rightarrow> string" where
  "make_op_id oper m path =
     (case Option.bind (vget oper ''operationId'') as_str of
        Some i \<Rightarrow> i
      | None \<Rightarrow>
          m @ ''_'' @ filter (\<lambda>c. c \<noteq> CHR 0x7B \<and> c \<noteq> CHR 0x7D)
            (map (\<lambda>c. if c = CHR ''/'' then CHR ''_'' else c) (trim_matches (CHR ''/'') path)))"

definition operation_of :: "string \<Rightarrow> string \<Rightarrow> json \<Rightarrow> operation" where
  "operation_of path m oper =
     \<lparr>op_id = make_op_id oper m path, op_method = m, op_path = path,
      op_summary = str_or_empty (vget oper ''summary''), op_description = str_or_empty (vget oper ''description''),
      op_raw = oper\<rparr>"

definition listed_operations :: "(string \<Rightarrow> string) \<Rightarrow> json \<Rightarrow> operation list" where
  "listed_operations lower doc =
     (case Option.bind (vget doc ''paths'') as_object of
        None \<Rightarrow> []
      | Some paths \<Rightarrow> concat (map (\<lambda>(path, item).
          case as_object item of
            None \<Rightarrow> []
          | Some ms \<Rightarrow> concat (map (\<lambda>(method, oper).
              let m = lower method in
              if m \<in> set http_methods \<and> is_object oper then [operation_of path m oper] else []) ms)) paths))"

text \<open>Duplicate ids take the first free numeric suffix; more tries than there are seen ids always find one.\<close>

fun unique_ids :: "string list \<Rightarrow> operation list \<Rightarrow> operation list" where
  "unique_ids seen [] = []"
| "unique_ids seen (op # ops) =
     (let i = (if op_id op \<in> set seen
               then (case free_name (Suc (length seen)) (op_id op) seen 2 of Some n \<Rightarrow> n | None \<Rightarrow> op_id op)
               else op_id op)
      in op\<lparr>op_id := i\<rparr> # unique_ids (i # seen) ops)"

definition from_value :: "(string \<Rightarrow> string) \<Rightarrow> (json \<Rightarrow> string) \<Rightarrow> json \<Rightarrow> spec" where
  "from_value lower ser doc =
     (let info = (case vget doc ''info'' of Some i \<Rightarrow> i | None \<Rightarrow> JObj []);
          title = (case Option.bind (vget info ''title'') as_str of Some t \<Rightarrow> t | None \<Rightarrow> ''?'');
          version = (case vget info ''version'' of Some (JStr s) \<Rightarrow> s | Some v \<Rightarrow> ser v | None \<Rightarrow> ''?'');
          ops = unique_ids [] (listed_operations lower doc)
      in \<lparr>sp_title = title, sp_version = version, sp_swagger2 = (vget doc ''swagger'' \<noteq> None), sp_root = doc,
          sp_operations = ops, sp_by_id = zip (map op_id ops) [0..<length ops]\<rparr>)"

definition spec_get :: "spec \<Rightarrow> string \<Rightarrow> operation option" where
  "spec_get sp i = map_option (\<lambda>k. sp_operations sp ! k) (map_of (sp_by_id sp) i)"

section \<open>Expanding references\<close>

text \<open>The state of a pass: the nodes left, and whether the depth limit cut anything. \<open>thread\<close> runs a step over
  a list, failing as soon as one fails.\<close>

type_synonym pass = "nat \<times> bool"

fun thread :: "('a \<Rightarrow> 's \<Rightarrow> ('b \<times> 's) option) \<Rightarrow> 'a list \<Rightarrow> 's \<Rightarrow> ('b list \<times> 's) option" where
  "thread f [] s = Some ([], s)"
| "thread f (x # xs) s =
     (case f x s of
        None \<Rightarrow> None
      | Some (y, s) \<Rightarrow> (case thread f xs s of None \<Rightarrow> None | Some (ys, s) \<Rightarrow> Some (y # ys, s)))"

lemma thread_cong [fundef_cong]:
  "xs = ys \<Longrightarrow> s = t \<Longrightarrow> (\<And>x u. x \<in> set ys \<Longrightarrow> f x u = g x u) \<Longrightarrow> thread f xs s = thread g ys t"
  by (induction xs arbitrary: ys s t) (auto split: option.split prod.split)

fun ref_target :: "json \<Rightarrow> string list \<Rightarrow> json option" where
  "ref_target v [] = Some v"
| "ref_target v (k # ks) = Option.bind (vget v k) (\<lambda>w. ref_target w ks)"

definition ref_of :: "jmap \<Rightarrow> string option" where
  "ref_of m = Option.bind (jget m ''$ref'') as_str"

function expand_refs :: "json \<Rightarrow> nat \<Rightarrow> nat \<Rightarrow> string list \<Rightarrow> json \<Rightarrow> pass \<Rightarrow> (json \<times> pass) option" where
  "expand_refs doc limit depth seen node (budget, dropped) =
     (if budget = 0 then None
      else
        (let s = (budget - 1, dropped) in
         case node of
           JObj m \<Rightarrow>
             (case ref_of m of
                Some r \<Rightarrow>
                  if r \<in> set seen then Some (JObj [(''$circular'', JStr r)], s)
                  else if \<not> starts_with ''#/'' r then Some (node, s)
                  else if limit \<le> depth
                  then Some (if limit = max_ref_chain then node else JObj [(''$omitted'', JStr r)], (budget - 1, True))
                  else (case ref_target doc (split_on (CHR ''/'') (drop 2 r)) of
                      None \<Rightarrow> Some (node, s)
                    | Some t \<Rightarrow> expand_refs doc limit (depth + 1) (seen @ [r]) t s)
              | None \<Rightarrow> map_option (\<lambda>(m, s). (JObj m, s))
                  (thread (\<lambda>(k, v) s. map_option (\<lambda>(w, s). ((k, w), s)) (expand_refs doc limit depth seen v s)) m s))
         | JArr a \<Rightarrow> map_option (\<lambda>(a, s). (JArr a, s)) (thread (expand_refs doc limit depth seen) a s)
         | _ \<Rightarrow> Some (node, s)))"
  by pat_completeness auto

termination expand_refs
  by (relation "measures [\<lambda>(doc, limit, depth, seen, node, s). limit - depth, \<lambda>(doc, limit, depth, seen, node, s). size node]")
    (auto dest: json_obj_size json_arr_size)

fun resolve_passes :: "json \<Rightarrow> json \<Rightarrow> nat list \<Rightarrow> json option \<Rightarrow> json option" where
  "resolve_passes doc node [] best = best"
| "resolve_passes doc node (limit # limits) best =
     (case expand_refs doc limit 0 [] node (max_resolved_nodes, False) of
        None \<Rightarrow> best
      | Some (v, _, dropped) \<Rightarrow> if dropped then resolve_passes doc node limits (Some v) else Some v)"

definition resolve :: "json \<Rightarrow> json \<Rightarrow> json" where
  "resolve doc node =
     (case resolve_passes doc node [0..<Suc max_ref_chain] None of Some v \<Rightarrow> v | None \<Rightarrow> node)"

section \<open>Bodies and parameters\<close>

definition pick_media :: "jmap \<Rightarrow> (string \<times> json) option" where
  "pick_media content =
     (case jget content ''application/json'' of
        Some v \<Rightarrow> Some (''application/json'', v)
      | None \<Rightarrow> (case content of [] \<Rightarrow> None | kv # _ \<Rightarrow> Some kv))"

definition body_schema :: "spec \<Rightarrow> operation \<Rightarrow> bool \<Rightarrow> json" where
  "body_schema sp op full =
     (let rb = (case vget (op_raw op) ''requestBody'' of Some v \<Rightarrow> v | None \<Rightarrow> JNull);
          rb = (if full then resolve (sp_root sp) rb else rb)
      in case Option.bind (vget rb ''content'') as_object of
           None \<Rightarrow> JNull
         | Some content \<Rightarrow>
             (case Option.bind (pick_media content) (\<lambda>(_, media). vget media ''schema'') of Some s \<Rightarrow> s | None \<Rightarrow> JNull))"

definition body_media_type :: "operation \<Rightarrow> string option" where
  "body_media_type op =
     Option.bind (vget (op_raw op) ''requestBody'') (\<lambda>rb.
       Option.bind (vget rb ''content'') (\<lambda>c.
         Option.bind (as_object c) (\<lambda>content. map_option fst (pick_media content))))"

definition param_explode :: "json \<Rightarrow> bool \<Rightarrow> bool" where
  "param_explode p dflt = (case Option.bind (vget p ''explode'') as_bool of Some b \<Rightarrow> b | None \<Rightarrow> dflt)"

definition delimited_or_repeated :: "json \<Rightarrow> char \<Rightarrow> query_style" where
  "delimited_or_repeated p sep = (if param_explode p False then Repeated else Delimited sep)"

definition default_query_style :: "spec \<Rightarrow> query_style" where
  "default_query_style sp = (if sp_swagger2 sp then Delimited (CHR '','') else Repeated)"

definition query_style_of :: "spec \<Rightarrow> json \<Rightarrow> query_style" where
  "query_style_of sp p =
     (case Option.bind (vget p ''collectionFormat'') as_str of
        Some cf \<Rightarrow>
          if cf = ''multi'' then Repeated
          else if cf = ''ssv'' then Delimited (CHR '' '')
          else if cf = ''tsv'' then Delimited (CHR 0x09)
          else if cf = ''pipes'' then Delimited (CHR ''|'')
          else Delimited (CHR '','')
      | None \<Rightarrow>
          (let style = Option.bind (vget p ''style'') as_str in
           if style = Some ''deepObject'' then Deep
           else if style = Some ''spaceDelimited'' then delimited_or_repeated p (CHR '' '')
           else if style = Some ''pipeDelimited'' then delimited_or_repeated p (CHR ''|'')
           else if style = Some ''form'' then (if param_explode p True then Repeated else Delimited (CHR '',''))
           else default_query_style sp))"

definition raw_parameters :: "operation \<Rightarrow> json" where
  "raw_parameters op = (case vget (op_raw op) ''parameters'' of Some p \<Rightarrow> p | None \<Rightarrow> JArr [])"

definition elements :: "json \<Rightarrow> json list" where
  "elements v = (case as_array v of Some a \<Rightarrow> a | None \<Rightarrow> [])"

definition query_styles :: "spec \<Rightarrow> operation \<Rightarrow> (string \<times> query_style) list" where
  "query_styles sp op =
     fold (\<lambda>p styles.
       if Option.bind (vget p ''in'') as_str = Some ''query''
       then (case Option.bind (vget p ''name'') as_str of
           Some n \<Rightarrow> alist_put n (query_style_of sp p) styles | None \<Rightarrow> styles)
       else styles)
     (elements (resolve (sp_root sp) (raw_parameters op))) []"

definition param_prop :: "json \<Rightarrow> json" where
  "param_prop p =
     (let base = (case vget p ''schema'' of
          Some s \<Rightarrow> s
        | None \<Rightarrow> JObj (fold (\<lambda>k m. case vget p k of Some v \<Rightarrow> jput k v m | None \<Rightarrow> m)
            [''type'', ''format'', ''items'', ''enum''] []))
      in case (base, vget p ''description'') of
           (JObj m, Some d) \<Rightarrow> JObj (jor_insert ''description'' d m)
         | _ \<Rightarrow> base)"

definition param_object :: "jmap \<Rightarrow> string list \<Rightarrow> string \<Rightarrow> json" where
  "param_object props required desc =
     JObj ([(''type'', JStr ''object''), (''description'', JStr desc)] @
       (if props \<noteq> [] then [(''properties'', JObj props)] else []) @
       (if required \<noteq> [] then [(''required'', JArr (map JStr required))] else []))"

text \<open>What the loop over the parameters collects.\<close>

record collected =
  co_path :: jmap
  co_path_req :: "string list"
  co_query :: jmap
  co_query_req :: "string list"
  co_form :: jmap
  co_body :: json

definition collect_param :: "spec \<Rightarrow> bool \<Rightarrow> json \<Rightarrow> collected \<Rightarrow> collected" where
  "collect_param sp full p c =
     (let name = str_or_empty (vget p ''name'');
          required = (Option.bind (vget p ''required'') as_bool = Some True);
          place = str_or_empty (vget p ''in'')
      in if name = [] then c
         else if place = ''path'' then
           c\<lparr>co_path := jput name (param_prop p) (co_path c),
             co_path_req := co_path_req c @ (if required then [name] else [])\<rparr>
         else if place = ''query'' then
           c\<lparr>co_query := jput name (param_prop p) (co_query c),
             co_query_req := co_query_req c @ (if required then [name] else [])\<rparr>
         else if place = ''body'' then
           (let s = (case vget p ''schema'' of Some s \<Rightarrow> s | None \<Rightarrow> JNull)
            in c\<lparr>co_body := (if full then resolve (sp_root sp) s else s)\<rparr>)
         else if place = ''formData'' then c\<lparr>co_form := jput name (param_prop p) (co_form c)\<rparr>
         else c)"

definition build_input_schema :: "spec \<Rightarrow> operation \<Rightarrow> bool \<Rightarrow> json" where
  "build_input_schema sp op full =
     (let raw = raw_parameters op;
          params = elements (if full then resolve (sp_root sp) raw else raw);
          c = fold (collect_param sp full) params
            \<lparr>co_path = [], co_path_req = [], co_query = [], co_query_req = [], co_form = [],
             co_body = body_schema sp op full\<rparr>;
          body = (if is_null (co_body c) \<and> co_form c \<noteq> []
            then JObj [(''type'', JStr ''object''), (''properties'', JObj (co_form c))] else co_body c)
      in JObj
        [(''type'', JStr ''object''),
         (''description'', JStr (to_ascii_uppercase (op_method op) @ '' '' @ op_path op @
            '' '' @ [CHR 0xE2, CHR 0x80, CHR 0x94] @ '' call via {path_params, query_params, body}.'')),
         (''properties'', JObj
           [(''path_params'', param_object (co_path c) (co_path_req c) ''Values for {placeholders} in the path.''),
            (''query_params'', param_object (co_query c) (co_query_req c) ''Query-string parameters.''),
            (''body'', body)])])"

definition tool_input_schema :: "spec \<Rightarrow> operation \<Rightarrow> json" where
  "tool_input_schema sp op = build_input_schema sp op True"

definition tool_input_schema_shallow :: "spec \<Rightarrow> operation \<Rightarrow> json" where
  "tool_input_schema_shallow sp op = build_input_schema sp op False"

section \<open>What expansion gives\<close>

text \<open>The reference: the node with its references followed to a depth, without a budget, the nodes that takes,
  and whether the depth cut anything.\<close>

function inlined :: "json \<Rightarrow> nat \<Rightarrow> nat \<Rightarrow> string list \<Rightarrow> json \<Rightarrow> json" where
  "inlined doc limit depth seen (JArr a) = JArr (map (inlined doc limit depth seen) a)"
| "inlined doc limit depth seen (JObj m) =
     (case ref_of m of
        Some r \<Rightarrow>
          if r \<in> set seen then JObj [(''$circular'', JStr r)]
          else if \<not> starts_with ''#/'' r then JObj m
          else if limit \<le> depth then (if limit = max_ref_chain then JObj m else JObj [(''$omitted'', JStr r)])
          else (case ref_target doc (split_on (CHR ''/'') (drop 2 r)) of
              None \<Rightarrow> JObj m | Some t \<Rightarrow> inlined doc limit (depth + 1) (seen @ [r]) t)
      | None \<Rightarrow> JObj (map (\<lambda>(k, v). (k, inlined doc limit depth seen v)) m))"
| "inlined doc limit depth seen JNull = JNull"
| "inlined doc limit depth seen (JBool b) = JBool b"
| "inlined doc limit depth seen (JNum s) = JNum s"
| "inlined doc limit depth seen (JStr s) = JStr s"
  by pat_completeness auto

termination inlined
  by (relation "measures [\<lambda>(doc, limit, depth, seen, node). limit - depth, \<lambda>(doc, limit, depth, seen, node). size node]")
    (auto dest: json_obj_size json_arr_size)

function visited :: "json \<Rightarrow> nat \<Rightarrow> nat \<Rightarrow> string list \<Rightarrow> json \<Rightarrow> nat" where
  "visited doc limit depth seen (JArr a) = Suc (sum_list (map (visited doc limit depth seen) a))"
| "visited doc limit depth seen (JObj m) =
     Suc (case ref_of m of
        Some r \<Rightarrow>
          if r \<in> set seen \<or> \<not> starts_with ''#/'' r \<or> limit \<le> depth then 0
          else (case ref_target doc (split_on (CHR ''/'') (drop 2 r)) of
              None \<Rightarrow> 0 | Some t \<Rightarrow> visited doc limit (depth + 1) (seen @ [r]) t)
      | None \<Rightarrow> sum_list (map (\<lambda>(k, v). visited doc limit depth seen v) m))"
| "visited doc limit depth seen JNull = 1"
| "visited doc limit depth seen (JBool b) = 1"
| "visited doc limit depth seen (JNum s) = 1"
| "visited doc limit depth seen (JStr s) = 1"
  by pat_completeness auto

termination visited
  by (relation "measures [\<lambda>(doc, limit, depth, seen, node). limit - depth, \<lambda>(doc, limit, depth, seen, node). size node]")
    (auto dest: json_obj_size json_arr_size)

function cuts :: "json \<Rightarrow> nat \<Rightarrow> nat \<Rightarrow> string list \<Rightarrow> json \<Rightarrow> bool" where
  "cuts doc limit depth seen (JArr a) = list_ex (cuts doc limit depth seen) a"
| "cuts doc limit depth seen (JObj m) =
     (case ref_of m of
        Some r \<Rightarrow>
          if r \<in> set seen \<or> \<not> starts_with ''#/'' r then False
          else if limit \<le> depth then True
          else (case ref_target doc (split_on (CHR ''/'') (drop 2 r)) of
              None \<Rightarrow> False | Some t \<Rightarrow> cuts doc limit (depth + 1) (seen @ [r]) t)
      | None \<Rightarrow> list_ex (\<lambda>(k, v). cuts doc limit depth seen v) m)"
| "cuts doc limit depth seen JNull = False"
| "cuts doc limit depth seen (JBool b) = False"
| "cuts doc limit depth seen (JNum s) = False"
| "cuts doc limit depth seen (JStr s) = False"
  by pat_completeness auto

termination cuts
  by (relation "measures [\<lambda>(doc, limit, depth, seen, node). limit - depth, \<lambda>(doc, limit, depth, seen, node). size node]")
    (auto dest: json_obj_size json_arr_size)

declare expand_refs.simps [simp del]

text \<open>A counted step: within the budget it yields its value and pays its price, beyond it fails.\<close>

lemma thread_counted:
  fixes c :: "'a \<Rightarrow> nat"
  assumes "\<And>x b d. x \<in> set xs \<Longrightarrow> f x (b, d) = (if c x \<le> b then Some (g x, b - c x, d \<or> e x) else None)"
  shows "thread f xs (b, d) =
    (if sum_list (map c xs) \<le> b then Some (map g xs, b - sum_list (map c xs), d \<or> list_ex e xs) else None)"
  using assms
proof (induction xs arbitrary: b d)
  case (Cons x xs)
  show ?case
  proof (cases "c x \<le> b")
    case True
    have "thread f xs (b - c x, d \<or> e x) =
        (if sum_list (map c xs) \<le> b - c x
         then Some (map g xs, b - c x - sum_list (map c xs), (d \<or> e x) \<or> list_ex e xs) else None)"
      by (rule Cons.IH) (simp add: Cons.prems)
    with True Cons.prems [of x b d] show ?thesis by auto
  qed (simp add: Cons.prems)
qed simp

lemma visited_pos: "0 < visited doc limit depth seen node"
  by (cases node) auto

lemma expand_refs_counted:
  "expand_refs doc limit depth seen node (b, d) =
    (if visited doc limit depth seen node \<le> b
     then Some (inlined doc limit depth seen node, b - visited doc limit depth seen node, d \<or> cuts doc limit depth seen node)
     else None)"
proof (induction doc limit depth seen node arbitrary: b d rule: inlined.induct)
  case (1 doc limit depth seen a)
  have "thread (expand_refs doc limit depth seen) a (b - 1, d) =
      (if sum_list (map (visited doc limit depth seen) a) \<le> b - 1
       then Some (map (inlined doc limit depth seen) a, b - 1 - sum_list (map (visited doc limit depth seen) a),
         d \<or> list_ex (cuts doc limit depth seen) a) else None)"
    by (rule thread_counted) (rule "1.IH")
  then show ?case by (auto simp: expand_refs.simps [of doc limit depth seen "JArr a"])
next
  case (2 doc limit depth seen m)
  show ?case
  proof (cases "ref_of m")
    case (Some r)
    show ?thesis
    proof (cases "r \<in> set seen \<or> \<not> starts_with ''#/'' r \<or> limit \<le> depth")
      case True
      with Some show ?thesis by (auto simp: expand_refs.simps [of doc limit depth seen "JObj m"])
    next
      case False
      then have c: "r \<notin> set seen" "starts_with ''#/'' r" "\<not> limit \<le> depth" by auto
      show ?thesis
      proof (cases "ref_target doc (split_on (CHR ''/'') (drop 2 r))")
        case None
        with Some c show ?thesis by (auto simp: expand_refs.simps [of doc limit depth seen "JObj m"])
      next
        case t: (Some t)
        have "expand_refs doc limit (depth + 1) (seen @ [r]) t (b', d) =
            (if visited doc limit (depth + 1) (seen @ [r]) t \<le> b'
             then Some (inlined doc limit (depth + 1) (seen @ [r]) t, b' - visited doc limit (depth + 1) (seen @ [r]) t,
               d \<or> cuts doc limit (depth + 1) (seen @ [r]) t) else None)" for b'
          by (rule "2.IH"(2)) (use Some c t in auto)
        with Some c t show ?thesis by (auto simp: expand_refs.simps [of doc limit depth seen "JObj m"])
      qed
    qed
  next
    case None
    have "thread (\<lambda>(k, v) s. map_option (\<lambda>(w, s). ((k, w), s)) (expand_refs doc limit depth seen v s)) m (b - 1, d) =
        (if sum_list (map (\<lambda>(k, v). visited doc limit depth seen v) m) \<le> b - 1
         then Some (map (\<lambda>(k, v). (k, inlined doc limit depth seen v)) m,
           b - 1 - sum_list (map (\<lambda>(k, v). visited doc limit depth seen v) m),
           d \<or> list_ex (\<lambda>(k, v). cuts doc limit depth seen v) m) else None)"
      by (rule thread_counted) (use "2.IH"(1) [OF None] in \<open>auto split: prod.split\<close>)
    with None show ?thesis by (auto simp: expand_refs.simps [of doc limit depth seen "JObj m"])
  qed
qed (auto simp: expand_refs.simps)

text \<open>Where nothing is cut, following further changes nothing; following further visits no fewer nodes.\<close>

lemma uncut_whole:
  "\<not> cuts doc limit depth seen node \<Longrightarrow> limit \<le> limit' \<Longrightarrow>
    inlined doc limit' depth seen node = inlined doc limit depth seen node \<and> \<not> cuts doc limit' depth seen node"
proof (induction doc limit depth seen node rule: inlined.induct)
  case (1 doc limit depth seen a)
  then show ?case by (auto simp: list_ex_iff)
next
  case (2 doc limit depth seen m)
  show ?case
  proof (cases "ref_of m")
    case None
    have "inlined doc limit' depth seen v = inlined doc limit depth seen v \<and> \<not> cuts doc limit' depth seen v"
      if "(k, v) \<in> set m" for k v
      by (rule "2.IH"(1) [OF None that refl]) (use None "2.prems" that in \<open>auto simp: list_ex_iff\<close>)
    with None show ?thesis by (auto simp: list_ex_iff)
  next
    case (Some r)
    show ?thesis
    proof (cases "r \<in> set seen \<or> \<not> starts_with ''#/'' r")
      case False
      then have c: "r \<notin> set seen" "starts_with ''#/'' r" "\<not> limit \<le> depth" using Some "2.prems"(1) by (auto split: if_splits)
      show ?thesis
      proof (cases "ref_target doc (split_on (CHR ''/'') (drop 2 r))")
        case t: (Some t)
        have "inlined doc limit' (depth + 1) (seen @ [r]) t = inlined doc limit (depth + 1) (seen @ [r]) t \<and>
            \<not> cuts doc limit' (depth + 1) (seen @ [r]) t"
          by (rule "2.IH"(2)) (use Some c t "2.prems" in auto)
        with Some c t "2.prems"(2) show ?thesis by simp
      qed (use Some c "2.prems"(2) in simp)
    qed (use Some in auto)
  qed
qed auto

lemma visited_mono: "limit \<le> limit' \<Longrightarrow> visited doc limit depth seen node \<le> visited doc limit' depth seen node"
proof (induction doc limit depth seen node rule: inlined.induct)
  case (1 doc limit depth seen a)
  then show ?case by (simp add: sum_list_mono)
next
  case (2 doc limit depth seen m)
  show ?case
  proof (cases "ref_of m")
    case None
    have "sum_list (map (\<lambda>(k, v). visited doc limit depth seen v) m) \<le> sum_list (map (\<lambda>(k, v). visited doc limit' depth seen v) m)"
      by (rule sum_list_mono) (use "2.IH"(1) [OF None _ refl "2.prems"] in auto)
    with None show ?thesis by simp
  next
    case (Some r)
    show ?thesis
    proof (cases "r \<in> set seen \<or> \<not> starts_with ''#/'' r \<or> limit \<le> depth")
      case False
      then have c: "r \<notin> set seen" "starts_with ''#/'' r" "\<not> limit \<le> depth" by auto
      show ?thesis
      proof (cases "ref_target doc (split_on (CHR ''/'') (drop 2 r))")
        case t: (Some t)
        have "visited doc limit (depth + 1) (seen @ [r]) t \<le> visited doc limit' (depth + 1) (seen @ [r]) t"
          by (rule "2.IH"(2)) (use Some c t "2.prems" in auto)
        with Some c t "2.prems" show ?thesis by simp
      qed (use Some c in simp)
    qed (use Some in auto)
  qed
qed auto

definition fits :: "json \<Rightarrow> json \<Rightarrow> nat \<Rightarrow> bool" where
  "fits doc node limit \<longleftrightarrow> visited doc limit 0 [] node \<le> max_resolved_nodes"

text \<open>The passes stop at the first limit that cuts nothing or whose next does not fit.\<close>

lemma resolve_passes_spec:
  "resolve_passes doc node [k..<Suc n] best = best \<and> (k > n \<or> \<not> fits doc node k) \<or>
   (\<exists>l. k \<le> l \<and> l \<le> n \<and> resolve_passes doc node [k..<Suc n] best = Some (inlined doc l 0 [] node) \<and> fits doc node l \<and>
     (\<forall>j. k \<le> j \<and> j < l \<longrightarrow> cuts doc j 0 [] node) \<and>
     (\<not> cuts doc l 0 [] node \<or> l = n \<or> \<not> fits doc node (Suc l)))"
proof (induction "Suc n - k" arbitrary: k best)
  case 0
  then show ?case by simp
next
  case (Suc d)
  then have k: "k \<le> n" by simp
  then have u: "[k..<Suc n] = k # [Suc k..<Suc n]" by (simp add: upt_conv_Cons del: upt_Suc)
  show ?case
  proof (cases "fits doc node k")
    case False
    then show ?thesis using u by (simp add: expand_refs_counted fits_def del: upt_Suc)
  next
    case True
    show ?thesis
    proof (cases "cuts doc k 0 [] node")
      case False
      with True u k show ?thesis by (auto simp: expand_refs_counted fits_def simp del: upt_Suc intro!: exI [of _ k])
    next
      case c: True
      let ?b = "Some (inlined doc k 0 [] node)"
      have r: "resolve_passes doc node [k..<Suc n] best = resolve_passes doc node [Suc k..<Suc n] ?b"
        using True c u by (simp add: expand_refs_counted fits_def del: upt_Suc)
      have "d = Suc n - Suc k" using Suc(2) by simp
      from Suc(1) [OF this, of ?b] show ?thesis
      proof (elim disjE exE)
        assume a: "resolve_passes doc node [Suc k..<Suc n] ?b = ?b \<and> (n < Suc k \<or> \<not> fits doc node (Suc k))"
        with r True k show ?thesis by (intro disjI2 exI [of _ k]) auto
      next
        fix l
        assume a: "Suc k \<le> l \<and> l \<le> n \<and> resolve_passes doc node [Suc k..<Suc n] ?b = Some (inlined doc l 0 [] node) \<and>
          fits doc node l \<and> (\<forall>j. Suc k \<le> j \<and> j < l \<longrightarrow> cuts doc j 0 [] node) \<and>
          (\<not> cuts doc l 0 [] node \<or> l = n \<or> \<not> fits doc node (Suc l))"
        then have "\<forall>j. k \<le> j \<and> j < l \<longrightarrow> cuts doc j 0 [] node" using c by (metis Suc_leI le_neq_implies_less)
        with a r k show ?thesis by (intro disjI2 exI [of _ l]) auto
      qed
    qed
  qed
qed



section \<open>Ids\<close>

lemma unique_ids_spec:
  "distinct (map op_id (unique_ids seen ops)) \<and> set (map op_id (unique_ids seen ops)) \<inter> set seen = {} \<and>
   length (unique_ids seen ops) = length ops"
proof (induction seen ops rule: unique_ids.induct)
  case (2 seen op ops)
  define i where "i = (if op_id op \<in> set seen
    then (case free_name (Suc (length seen)) (op_id op) seen 2 of Some n \<Rightarrow> n | None \<Rightarrow> op_id op) else op_id op)"
  have "i \<notin> set seen"
    using free_name_enough [of seen "op_id op" 2] free_name_Some [of "Suc (length seen)" "op_id op" seen 2]
    by (auto simp: i_def simp del: free_name.simps split: option.splits)
  moreover have "unique_ids seen (op # ops) = op\<lparr>op_id := i\<rparr> # unique_ids (i # seen) ops"
    by (simp add: i_def Let_def)
  ultimately show ?case using "2.IH" [OF i_def [unfolded i_def]] by (auto simp: i_def)
qed simp

text \<open>Every operation is reachable: each listed operation keeps everything but possibly its id, ids are distinct,
  and looking an id up finds the operation that carries it.\<close>

lemma unique_ids_nth:
  "i < length ops \<Longrightarrow> unique_ids seen ops ! i = (ops ! i)\<lparr>op_id := op_id (unique_ids seen ops ! i)\<rparr>"
proof (induction seen ops arbitrary: i rule: unique_ids.induct)
  case (2 seen op ops)
  then show ?case by (cases i) (simp_all add: Let_def)
qed simp

lemma operations_reachable:
  fixes lower ser doc
  defines "sp \<equiv> from_value lower ser doc"
  shows "distinct (map op_id (sp_operations sp))" "length (sp_operations sp) = length (listed_operations lower doc)"
    "op \<in> set (sp_operations sp) \<Longrightarrow> spec_get sp (op_id op) = Some op"
    "i < length (sp_operations sp) \<Longrightarrow>
      sp_operations sp ! i = (listed_operations lower doc ! i)\<lparr>op_id := op_id (sp_operations sp ! i)\<rparr>"
proof -
  let ?ops = "sp_operations sp"
  have ops: "?ops = unique_ids [] (listed_operations lower doc)" "sp_by_id sp = zip (map op_id ?ops) [0..<length ?ops]"
    by (simp_all add: sp_def from_value_def Let_def)
  show d: "distinct (map op_id ?ops)" "length ?ops = length (listed_operations lower doc)"
    using unique_ids_spec [of "[]" "listed_operations lower doc"] by (simp_all add: ops)
  show "i < length ?ops \<Longrightarrow> ?ops ! i = (listed_operations lower doc ! i)\<lparr>op_id := op_id (?ops ! i)\<rparr>"
    using unique_ids_nth [of i "listed_operations lower doc" "[]"] d(2) by (simp add: ops)
  show "spec_get sp (op_id op) = Some op" if op: "op \<in> set ?ops"
  proof -
    obtain j where j: "j < length ?ops" "op = ?ops ! j" using op by (auto simp: in_set_conv_nth)
    have "map_of (sp_by_id sp) (map op_id ?ops ! j) = Some ([0..<length ?ops] ! j)"
      unfolding ops(2) by (rule map_of_zip_nth) (use d j in simp_all)
    with j show ?thesis by (simp add: spec_get_def)
  qed
qed

section \<open>Media types\<close>

text \<open>The schema and the encoding follow one rule where the request body is written in place \<dots>\<close>

lemma media_consistent:
  assumes "vget (op_raw op) ''requestBody'' = Some rb" "Option.bind (vget rb ''content'') as_object = Some content"
  shows "body_media_type op = map_option fst (pick_media content) \<and>
    body_schema sp op False = (case Option.bind (pick_media content) (\<lambda>(_, media). vget media ''schema'') of
      Some s \<Rightarrow> s | None \<Rightarrow> JNull)"
  using assms by (auto simp: body_media_type_def body_schema_def split: bind_splits)

text \<open>\<dots> and disagree where it is a reference: the schema is found behind it, the media type is not, so a JSON body
  is sent form-encoded.\<close>

definition shared_body_doc :: json where
  "shared_body_doc = JObj [(''B'', JObj [(''content'', JObj [(''application/json'', JObj [(''schema'', JBool True)])])])]"

lemma media_type_behind_reference:
  "let sp = from_value id (\<lambda>_. []) shared_body_doc;
       op = operation_of ''/x'' ''post'' (JObj [(''requestBody'', JObj [(''$ref'', JStr ''#/B'')])])
   in body_schema sp op True = JBool True \<and> body_media_type op = None"
proof -
  let ?b = "JObj [(''$ref'', JStr ''#/B'')]"
  have "\<not> cuts shared_body_doc 1 0 [] ?b" "inlined shared_body_doc 1 0 [] ?b =
      JObj [(''content'', JObj [(''application/json'', JObj [(''schema'', JBool True)])])]"
    "visited shared_body_doc 1 0 [] ?b = 5" "cuts shared_body_doc 0 0 [] ?b" "visited shared_body_doc 0 0 [] ?b = 1"
    by (simp_all add: shared_body_doc_def ref_of_def jget_def vget_def starts_with_def)
  then have "resolve shared_body_doc ?b =
      JObj [(''content'', JObj [(''application/json'', JObj [(''schema'', JBool True)])])]"
    by (simp add: resolve_def expand_refs_counted max_resolved_nodes_def max_ref_chain_def upt_rec)
  moreover have "sp_root (from_value id (\<lambda>_. []) shared_body_doc) = shared_body_doc"
    by (simp add: from_value_def Let_def)
  ultimately show ?thesis
    by (simp add: body_schema_def body_media_type_def operation_of_def pick_media_def vget_def jget_def)
qed

end
