(* ===== verification/Exec.thy ===== *)
theory Exec
  imports OpenApi Config
begin

text \<open>
  Executing one OpenAPI operation as an HTTP call (\<open>src/src/exec.rs\<close>): encoding of path, query and body,
  the headers, the request and the result envelope. The HTTP client is a parameter: what sending a request
  answers. So are \<open>lower\<close> (Unicode lowercase), \<open>ser\<close> and \<open>parse\<close> (the JSON printer and parser).
\<close>

section \<open>Response bodies\<close>

definition max_response_chars :: nat where
  "max_response_chars = 2000000"

definition truncate_chars :: "string \<Rightarrow> string \<times> bool" where
  "truncate_chars rendered =
     (let cs = utf8_chars rendered in
      if max_response_chars < length cs then (concat (take max_response_chars cs), True) else (rendered, False))"

definition format_body :: "(json \<Rightarrow> string) \<Rightarrow> (string \<Rightarrow> json option) \<Rightarrow> string \<Rightarrow> result_format \<Rightarrow> json \<times> bool" where
  "format_body ser parse body fmt =
     (case (if fmt = RF_Json then parse body else None) of
        Some v \<Rightarrow>
          if length (utf8_chars (ser v)) \<le> max_response_chars then (v, False)
          else (JStr (fst (truncate_chars (ser v))), True)
      | None \<Rightarrow> (case truncate_chars body of (c, t) \<Rightarrow> (JStr c, t)))"

section \<open>Encoding\<close>

definition unreserved :: "char \<Rightarrow> bool" where
  "unreserved c \<longleftrightarrow> is_ascii_alphanumeric c \<or> c \<in> set ''-._~''"

definition encode_byte :: "char \<Rightarrow> string" where
  "encode_byte c = (if unreserved c then [c] else [CHR ''%'', hex_digit_upper (byte c div 16), hex_digit_upper (byte c mod 16)])"

definition encode_path_segment :: "string \<Rightarrow> string" where
  "encode_path_segment s =
     (if s = ''.'' then ''%2E'' else if s = ''..'' then ''%2E%2E'' else concat (map encode_byte s))"

function flatten_form :: "string \<Rightarrow> json \<Rightarrow> (string \<times> string) list" where
  "flatten_form prefix (JObj m) =
     concat (map (\<lambda>(k, v). flatten_form (if prefix = [] then k else prefix @ ''['' @ k @ '']'') v) m)"
| "flatten_form prefix (JArr a) =
     concat (map (\<lambda>(i, v). flatten_form (prefix @ ''['' @ show_nat i @ '']'') v) (enumerate 0 a))"
| "flatten_form prefix (JBool b) = [(prefix, if b then ''true'' else ''false'')]"
| "flatten_form prefix JNull = []"
| "flatten_form prefix (JStr s) = [(prefix, s)]"
| "flatten_form prefix (JNum s) = [(prefix, s)]"
  by pat_completeness auto

termination flatten_form
  by (relation "measure (\<lambda>(p, v). size v)")
    (auto dest: json_obj_size intro: json_arr_size nth_mem simp: enumerate_eq_zip in_set_zip)

definition scalar_str :: "json \<Rightarrow> string option" where
  "scalar_str v = (case v of
       JStr s \<Rightarrow> Some s
     | JBool b \<Rightarrow> Some (if b then ''true'' else ''false'')
     | JNum n \<Rightarrow> Some n
     | _ \<Rightarrow> None)"

definition serialize_query :: "string \<Rightarrow> json \<Rightarrow> query_style \<Rightarrow> (string \<times> string) list" where
  "serialize_query key v style =
     (case v of
        JArr items \<Rightarrow>
          (let scalars = (if list_all (\<lambda>x. scalar_str x \<noteq> None) items then Some (map (the \<circ> scalar_str) items) else None)
           in case (style, scalars) of
                (Repeated, Some vs) \<Rightarrow> map (\<lambda>x. (key, x)) vs
              | (Delimited sep, Some vs) \<Rightarrow> [(key, join_with [sep] vs)]
              | _ \<Rightarrow> flatten_form key v)
      | JObj _ \<Rightarrow> flatten_form key v
      | JNull \<Rightarrow> []
      | _ \<Rightarrow> (case scalar_str v of Some s \<Rightarrow> [(key, s)] | None \<Rightarrow> []))"

section \<open>The executor\<close>

record executor =
  xe_base_url :: string
  xe_api_key :: string
  xe_accept :: "string option"
  xe_headers :: "(string \<times> string) list"
  xe_result_format :: result_format

definition reserved_headers :: "string list" where
  "reserved_headers = [''authorization'', ''accept'', ''user-agent'']"

text \<open>\<open>expand\<close> is the secret template's value (\<open>Secrets::expand\<close>); the first failure is the result.\<close>

fun resolve_headers :: "(string \<Rightarrow> string) \<Rightarrow> (string \<Rightarrow> 'e + string) \<Rightarrow> (string \<times> string) list \<Rightarrow> 'e + (string \<times> string) list" where
  "resolve_headers lower expand [] = Inr []"
| "resolve_headers lower expand ((k, v) # hs) =
     (if lower k \<in> set reserved_headers then resolve_headers lower expand hs
      else (case expand v of
          Inl e \<Rightarrow> Inl e
        | Inr x \<Rightarrow> (case resolve_headers lower expand hs of Inl e \<Rightarrow> Inl e | Inr r \<Rightarrow> Inr ((k, x) # r))))"

definition trim_end_matches :: "char \<Rightarrow> string \<Rightarrow> string" where
  "trim_end_matches c s = rev (dropWhile (\<lambda>x. x = c) (rev s))"

definition new_executor :: "string \<Rightarrow> string \<Rightarrow> string option \<Rightarrow> (string \<times> string) list \<Rightarrow> result_format \<Rightarrow> executor" where
  "new_executor base_url api_key accept headers fmt =
     \<lparr>xe_base_url = trim_end_matches (CHR ''/'') base_url, xe_api_key = api_key, xe_accept = accept,
      xe_headers = headers, xe_result_format = fmt\<rparr>"

section \<open>The request\<close>

definition braced :: "string \<Rightarrow> string" where
  "braced k = CHR 0x7B # k @ [CHR 0x7D]"

definition param_text :: "(json \<Rightarrow> string) \<Rightarrow> json \<Rightarrow> string" where
  "param_text ser v = (case as_str v of Some s \<Rightarrow> s | None \<Rightarrow> ser v)"

definition fill_param :: "(json \<Rightarrow> string) \<Rightarrow> string \<times> json \<Rightarrow> string \<Rightarrow> string" where
  "fill_param ser kv path = replace_str (braced (fst kv)) (encode_path_segment (param_text ser (snd kv))) path"

definition fill_path :: "(json \<Rightarrow> string) \<Rightarrow> string \<Rightarrow> json \<Rightarrow> string" where
  "fill_path ser path path_params =
     (case as_object path_params of Some pp \<Rightarrow> fold (fill_param ser) pp path | None \<Rightarrow> path)"

text \<open>The name of the first placeholder left, up to its closing brace or the end.\<close>

definition missing_param :: "string \<Rightarrow> string option" where
  "missing_param path =
     (case dropWhile (\<lambda>c. c \<noteq> CHR 0x7B) path of
        [] \<Rightarrow> None | _ # rest \<Rightarrow> Some (takeWhile (\<lambda>c. c \<noteq> CHR 0x7D) rest))"

definition put_header :: "string \<times> string \<Rightarrow> (string \<times> string) list \<Rightarrow> (string \<times> string) list" where
  "put_header kv merged = filter (\<lambda>(mk, _). \<not> eq_ignore_ascii_case mk (fst kv)) merged @ [kv]"

definition merged_headers :: "executor \<Rightarrow> (string \<times> string) list \<Rightarrow> (string \<times> string) list" where
  "merged_headers ex extra =
     fold put_header extra
       ([(''user-agent'', ''min-mcp'')] @
        (if xe_api_key ex \<noteq> [] then [(''authorization'', ''Bearer '' @ xe_api_key ex)] else []) @
        (case xe_accept ex of Some a \<Rightarrow> [(''accept'', a)] | None \<Rightarrow> []) @
        xe_headers ex)"

definition query_pairs :: "spec \<Rightarrow> operation \<Rightarrow> json \<Rightarrow> (string \<times> string) list option" where
  "query_pairs sp op query_params =
     (case as_object query_params of
        None \<Rightarrow> None
      | Some q \<Rightarrow>
          Some (concat (map (\<lambda>(k, v). serialize_query k v
            (case map_of (query_styles sp op) k of Some st \<Rightarrow> st | None \<Rightarrow> default_query_style sp)) q)))"

datatype http_body = NoBody | JsonBody json | FormBody "(string \<times> string) list"

definition request_body :: "operation \<Rightarrow> json \<Rightarrow> http_body" where
  "request_body op body =
     (if body = JNull \<or> body = JObj [] then NoBody
      else if contains_str (case body_media_type op of Some m \<Rightarrow> m | None \<Rightarrow> []) ''json'' then JsonBody body
      else FormBody (flatten_form [] body))"

record http_request =
  hr_method :: string
  hr_url :: string
  hr_headers :: "(string \<times> string) list"
  hr_query :: "(string \<times> string) list option"
  hr_body :: http_body
  hr_timeout_s :: "nat option"

text \<open>\<open>Inl\<close> is the error envelope of a request that is not built.\<close>

definition build_request ::
  "(json \<Rightarrow> string) \<Rightarrow> executor \<Rightarrow> spec \<Rightarrow> operation \<Rightarrow> json \<Rightarrow> json \<Rightarrow> json \<Rightarrow> (string \<times> string) list \<Rightarrow> nat option
    \<Rightarrow> json + http_request" where
  "build_request ser ex sp op path_params query_params body extra deadline =
     (let path = fill_path ser (op_path op) path_params in
      case missing_param path of
        Some k \<Rightarrow> Inl (JObj [(''error'', JStr (''missing path parameter '' @ debug_str k @ '' for '' @ op_id op))])
      | None \<Rightarrow> Inr
          \<lparr>hr_method = to_ascii_uppercase (op_method op), hr_url = xe_base_url ex @ path,
           hr_headers = merged_headers ex extra, hr_query = query_pairs sp op query_params,
           hr_body = request_body op body, hr_timeout_s = deadline\<rparr>)"

text \<open>What sending gives: a timeout, another transport error, or a status and the body read up to its limit.\<close>

datatype http_outcome = SendTimeout string | SendError string | Answer nat "string + string"

definition timeout_guidance :: string where
  "timeout_guidance = ''The operation may or may not have completed upstream '' @ [CHR 0xE2, CHR 0x80, CHR 0x94] @
     '' for writes, check state before retrying.''"

definition error_envelope :: "string \<Rightarrow> json" where
  "error_envelope e = JObj [(''error'', JStr e)]"

definition http_envelope :: "(json \<Rightarrow> string) \<Rightarrow> (string \<Rightarrow> json option) \<Rightarrow> result_format \<Rightarrow> nat option \<Rightarrow> http_outcome \<Rightarrow> json" where
  "http_envelope ser parse fmt deadline out =
     (case out of
        SendTimeout e \<Rightarrow> error_envelope (case deadline of
            Some d \<Rightarrow> ''TIMEOUT after '' @ show_nat d @ ''s: '' @ timeout_guidance
          | None \<Rightarrow> ''transport error: '' @ e)
      | SendError e \<Rightarrow> error_envelope (''transport error: '' @ e)
      | Answer status (Inl e) \<Rightarrow>
          JObj [(''error'', JStr (''upstream response unreadable: '' @ e)), (''status'', jnat status)]
      | Answer status (Inr body) \<Rightarrow>
          (case format_body ser parse body fmt of (b, t) \<Rightarrow>
             JObj [(''status'', jnat status), (''body'', b), (''truncated'', JBool t)]))"

definition execute ::
  "(json \<Rightarrow> string) \<Rightarrow> (string \<Rightarrow> json option) \<Rightarrow> (http_request \<Rightarrow> 'w \<Rightarrow> http_outcome \<times> 'w) \<Rightarrow> executor \<Rightarrow> spec \<Rightarrow> operation
    \<Rightarrow> json \<Rightarrow> json \<Rightarrow> json \<Rightarrow> (string \<times> string) list \<Rightarrow> nat option \<Rightarrow> 'w \<Rightarrow> json \<times> 'w" where
  "execute ser parse send ex sp op path_params query_params body extra deadline w =
     (case build_request ser ex sp op path_params query_params body extra deadline of
        Inl e \<Rightarrow> (e, w)
      | Inr req \<Rightarrow> (case send req w of (out, w) \<Rightarrow> (http_envelope ser parse (xe_result_format ex) deadline out, w)))"

section \<open>Path parameters stay in their segment\<close>

text \<open>A path template: braces are not nested, are closed, and never span a slash.\<close>

fun template_ok :: "bool \<Rightarrow> string \<Rightarrow> bool" where
  "template_ok inside [] \<longleftrightarrow> \<not> inside"
| "template_ok inside (c # s) \<longleftrightarrow>
     (if c = CHR 0x7B then \<not> inside \<and> template_ok True s
      else if c = CHR 0x7D then template_ok False s
      else if c = CHR ''/'' then \<not> inside \<and> template_ok False s
      else template_ok inside s)"

definition brace_free :: "string \<Rightarrow> bool" where
  "brace_free s \<longleftrightarrow> CHR 0x7B \<notin> set s \<and> CHR 0x7D \<notin> set s"

text \<open>Text that can stand inside one segment.\<close>

definition segment_text :: "string \<Rightarrow> bool" where
  "segment_text s \<longleftrightarrow> list_all (\<lambda>c. unreserved c \<or> c = CHR ''%'') s"

lemma segment_text_no:
  "segment_text s \<Longrightarrow> CHR ''/'' \<notin> set s \<and> CHR ''?'' \<notin> set s \<and> CHR ''#'' \<notin> set s \<and> brace_free s"
  by (auto simp: segment_text_def brace_free_def list_all_iff unreserved_def is_ascii_alphanumeric_def
    is_ascii_digit_def is_ascii_upper_def is_ascii_lower_def)

lemma template_ok_inside: "brace_free k \<Longrightarrow> template_ok True (k @ CHR 0x7D # s) \<Longrightarrow> CHR ''/'' \<notin> set k \<and> template_ok False s"
  by (induction k) (auto simp: brace_free_def split: if_splits)

lemma template_ok_braced:
  assumes "template_ok inside (braced k @ s)" "brace_free k"
  shows "\<not> inside" "CHR ''/'' \<notin> set k" "template_ok False s"
  using assms template_ok_inside [of k s] by (auto simp: braced_def)

lemma template_ok_append: "CHR ''/'' \<notin> set a \<Longrightarrow> brace_free a \<Longrightarrow> template_ok inside (a @ s) = template_ok inside s"
  by (induction a) (auto simp: brace_free_def)

lemma starts_braced: "starts_with (braced k) s \<longleftrightarrow> (\<exists>r. s = braced k @ r)"
  by (auto simp: starts_with_append)

lemma split_on_prefix: "d \<notin> set a \<Longrightarrow> split_on d (a @ s) = (a @ hd (split_on d s)) # tl (split_on d s)"
  by (induction a) (auto simp: neq_Nil_conv split: list.split)

lemma split_on_hd: "\<exists>y. s = hd (split_on d s) @ y"
proof (induction s)
  case (Cons c s)
  then obtain y where "s = hd (split_on d s) @ y" ..
  then show ?case by (cases "split_on d s") auto
qed simp

lemma replace_template:
  "template_ok inside s \<Longrightarrow> brace_free k \<Longrightarrow> segment_text to \<Longrightarrow> template_ok inside (replace_str (braced k) to s)"
proof (induction "braced k" to s arbitrary: inside rule: replace_str.induct)
  case (2 to c s)
  show ?case
  proof (cases "starts_with (braced k) (c # s)")
    case True
    then obtain r where r: "c # s = braced k @ r" by (auto simp: starts_braced)
    from template_ok_braced [OF "2.prems"(1)[unfolded r] "2.prems"(2)] have i: "\<not> inside" "template_ok False r" by auto
    have "template_ok False (replace_str (braced k) to r)"
      using "2.hyps"(1) [of False] True r i "2.prems"(2,3) by (simp add: braced_def)
    then have "template_ok False (to @ replace_str (braced k) to r)"
      using segment_text_no [OF "2.prems"(3)] by (simp add: template_ok_append)
    moreover have "replace_str (braced k) to (c # s) = to @ replace_str (braced k) to r"
      using True r by (simp add: braced_def)
    ultimately show ?thesis using i(1) by simp
  next
    case False
    then show ?thesis using "2.prems" "2.hyps"(2) by (auto split: if_splits)
  qed
qed simp

lemma replace_segments:
  "template_ok inside s \<Longrightarrow> brace_free k \<Longrightarrow> segment_text to \<Longrightarrow>
    split_on (CHR ''/'') (replace_str (braced k) to s) = map (replace_str (braced k) to) (split_on (CHR ''/'') s)"
proof (induction "braced k" to s arbitrary: inside rule: replace_str.induct)
  case (2 to c s)
  have ne: "braced k \<noteq> []" by (simp add: braced_def)
  show ?case
  proof (cases "starts_with (braced k) (c # s)")
    case True
    then obtain r where r: "c # s = braced k @ r" by (auto simp: starts_braced)
    from template_ok_braced [OF "2.prems"(1)[unfolded r] "2.prems"(2)]
    have i: "CHR ''/'' \<notin> set (braced k)" "template_ok False r" by (auto simp: braced_def)
    have ih: "split_on (CHR ''/'') (replace_str (braced k) to r) = map (replace_str (braced k) to) (split_on (CHR ''/'') r)"
      using "2.hyps"(1) [of False] True r i "2.prems"(2,3) by (simp add: braced_def)
    have e: "replace_str (braced k) to (braced k @ x) = to @ replace_str (braced k) to x" for x
      by (simp add: braced_def starts_with_append)
    have "split_on (CHR ''/'') (replace_str (braced k) to (c # s)) =
        (to @ hd (split_on (CHR ''/'') (replace_str (braced k) to r))) # tl (split_on (CHR ''/'') (replace_str (braced k) to r))"
      unfolding r e using segment_text_no [OF "2.prems"(3)] by (simp add: split_on_prefix)
    also have "\<dots> = (to @ replace_str (braced k) to (hd (split_on (CHR ''/'') r))) #
        map (replace_str (braced k) to) (tl (split_on (CHR ''/'') r))"
      by (simp add: ih hd_map map_tl)
    also have "\<dots> = map (replace_str (braced k) to) (split_on (CHR ''/'') (c # s))"
      unfolding r by (simp add: split_on_prefix [OF i(1)] e)
    finally show ?thesis .
  next
    case False
    then have rep: "replace_str (braced k) to (c # s) = c # replace_str (braced k) to s" by simp
    obtain inside' where ok: "template_ok inside' s" using "2.prems"(1) by (auto split: if_splits)
    note ih = "2.hyps"(2) [OF _ ok "2.prems"(2,3)]
    obtain x xs where x: "split_on (CHR ''/'') s = x # xs" by (cases "split_on (CHR ''/'') s") auto
    have no: "\<not> starts_with (braced k) (c # x)" if "c \<noteq> CHR ''/''"
    proof
      assume "starts_with (braced k) (c # x)"
      then obtain r where "c # x = braced k @ r" by (auto simp: starts_braced)
      moreover obtain y where "s = x @ y" using split_on_hd [of s "CHR ''/''"] x by auto
      ultimately have "starts_with (braced k) (c # s)" by (metis append_Cons append_assoc starts_braced)
      with False show False by simp
    qed
    from False ih x no show ?thesis by auto
  qed
qed simp

lemma fill_segments:
  "template_ok False path \<Longrightarrow> list_all (\<lambda>(k, v). brace_free k) pp \<Longrightarrow>
    (\<And>s. segment_text (encode_path_segment s)) \<Longrightarrow>
    split_on (CHR ''/'') (fold (fill_param ser) pp path) = map (fold (fill_param ser) pp) (split_on (CHR ''/'') path) \<and>
    template_ok False (fold (fill_param ser) pp path)"
proof (induction pp arbitrary: path)
  case (Cons kv pp)
  obtain k v where kv: "kv = (k, v)" by (cases kv)
  have "split_on (CHR ''/'') (fill_param ser kv path) = map (fill_param ser kv) (split_on (CHR ''/'') path)"
    "template_ok False (fill_param ser kv path)"
    using replace_segments [OF Cons.prems(1), of k] replace_template [OF Cons.prems(1), of k] Cons.prems(2,3) kv
    by (simp_all add: fill_param_def)
  with Cons.IH Cons.prems(2,3) show ?case by simp
qed simp

text \<open>Decoding, as a server does it.\<close>

definition hex_value_upper :: "char \<Rightarrow> nat" where
  "hex_value_upper c = (if byte c < (58 :: nat) then byte c - 48 else byte c - 55)"

fun percent_decode :: "string \<Rightarrow> string" where
  "percent_decode [] = []"
| "percent_decode (c # s) =
     (if c = CHR ''%'' then
        (case s of
           a # b # r \<Rightarrow> char_of (hex_value_upper a * 16 + hex_value_upper b) # percent_decode r
         | _ \<Rightarrow> c # percent_decode s)
      else c # percent_decode s)"

lemma hex_value_upper_digit: "d < 16 \<Longrightarrow> hex_value_upper (hex_digit_upper d) = d"
  by (simp add: hex_value_upper_def hex_digit_upper_def)

lemma nibbles: "byte c div 16 < (16 :: nat)" "byte c mod 16 < (16 :: nat)"
  using less_mult_imp_div_less [of "byte c" 16 16] nat_of_char_less_256 [of c] by simp_all

lemma decode_byte: "percent_decode (encode_byte c @ s) = c # percent_decode s"
proof (cases "unreserved c")
  case True
  then have "c \<noteq> CHR ''%''"
    by (auto simp: unreserved_def is_ascii_alphanumeric_def is_ascii_digit_def is_ascii_upper_def is_ascii_lower_def)
  with True show ?thesis by (simp add: encode_byte_def)
next
  case False
  have "byte c div 16 * 16 + byte c mod 16 = (byte c :: nat)" by (rule div_mult_mod_eq)
  with False nibbles [of c] show ?thesis by (simp add: encode_byte_def hex_value_upper_digit)
qed

lemma decode_bytes: "percent_decode (concat (map encode_byte s)) = s"
  by (induction s) (simp_all add: decode_byte)

lemma unreserved_hex_digit: "d < 16 \<Longrightarrow> unreserved (hex_digit_upper d)"
  by (auto simp: unreserved_def hex_digit_upper_def is_ascii_alphanumeric_def is_ascii_digit_def is_ascii_upper_def)

lemma segment_text_byte: "segment_text (encode_byte c)"
  using nibbles [of c] by (simp add: segment_text_def encode_byte_def unreserved_hex_digit)

lemma encoded_segment:
  "segment_text (encode_path_segment s)" "encode_path_segment s \<noteq> ''.''" "encode_path_segment s \<noteq> ''..''"
  "percent_decode (encode_path_segment s) = s"
proof -
  have all: "segment_text (concat (map encode_byte s))"
    using segment_text_byte by (induction s) (auto simp: segment_text_def)
  show "segment_text (encode_path_segment s)"
    using all by (auto simp: encode_path_segment_def segment_text_def unreserved_def is_ascii_alphanumeric_def
      is_ascii_digit_def is_ascii_upper_def)
  have "char_of (46 :: nat) = CHR ''.''" by (rule char_of_byte) simp
  then show d: "percent_decode (encode_path_segment s) = s"
    by (auto simp: encode_path_segment_def decode_bytes hex_value_upper_def)
  show "encode_path_segment s \<noteq> ''.''" "encode_path_segment s \<noteq> ''..''"
    using d by (auto simp: encode_path_segment_def hex_value_upper_def split: if_splits)
qed

text \<open>Dot segments as the URL parser of the HTTP client reads them (URL Standard): the percent-encoded dots count.\<close>

definition url_dot_segment :: "string \<Rightarrow> bool" where
  "url_dot_segment s \<longleftrightarrow>
     to_ascii_lowercase s \<in> {''.'', ''%2e'', ''..'', ''.%2e'', ''%2e.'', ''%2e%2e''}"

lemma byte_ascii_lower: "byte (ascii_lower c) = (if is_ascii_upper c then byte c + 32 else byte c :: nat)"
  by (simp add: ascii_lower_def is_ascii_upper_def)

lemma ascii_lower_eqs:
  "ascii_lower c = CHR ''.'' \<longleftrightarrow> c = CHR ''.''" "ascii_lower c = CHR ''%'' \<longleftrightarrow> c = CHR ''%''"
  "ascii_lower c = CHR ''2'' \<longleftrightarrow> c = CHR ''2''" "ascii_lower c = CHR ''e'' \<longleftrightarrow> c = CHR ''e'' \<or> c = CHR ''E''"
proof -
  have eq: "ascii_lower c = d \<longleftrightarrow> byte (ascii_lower c) = (byte d :: nat)" for d
    by (rule of_char_eq_iff [symmetric])
  have eq': "c = d \<longleftrightarrow> byte c = (byte d :: nat)" for d
    by (rule of_char_eq_iff [symmetric])
  show "ascii_lower c = CHR ''.'' \<longleftrightarrow> c = CHR ''.''" "ascii_lower c = CHR ''%'' \<longleftrightarrow> c = CHR ''%''"
    "ascii_lower c = CHR ''2'' \<longleftrightarrow> c = CHR ''2''" "ascii_lower c = CHR ''e'' \<longleftrightarrow> c = CHR ''e'' \<or> c = CHR ''E''"
    unfolding eq eq' byte_ascii_lower by (auto simp: is_ascii_upper_def)
qed

lemma encoded_not_dots:
  assumes "v \<noteq> ''.''" "v \<noteq> ''..''"
  shows "\<not> url_dot_segment (encode_path_segment v)"
proof
  assume "url_dot_segment (encode_path_segment v)"
  then have "encode_path_segment v \<in> {''.'', ''%2e'', ''%2E'', ''..'', ''.%2e'', ''.%2E'', ''%2e.'', ''%2E.'', ''%2e%2e'',
      ''%2e%2E'', ''%2E%2e'', ''%2E%2E''}"
    by (auto simp: url_dot_segment_def to_ascii_lowercase_def map_eq_Cons_conv ascii_lower_eqs)
  moreover have "percent_decode (encode_path_segment v) = v" by (rule encoded_segment(4))
  moreover have "char_of (78 :: nat) = CHR ''N''" "char_of (46 :: nat) = CHR ''.''" by (rule char_of_byte, simp)+
  ultimately show False
    using assms by (auto simp: hex_value_upper_def encode_path_segment_def encode_byte_def unreserved_def
        is_ascii_alphanumeric_def is_ascii_digit_def is_ascii_upper_def is_ascii_lower_def)
qed

text \<open>The two values that are dot segments stay so: the client's URL parser drops the segment, and its parent for
  \<open>..\<close>, and the request goes to another endpoint.\<close>

lemma dot_values_traverse:
  "url_dot_segment (encode_path_segment ''.'')" "url_dot_segment (encode_path_segment ''..'')"
  by (simp_all add: url_dot_segment_def encode_path_segment_def to_ascii_lowercase_def ascii_lower_eqs)

lemma fill_other: "\<not> contains_str s (braced k) \<Longrightarrow> fill_param ser (k, v) s = s"
  by (simp add: fill_param_def replace_str_absent)

lemma contains_braced: "contains_str s (braced k) \<Longrightarrow> CHR 0x7B \<in> set s"
  by (auto simp: contains_str_iff braced_def)

lemma fill_constant: "CHR 0x7B \<notin> set s \<Longrightarrow> fold (fill_param ser) pp s = s"
proof (induction pp)
  case (Cons kv pp)
  then have "\<not> contains_str s (braced (fst kv))" using contains_braced by blast
  then have "fill_param ser kv s = s" using fill_other [of s "fst kv" ser "snd kv"] by simp
  with Cons show ?case by simp
qed simp

lemma braced_in_braced:
  assumes "brace_free k" "brace_free k'" "contains_str (braced k) (braced k')"
  shows "k = k'"
proof -
  obtain a b where ab: "braced k = a @ braced k' @ b" using assms(3) by (auto simp: contains_str_iff)
  have a: "a = []"
  proof (rule ccontr)
    assume "a \<noteq> []"
    then obtain a' where "a = CHR 0x7B # a'" "k @ [CHR 0x7D] = a' @ braced k' @ b"
      using ab by (cases a) (auto simp: braced_def)
    then have "CHR 0x7B \<in> set (k @ [CHR 0x7D])" by (auto simp: braced_def)
    with assms(1) show False by (simp add: brace_free_def)
  qed
  with ab have "k @ [CHR 0x7D] = k' @ CHR 0x7D # b" by (simp add: braced_def)
  then show ?thesis using assms(1,2) by (auto simp: brace_free_def append_eq_append_conv2 append_eq_Cons_conv Cons_eq_append_conv)
qed

lemma replace_self: "replace_str (braced k) to (braced k) = to"
proof -
  have "replace_str (braced k) to (braced k) = to @ replace_str (braced k) to []"
    by (subst (2) braced_def) (simp add: braced_def starts_with_append)
  then show ?thesis by simp
qed

lemma fill_placeholder:
  assumes "list_all (\<lambda>(k, v). brace_free k) pp" "distinct (map fst pp)" "(k, v) \<in> set pp"
  shows "fold (fill_param ser) pp (braced k) = encode_path_segment (param_text ser v)"
  using assms
proof (induction pp)
  case (Cons kv pp)
  obtain k' v' where kv: "kv = (k', v')" by (cases kv)
  show ?case
  proof (cases "k = k'")
    case True
    then have "k \<notin> fst ` set pp" using Cons.prems(2) kv by simp
    then have "(k, v) \<notin> set pp" by force
    then have "v = v'" using Cons.prems(3) kv by simp
    moreover have "CHR 0x7B \<notin> set (encode_path_segment (param_text ser v))"
      using segment_text_no [OF encoded_segment(1)] by (simp add: brace_free_def)
    moreover have "fill_param ser kv (braced k) = encode_path_segment (param_text ser v')"
      using True kv by (simp add: fill_param_def replace_self)
    ultimately show ?thesis using fill_constant by simp
  next
    case False
    have "brace_free k" using Cons.prems(1,3) by (auto simp: list_all_iff)
    moreover have "brace_free k'" using Cons.prems(1) kv by simp
    ultimately have "\<not> contains_str (braced k) (braced k')" using braced_in_braced [of k k'] False by blast
    with False Cons kv show ?thesis by (simp add: fill_other)
  qed
qed simp



section \<open>Path parameters that do not\<close>

text \<open>A parameter name with braces matches across placeholders: the agent reaches another endpoint of the host.\<close>

lemma braces_in_name_change_endpoint:
  "fill_path ser ''/repos/{id}/keys/{key_id}'' (JObj [(''id}/keys/{key_id'', JStr ''x'')]) = ''/repos/x'' \<and>
   missing_param ''/repos/x'' = None"
proof -
  let ?k = "''id}/keys/{key_id''"
  have "''/repos/{id}/keys/{key_id}'' = ''/repos/'' @ braced ?k" by (simp add: braced_def)
  then show ?thesis
    by (simp add: fill_path_def fill_param_def braced_def starts_with_def param_text_def encode_path_segment_def
      encode_byte_def unreserved_def is_ascii_alphanumeric_def is_ascii_lower_def missing_param_def)
qed

end
