(* ===== verification/Backend.thy ===== *)
theory Backend
  imports Results Exec Catalog
begin

text \<open>
  Upstream backends (\<open>src/src/backend.rs\<close>): how far a call got, calls to MCP and spec upstreams, the tools of
  a spec, and the lexical compaction of JSON text. The transports of MCP upstreams and the HTTP client are
  parameters, as are \<open>lower\<close>, \<open>ser\<close> and \<open>parse\<close>; \<open>valid\<close> is serde's syntax check of a JSON text.
\<close>

section \<open>Reach\<close>

datatype reach = NotSent | NoAnswer | Answered

definition outcome :: "reach \<Rightarrow> string" where
  "outcome r = (case r of NotSent \<Rightarrow> ''not_run'' | NoAnswer \<Rightarrow> ''unknown'' | Answered \<Rightarrow> ''failed'')"

text \<open>The result of a call: a tool result, the deadline passing, or an error with its text.\<close>

datatype call_outcome = Returned json reach | TimedOut | CallFailed string

section \<open>Compaction\<close>

fun strip_ws :: "bool \<Rightarrow> bool \<Rightarrow> string \<Rightarrow> string" where
  "strip_ws in_string escaped [] = []"
| "strip_ws in_string escaped (c # s) =
     (if in_string then
        c # (if escaped then strip_ws True False s
             else if c = CHR 0x5C then strip_ws True True s
             else if c = CHR 0x22 then strip_ws False False s
             else strip_ws True False s)
      else if c = CHR 0x22 then c # strip_ws True escaped s
      else if \<not> is_ascii_whitespace c then c # strip_ws False escaped s
      else strip_ws False escaped s)"

definition strip_json_whitespace :: "string \<Rightarrow> string" where
  "strip_json_whitespace = strip_ws False False"

definition compact_block :: "(string \<Rightarrow> bool) \<Rightarrow> json \<Rightarrow> json" where
  "compact_block valid b =
     (case b of
        JObj m \<Rightarrow> (case Option.bind (jget m ''text'') as_str of
            Some t \<Rightarrow>
              if valid t \<and> length (strip_json_whitespace t) < length t
              then JObj (jput ''text'' (JStr (strip_json_whitespace t)) m) else b
          | None \<Rightarrow> b)
      | _ \<Rightarrow> b)"

definition compact_json_texts :: "(string \<Rightarrow> bool) \<Rightarrow> json \<Rightarrow> json" where
  "compact_json_texts valid r = map_blocks (compact_block valid) r"

section \<open>Spec backends\<close>

record spec_backend =
  sb_name :: string
  sb_spec :: spec
  sb_executor :: executor

text \<open>Building one: \<open>read_spec\<close> reads and parses the document, \<open>env\<close> the environment; the errors in the order they
  arise.\<close>

datatype 'e spec_error = NoSpecPath | NoBaseUrl | KeyUnresolved 'e | SpecUnloadable | HeaderUnresolved 'e

definition api_key_of :: "(string \<Rightarrow> 'e + string) \<Rightarrow> (string \<Rightarrow> string option) \<Rightarrow> upstream_config \<Rightarrow> 'e + string" where
  "api_key_of expand env cfg =
     (case (up_api_key cfg, up_auth_env cfg) of
        (Some t, _) \<Rightarrow> expand t
      | (None, Some var) \<Rightarrow> Inr (case env var of Some v \<Rightarrow> v | None \<Rightarrow> [])
      | (None, None) \<Rightarrow> Inr [])"

definition new_spec_backend ::
  "(string \<Rightarrow> string) \<Rightarrow> (json \<Rightarrow> string) \<Rightarrow> (string \<Rightarrow> 'e + string) \<Rightarrow> (string \<Rightarrow> string option) \<Rightarrow> (string \<Rightarrow> json option)
    \<Rightarrow> upstream_config \<Rightarrow> 'e spec_error + spec_backend" where
  "new_spec_backend lower ser expand env read_spec cfg =
     (case (up_spec cfg, up_base_url cfg) of
        (None, _) \<Rightarrow> Inl NoSpecPath
      | (_, None) \<Rightarrow> Inl NoBaseUrl
      | (Some path, Some base_url) \<Rightarrow>
          (case api_key_of expand env cfg of
             Inl e \<Rightarrow> Inl (KeyUnresolved e)
           | Inr key \<Rightarrow>
               (case read_spec path of
                  None \<Rightarrow> Inl SpecUnloadable
                | Some doc \<Rightarrow>
                    (case resolve_headers lower expand (up_headers cfg) of
                       Inl e \<Rightarrow> Inl (HeaderUnresolved e)
                     | Inr hs \<Rightarrow> Inr \<lparr>sb_name = up_name cfg, sb_spec = from_value lower ser doc,
                         sb_executor = new_executor base_url key (up_accept cfg) hs (result_format_of cfg)\<rparr>))))"

definition spec_list_tools :: "spec_backend \<Rightarrow> nat \<Rightarrow> tool_def list" where
  "spec_list_tools sb idx =
     map (\<lambda>op. let get = eq_ignore_ascii_case (op_method op) ''get'' in
       \<lparr>td_upstream_idx = idx, td_name = op_id op, td_description = one_line op,
        td_input_schema = tool_input_schema_shallow (sb_spec sb) op, td_id = sb_name sb @ ''.'' @ op_id op,
        td_read_only = Some get,
        td_extra = (if get then [(''annotations'', JObj [(''readOnlyHint'', JBool True)])] else [])\<rparr>)
       (sp_operations (sb_spec sb))"

definition spec_call_tool ::
  "(json \<Rightarrow> string) \<Rightarrow> (string \<Rightarrow> json option) \<Rightarrow> (http_request \<Rightarrow> 'w \<Rightarrow> http_outcome \<times> 'w) \<Rightarrow> spec_backend \<Rightarrow> string \<Rightarrow> json
    \<Rightarrow> (string \<times> string) list \<Rightarrow> nat option \<Rightarrow> 'w \<Rightarrow> (json \<times> reach) \<times> 'w" where
  "spec_call_tool ser parse send sb oid args extra deadline w =
     (case spec_get (sb_spec sb) oid of
        None \<Rightarrow> ((text_result (''unknown operation '' @ debug_str oid) True, NotSent), w)
      | Some op \<Rightarrow>
          (let arg = (\<lambda>k. case vget args k of Some v \<Rightarrow> v | None \<Rightarrow> JObj []) in
           case execute ser parse send (sb_executor sb) (sb_spec sb) op (arg ''path_params'') (arg ''query_params'')
               (arg ''body'') extra deadline w of
             (out, w) \<Rightarrow>
               (let is_error = (vget out ''error'' \<noteq> None \<or>
                      (case Option.bind (vget out ''status'') as_u64 of Some s \<Rightarrow> 400 \<le> s | None \<Rightarrow> False));
                    r = (if vget out ''status'' \<noteq> None then Answered else NoAnswer)
                in ((text_result (ser out) is_error, r), w))))"

section \<open>Backends\<close>

text \<open>An MCP upstream, spawned or remote, is its name, its result format and its call: the result, or the error
  with its text and whether it is the deadline. What it lists, whether it is stale, its resources and prompts
  are asked of the transport.\<close>

datatype mcp_outcome = McpResult json | McpTimeout | McpError string

datatype 'w backend =
    Mcp string result_format "string \<Rightarrow> json \<Rightarrow> nat option \<Rightarrow> 'w \<Rightarrow> mcp_outcome \<times> 'w"
  | Http string result_format "string \<Rightarrow> json \<Rightarrow> nat option \<Rightarrow> 'w \<Rightarrow> mcp_outcome \<times> 'w"
  | Spec spec_backend "http_request \<Rightarrow> 'w \<Rightarrow> http_outcome \<times> 'w"

definition mcp_call :: "(string \<Rightarrow> bool) \<Rightarrow> result_format \<Rightarrow> mcp_outcome \<Rightarrow> call_outcome" where
  "mcp_call valid fmt out =
     (case out of
        McpResult r \<Rightarrow> Returned (if fmt = RF_Json then compact_json_texts valid r else r) Answered
      | McpTimeout \<Rightarrow> TimedOut
      | McpError e \<Rightarrow> CallFailed e)"

definition call_tool_reach ::
  "(json \<Rightarrow> string) \<Rightarrow> (string \<Rightarrow> json option) \<Rightarrow> (string \<Rightarrow> bool) \<Rightarrow> 'w backend \<Rightarrow> string \<Rightarrow> json \<Rightarrow> (string \<times> string) list
    \<Rightarrow> nat option \<Rightarrow> 'w \<Rightarrow> call_outcome \<times> 'w" where
  "call_tool_reach ser parse valid b name args extra deadline w =
     (case b of
        Spec sb send \<Rightarrow>
          (case spec_call_tool ser parse send sb name args extra deadline w of ((r, reached), w) \<Rightarrow> (Returned r reached, w))
      | Mcp _ fmt transport \<Rightarrow> (case transport name args deadline w of (out, w) \<Rightarrow> (mcp_call valid fmt out, w))
      | Http _ fmt transport \<Rightarrow> (case transport name args deadline w of (out, w) \<Rightarrow> (mcp_call valid fmt out, w)))"

definition backend_name :: "'w backend \<Rightarrow> string" where
  "backend_name b = (case b of Mcp n _ _ \<Rightarrow> n | Http n _ _ \<Rightarrow> n | Spec sb _ \<Rightarrow> sb_name sb)"

definition backend_resolved_schema :: "'w backend \<Rightarrow> string \<Rightarrow> json option" where
  "backend_resolved_schema b tool_name =
     (case b of
        Spec sb _ \<Rightarrow> map_option (tool_input_schema (sb_spec sb)) (spec_get (sb_spec sb) tool_name) | _ \<Rightarrow> None)"

definition backend_origin :: "'w backend \<Rightarrow> string \<Rightarrow> string" where
  "backend_origin b original_name =
     (case b of
        Spec sb _ \<Rightarrow> (case spec_get (sb_spec sb) original_name of
            Some op \<Rightarrow> to_ascii_uppercase (op_method op) @ '' '' @ op_path op | None \<Rightarrow> original_name)
      | _ \<Rightarrow> original_name)"

definition backend_kind_of :: "'w backend \<Rightarrow> backend_kind" where
  "backend_kind_of b = (case b of Mcp _ _ _ \<Rightarrow> BK_Mcp | Http _ _ _ \<Rightarrow> BK_Http | Spec _ _ \<Rightarrow> BK_Spec)"

text \<open>The upstream as the catalog sees it.\<close>

definition upstream_of :: "'w backend \<Rightarrow> upstream" where
  "upstream_of b = \<lparr>us_name = backend_name b, us_kind = backend_kind_of b, us_resolved = backend_resolved_schema b,
     us_origin = backend_origin b\<rparr>"

section \<open>Compaction is lexical\<close>

text \<open>The tokens of a JSON text: string literals, with any escapes, and runs of other characters.\<close>

fun literal_body :: "string \<Rightarrow> bool" where
  "literal_body [] \<longleftrightarrow> True"
| "literal_body (c # s) \<longleftrightarrow>
     (if c = CHR 0x5C then (case s of [] \<Rightarrow> False | _ # r \<Rightarrow> literal_body r)
      else c \<noteq> CHR 0x22 \<and> literal_body s)"

datatype token = Literal string | Bare string

fun token_text :: "token \<Rightarrow> string" where
  "token_text (Literal b) = CHR 0x22 # b @ [CHR 0x22]"
| "token_text (Bare s) = s"

fun token_ok :: "token \<Rightarrow> bool" where
  "token_ok (Literal b) \<longleftrightarrow> literal_body b"
| "token_ok (Bare s) \<longleftrightarrow> list_all (\<lambda>c. c \<noteq> CHR 0x22 \<and> \<not> is_ascii_whitespace c) s"

text \<open>A text: whitespace before each token, and after the last.\<close>

definition spaced_text :: "(string \<times> token) list \<Rightarrow> string \<Rightarrow> string" where
  "spaced_text ts end = concat (map (\<lambda>(ws, t). ws @ token_text t) ts) @ end"

lemma strip_literal: "literal_body b \<Longrightarrow> strip_ws True False (b @ CHR 0x22 # s) = b @ CHR 0x22 # strip_ws False False s"
proof (induction b rule: literal_body.induct)
  case (2 c s)
  then show ?case by (cases s) (auto split: if_splits)
qed simp

lemma strip_white: "list_all is_ascii_whitespace ws \<Longrightarrow> strip_ws False False (ws @ s) = strip_ws False False s"
  by (induction ws) (auto simp: is_ascii_whitespace_def)

lemma strip_bare: "token_ok (Bare b) \<Longrightarrow> strip_ws False False (b @ s) = b @ strip_ws False False s"
  by (induction b) auto

text \<open>Whatever whitespace stands between the tokens of a text goes, and every token stays byte for byte:
  the numbers, the strings and their escapes.\<close>

lemma compaction_lexical:
  assumes "list_all (\<lambda>(ws, t). list_all is_ascii_whitespace ws \<and> token_ok t) ts" "list_all is_ascii_whitespace end"
  shows "strip_json_whitespace (spaced_text ts end) = concat (map (token_text \<circ> snd) ts)"
  using assms(1)
proof (induction ts)
  case Nil
  then show ?case using strip_white [OF assms(2), of "[]"] by (simp add: strip_json_whitespace_def spaced_text_def)
next
  case (Cons wt ts)
  obtain ws t where wt: "wt = (ws, t)" by (cases wt)
  with Cons show ?case
    by (cases t) (simp_all add: strip_json_whitespace_def spaced_text_def strip_white strip_literal strip_bare)
qed

end
