(* ===== verification/Index.thy ===== *)
theory Index
  imports Names Complex_Main "HOL-Library.List_Lexorder" "HOL-Library.Char_ord"
begin

text \<open>
  The search index (\<open>src/src/index.rs\<close>): splitting identifiers, what is indexed of a tool, the rerank layers and
  the exact-name tier. The BM25 engine is a crate and a parameter: it is given the documents and the query after
  \<open>split_identifier\<close>, and answers scored ids. Scores are exact rationals; \<open>ln1p n\<close> stands for \<open>ln (1 + n)\<close>.
  The Unicode tables are parameters, on a character's bytes.
\<close>

section \<open>Constants and options\<close>

definition usage_damp :: rat where
  "usage_damp = 15 / 100"

definition verb_boost :: rat where
  "verb_boost = 13 / 10"

definition short_query_words :: nat where
  "short_query_words = 8"

definition summary_cap :: nat where
  "summary_cap = 200"

definition body_cap :: nat where
  "body_cap = 300"

definition id_repeats :: nat where
  "id_repeats = 3"

definition summary_repeats :: nat where
  "summary_repeats = 2"

definition params_cap :: nat where
  "params_cap = 200"

definition params_depth :: nat where
  "params_depth = 3"

record index_options =
  io_rerank :: bool
  io_params :: bool
  io_field_weights :: bool

definition default_index_options :: index_options where
  "default_index_options = \<lparr>io_rerank = True, io_params = False, io_field_weights = False\<rparr>"

definition verb_affinity :: "(string list \<times> string list) list" where
  "verb_affinity =
     [([''create'', ''add'', ''new'', ''make''], [''create'', ''post'', ''add'', ''new'']),
      ([''update'', ''change'', ''edit'', ''set'', ''modify''], [''update'', ''patch'', ''put'', ''post'', ''set'', ''modify'']),
      ([''delete'', ''remove'', ''cancel'', ''destroy''], [''delete'', ''remove'', ''cancel'', ''destroy'']),
      ([''list'', ''get'', ''find'', ''search'', ''show'', ''retrieve''], [''list'', ''get'', ''find'', ''search'', ''show'', ''retrieve''])]"

section \<open>Splitting identifiers\<close>

record unicode =
  uc_alnum :: "string \<Rightarrow> bool"
  uc_upper :: "string \<Rightarrow> bool"
  uc_lower :: "string \<Rightarrow> bool"
  uc_to_lower :: "string \<Rightarrow> string"
  uc_lowercase :: "string \<Rightarrow> string"

definition char_alnum :: "unicode \<Rightarrow> string \<Rightarrow> bool" where
  "char_alnum uc c = (case c of [b] \<Rightarrow> is_ascii_alphanumeric b | _ \<Rightarrow> uc_alnum uc c)"

definition char_upper :: "unicode \<Rightarrow> string \<Rightarrow> bool" where
  "char_upper uc c = (case c of [b] \<Rightarrow> is_ascii_upper b | _ \<Rightarrow> uc_upper uc c)"

definition char_lower :: "unicode \<Rightarrow> string \<Rightarrow> bool" where
  "char_lower uc c = (case c of [b] \<Rightarrow> is_ascii_lower b | _ \<Rightarrow> uc_lower uc c)"

definition char_digit :: "string \<Rightarrow> bool" where
  "char_digit c = (case c of [b] \<Rightarrow> is_ascii_digit b | _ \<Rightarrow> False)"

text \<open>Does a word start at \<open>c\<close>, given the characters before it (last first) and after it?\<close>

definition word_starts :: "unicode \<Rightarrow> string list \<Rightarrow> string \<Rightarrow> string list \<Rightarrow> bool" where
  "word_starts uc before c after \<longleftrightarrow>
     (case before of
        [] \<Rightarrow> False
      | p # ps \<Rightarrow> char_upper uc c \<and>
          (char_lower uc p \<or> char_digit p \<or>
           (char_upper uc p \<and> (case ps of q # _ \<Rightarrow> char_upper uc q | [] \<Rightarrow> False) \<and>
            (case after of n # _ \<Rightarrow> char_lower uc n | [] \<Rightarrow> False))))"

definition add_space :: "string \<Rightarrow> string" where
  "add_space out = (if out = [] \<or> last out = CHR '' '' then out else out @ '' '')"

fun split_chars :: "unicode \<Rightarrow> string list \<Rightarrow> string list \<Rightarrow> string \<Rightarrow> string" where
  "split_chars uc before [] out = out"
| "split_chars uc before (c # after) out =
     split_chars uc (c # before) after
       (if \<not> char_alnum uc c then add_space out
        else (if word_starts uc before c after then add_space out else out) @ c)"

definition split_identifier :: "unicode \<Rightarrow> string \<Rightarrow> string" where
  "split_identifier uc s = split_chars uc [] (utf8_chars s) []"

definition raw_tokens :: "unicode \<Rightarrow> string \<Rightarrow> string list" where
  "raw_tokens uc s = map (uc_lowercase uc) (split_whitespace (split_identifier uc s))"

section \<open>Parameter names of a schema\<close>

text \<open>Breadth first over \<open>params_depth\<close> levels, while the text is below the cap.\<close>

definition add_name :: "string \<Rightarrow> string \<Rightarrow> string" where
  "add_name name out = (if length out < params_cap then (if out = [] then [] else out @ '' '') @ name else out)"

definition schema_props :: "json \<Rightarrow> jmap" where
  "schema_props node = (case Option.bind (vget node ''properties'') as_object of Some props \<Rightarrow> props | None \<Rightarrow> [])"

definition schema_next :: "json \<Rightarrow> json list" where
  "schema_next node =
     map snd (schema_props node) @
     List.map_filter (vget node) [''items'', ''additionalProperties''] @
     concat (List.map_filter (\<lambda>k. Option.bind (vget node k) as_array) [''anyOf'', ''oneOf'', ''allOf''])"

fun param_levels :: "nat \<Rightarrow> json list \<Rightarrow> string \<Rightarrow> string" where
  "param_levels 0 level out = out"
| "param_levels (Suc d) level out =
     (if params_cap \<le> length out \<or> level = [] then out
      else param_levels d (concat (map schema_next level))
        (fold (\<lambda>node. fold (\<lambda>(name, _). add_name name) (schema_props node)) level out))"

definition schema_param_text :: "json \<Rightarrow> string" where
  "schema_param_text schema = param_levels params_depth [schema] []"

section \<open>Building\<close>

record indexed_tool =
  it_id :: string
  it_description :: string
  it_params :: string

definition take_chars :: "nat \<Rightarrow> string \<Rightarrow> string" where
  "take_chars n s = concat (take n (utf8_chars s))"

definition weighted_contents :: "string \<Rightarrow> string \<Rightarrow> string \<Rightarrow> index_options \<Rightarrow> string" where
  "weighted_contents tool_id description params opts =
     (let (first, rest) = (case split_once (CHR 0x0A) description of Some p \<Rightarrow> p | None \<Rightarrow> (description, []));
          (ids, summaries) = (if io_field_weights opts then (id_repeats, summary_repeats) else (1, 1))
      in concat (replicate ids (tool_id @ '' '')) @ concat (replicate summaries (take_chars summary_cap first @ '' '')) @
         take_chars body_cap rest @ (if params = [] then [] else '' '' @ params))"

type_synonym hit = "string \<times> rat"

record index =
  ix_engine :: "string \<Rightarrow> hit list"
  ix_meta :: "(string \<times> string list) list"
  ix_exact :: "(string \<times> string list) list"
  ix_opts :: index_options

definition exact_keys :: "unicode \<Rightarrow> string \<Rightarrow> string list" where
  "exact_keys uc tool_id = normalize_id (uc_alnum uc) (uc_to_lower uc) tool_id #
     (case split_once (CHR ''.'') tool_id of Some (_, name) \<Rightarrow> [normalize_id (uc_alnum uc) (uc_to_lower uc) name] | None \<Rightarrow> [])"

definition push_id :: "string \<Rightarrow> string \<Rightarrow> (string \<times> string list) list \<Rightarrow> (string \<times> string list) list" where
  "push_id tool_id key m = alist_put key ((case map_of m key of Some ids \<Rightarrow> ids | None \<Rightarrow> []) @ [tool_id]) m"

definition exact_map :: "unicode \<Rightarrow> string list \<Rightarrow> (string \<times> string list) list" where
  "exact_map uc ids = fold (\<lambda>tool_id m. fold (push_id tool_id) (exact_keys uc tool_id) m) ids []"

definition build_index ::
  "unicode \<Rightarrow> ((string \<times> string) list \<Rightarrow> string \<Rightarrow> hit list) \<Rightarrow> index_options \<Rightarrow> indexed_tool list \<Rightarrow> index" where
  "build_index uc bm25 opts tools =
     (let docs = map (\<lambda>t. (it_id t, split_identifier uc
            (weighted_contents (it_id t) (it_description t) (if io_params opts then it_params t else []) opts))) tools
      in \<lparr>ix_engine = (if docs = [] then (\<lambda>_. []) else (\<lambda>q. bm25 docs (split_identifier uc q))),
          ix_meta = fold (\<lambda>t. alist_put (it_id t) (raw_tokens uc (it_id t))) tools [],
          ix_exact = exact_map uc (map it_id tools), ix_opts = opts\<rparr>)"

section \<open>Searching\<close>

definition desired_id_tokens :: "string list \<Rightarrow> string list" where
  "desired_id_tokens q = fold (\<lambda>t want. if t \<in> set want then want else want @ [t])
     (concat (map (\<lambda>w. concat (map (\<lambda>(verbs, ids). if w \<in> set verbs then ids else []) verb_affinity)) q)) []"

definition rerank :: "(nat \<Rightarrow> rat) \<Rightarrow> index \<Rightarrow> string list \<Rightarrow> string list \<Rightarrow> bool \<Rightarrow> hit \<Rightarrow> hit" where
  "rerank ln1p ix used desired terse h =
     (case h of (tool_id, score) \<Rightarrow>
        (let score = (case map_of (ix_meta ix) tool_id of
               None \<Rightarrow> score
             | Some toks \<Rightarrow>
                 (let score = (if list_ex (\<lambda>t. t \<in> set toks) desired then score * verb_boost else score)
                  in if terse then score * (1 / (1 + 4 / 100 * of_nat (length toks))) else score))
         in (tool_id, score * (1 + usage_damp * ln1p (count_list used tool_id)))))"

definition rank_hits :: "hit list \<Rightarrow> hit list" where
  "rank_hits = sort_key (\<lambda>(tool_id, score). (- score, tool_id))"

definition promote_exact :: "index \<Rightarrow> string \<Rightarrow> hit list \<Rightarrow> hit list" where
  "promote_exact ix q scored =
     (case map_of (ix_exact ix) q of
        None \<Rightarrow> scored
      | Some ids \<Rightarrow>
          (let top = (case scored of h # _ \<Rightarrow> snd h | [] \<Rightarrow> 1) in
           map (\<lambda>tool_id. (tool_id, top)) (remdups (sort ids)) @ filter (\<lambda>h. fst h \<notin> set ids) scored))"

text \<open>\<open>used\<close> lists the successful calls so far: the usage prior.\<close>

definition search_index :: "unicode \<Rightarrow> (nat \<Rightarrow> rat) \<Rightarrow> index \<Rightarrow> string list \<Rightarrow> string \<Rightarrow> nat \<Rightarrow> hit list" where
  "search_index uc ln1p ix used query k =
     (let q = raw_tokens uc query;
          hits = ix_engine ix query;
          scored = rank_hits (if io_rerank (ix_opts ix)
            then map (rerank ln1p ix used (desired_id_tokens q) (length q \<le> short_query_words)) hits else hits)
      in take k (if io_rerank (ix_opts ix)
           then promote_exact ix (normalize_id (uc_alnum uc) (uc_to_lower uc) query) scored else scored))"

section \<open>What a search returns\<close>

lemma map_of_push_id:
  "map_of (push_id tool_id key m) k =
     (if k = key then Some ((case map_of m k of Some ids \<Rightarrow> ids | None \<Rightarrow> []) @ [tool_id]) else map_of m k)"
  by (simp add: push_id_def map_of_alist_put)

definition ids_at :: "(string \<times> string list) list \<Rightarrow> string \<Rightarrow> string list" where
  "ids_at m k = (case map_of m k of Some ids \<Rightarrow> ids | None \<Rightarrow> [])"

lemma ids_at_push_id: "set (ids_at (push_id tool_id key m) k) = set (ids_at m k) \<union> (if k = key then {tool_id} else {})"
  by (auto simp: ids_at_def map_of_push_id split: option.splits)

lemma ids_at_push_ids:
  "set (ids_at (fold (push_id tool_id) keys m) k) = set (ids_at m k) \<union> (if k \<in> set keys then {tool_id} else {})"
  by (induction keys arbitrary: m) (auto simp: ids_at_push_id split: if_splits)

lemma set_ids_at_exact_map: "set (ids_at (exact_map uc ids) k) = {tool_id \<in> set ids. k \<in> set (exact_keys uc tool_id)}"
proof -
  have "set (ids_at (fold (\<lambda>tool_id m. fold (push_id tool_id) (exact_keys uc tool_id) m) ids m) k) =
      set (ids_at m k) \<union> {tool_id \<in> set ids. k \<in> set (exact_keys uc tool_id)}" for m
    by (induction ids arbitrary: m) (auto simp: ids_at_push_ids split: if_splits)
  then show ?thesis by (simp add: exact_map_def ids_at_def)
qed

definition exact_ids :: "unicode \<Rightarrow> indexed_tool list \<Rightarrow> string \<Rightarrow> string list" where
  "exact_ids uc tools query = sorted_list_of_set
     {tool_id \<in> it_id ` set tools. normalize_id (uc_alnum uc) (uc_to_lower uc) query \<in> set (exact_keys uc tool_id)}"

lemma remdups_sort_set: "remdups (sort xs) = sorted_list_of_set (set (xs :: 'a :: linorder list))"
  by (rule sorted_distinct_set_unique) (auto intro: sorted_remdups)

lemma promote_exact_alt:
  "promote_exact ix q scored =
     (let top = (case scored of h # _ \<Rightarrow> snd h | [] \<Rightarrow> 1); ids = sorted_list_of_set (set (ids_at (ix_exact ix) q)) in
      map (\<lambda>tool_id. (tool_id, top)) ids @ filter (\<lambda>h. fst h \<notin> set ids) scored)"
  by (auto simp: promote_exact_def ids_at_def remdups_sort_set Let_def split: option.splits intro: filter_cong)

lemma rank_hits_sorted: "sorted_wrt (\<lambda>a b. snd b \<le> snd a) (rank_hits hs)"
proof -
  have "sorted (map (\<lambda>(tool_id, score). (- score, tool_id)) (rank_hits hs))"
    by (simp add: rank_hits_def)
  then show ?thesis
    by (auto simp: sorted_map sorted_wrt_map less_eq_prod_def split: prod.splits elim!: sorted_wrt_mono_rel [rotated])
qed

lemma rerank_fst [simp]: "fst (rerank ln1p ix used desired terse h) = fst h"
  by (simp add: rerank_def split: prod.splits)

lemma distinct_rank_hits: "distinct (map fst hs) \<Longrightarrow> distinct (map fst (rank_hits hs))"
  unfolding rank_hits_def by (metis distinct_map distinct_sort inj_on_cong set_sort)

lemma set_rank_hits [simp]: "set (rank_hits hs) = set hs"
  by (simp add: rank_hits_def)

lemma sorted_from_head:
  assumes "sorted_wrt (\<lambda>a b. snd b \<le> snd a) hs" "h \<in> set hs"
  shows "snd h \<le> (case hs of g # _ \<Rightarrow> (snd g :: rat) | [] \<Rightarrow> 1)"
  using assms by (cases hs) auto

text \<open>Ids put at the head of a ranked list, with its top score.\<close>

lemma promoted_head:
  assumes "distinct E" "distinct (map fst scored)" "sorted_wrt (\<lambda>a b. snd b \<le> snd a) scored"
  defines "rs \<equiv> map (\<lambda>tool_id. (tool_id, case scored of h # _ \<Rightarrow> snd h | [] \<Rightarrow> (1 :: rat))) E @ filter (\<lambda>h. fst h \<notin> set E) scored"
  shows "map fst rs = E @ map fst (filter (\<lambda>h. fst h \<notin> set E) scored)" "distinct (map fst rs)"
    "sorted_wrt (\<lambda>a b. snd b \<le> snd a) rs" "set (map fst rs) = set E \<union> fst ` set scored" "length rs \<le> length E + length scored"
proof -
  show ids: "map fst rs = E @ map fst (filter (\<lambda>h. fst h \<notin> set E) scored)" by (simp add: rs_def comp_def)
  show "distinct (map fst rs)" using assms(1,2) by (auto simp: ids distinct_map_filter)
  show "sorted_wrt (\<lambda>a b. snd b \<le> snd a) rs"
    using sorted_from_head [OF assms(3)] assms(3)
    by (auto simp: rs_def sorted_wrt_append sorted_wrt_map sorted_wrt_filter intro: sorted_wrt_true)
  have "fst ` set (filter (\<lambda>h. fst h \<notin> set E) scored) = fst ` set scored - set E" by auto
  then show "set (map fst rs) = set E \<union> fst ` set scored" by (simp only: ids set_append set_map) blast
  show "length rs \<le> length E + length scored" by (simp add: rs_def)
qed

text \<open>C38: A search whose query spells a tool's name, with or without its upstream's prefix, lists exactly the tools of
  that name first, each once and in the order of their ids, then the engine's other hits; no tool is listed twice, the
  scores never rise down the list, at most \<open>k\<close> are listed, and every hit of the engine is among them when \<open>k\<close>
  leaves room.\<close>

theorem exact_names_first:
  assumes "ix = build_index uc bm25 default_index_options tools"
    and "distinct (map fst (ix_engine ix query))"
    and "E = exact_ids uc tools query"
    and "r = search_index uc ln1p ix used query k"
  shows "take (length E) (map fst r) = take k E \<and> distinct (map fst r) \<and> length r \<le> k \<and>
    sorted_wrt (\<lambda>a b. snd b \<le> snd a) r \<and>
    (length E + length (ix_engine ix query) \<le> k \<longrightarrow> set (map fst r) = set E \<union> fst ` set (ix_engine ix query))"
proof -
  define q where "q = normalize_id (uc_alnum uc) (uc_to_lower uc) query"
  define scored where "scored = rank_hits (map (rerank ln1p ix used (desired_id_tokens (raw_tokens uc query))
    (length (raw_tokens uc query) \<le> short_query_words)) (ix_engine ix query))"
  define rs where "rs = map (\<lambda>tool_id. (tool_id, case scored of h # _ \<Rightarrow> snd h | [] \<Rightarrow> 1)) E @ filter (\<lambda>h. fst h \<notin> set E) scored"
  have E: "E = sorted_list_of_set (set (ids_at (ix_exact ix) q))"
    using assms(1,3) by (simp add: build_index_def Let_def set_ids_at_exact_map exact_ids_def q_def)
  have r: "r = take k rs"
    using assms(1,4) by (simp add: search_index_def promote_exact_alt Let_def E scored_def q_def rs_def
        build_index_def default_index_options_def)
  have dE: "distinct E" by (simp add: E)
  have ds: "distinct (map fst scored)"
    unfolding scored_def by (rule distinct_rank_hits) (use assms(2) in \<open>simp add: comp_def\<close>)
  have "sorted_wrt (\<lambda>a b. snd b \<le> snd a) scored"
    unfolding scored_def by (rule rank_hits_sorted)
  note head = promoted_head [OF dE ds this, folded rs_def]
  have scored: "fst ` set scored = fst ` set (ix_engine ix query)" "length scored = length (ix_engine ix query)"
    by (auto simp: scored_def image_image rank_hits_def)
  have "take (length E) (map fst r) = take k E"
    unfolding r take_map [symmetric] head(1) by (cases "length E \<le> k") auto
  moreover have "distinct (map fst r)" "sorted_wrt (\<lambda>a b. snd b \<le> snd a) r"
    using head(2,3) by (simp_all add: r take_map [symmetric] sorted_wrt_take)
  moreover have "set (map fst r) = set E \<union> fst ` set (ix_engine ix query)" if "length E + length (ix_engine ix query) \<le> k"
    using head(4,5) that by (simp add: r scored)
  ultimately show ?thesis by (simp add: r)
qed

lemma exact_names_first_witness:
  "let uc = \<lparr>uc_alnum = (\<lambda>_. True), uc_upper = (\<lambda>_. False), uc_lower = (\<lambda>_. True), uc_to_lower = (\<lambda>c. c), uc_lowercase = to_ascii_lowercase\<rparr>;
       tools = [\<lparr>it_id = ''x.do_it'', it_description = ''Run the job'', it_params = []\<rparr>];
       ix = build_index uc (\<lambda>docs q. [(''y.other'', 1)]) default_index_options tools
   in take 1 (map fst (search_index uc (\<lambda>_. 0) ix [] ''do-it'' 5)) = [''x.do_it'']"
proof -
  define uc where "uc = \<lparr>uc_alnum = (\<lambda>_. True), uc_upper = (\<lambda>_. False), uc_lower = (\<lambda>_. True), uc_to_lower = (\<lambda>c :: string. c), uc_lowercase = to_ascii_lowercase\<rparr>"
  let ?t = "[\<lparr>it_id = ''x.do_it'', it_description = ''Run the job'', it_params = []\<rparr>]"
  define ix where "ix = build_index uc (\<lambda>docs q. [(''y.other'', 1)]) default_index_options ?t"
  have n: "normalize_id (uc_alnum uc) (uc_to_lower uc) ''do-it'' = ''doit''"
    "exact_keys uc ''x.do_it'' = [''xdoit'', ''doit'']"
    unfolding uc_def by code_simp+
  have E: "exact_ids uc ?t ''do-it'' = [''x.do_it'']"
    by (simp add: exact_ids_def n cong: conj_cong)
  have "distinct (map fst (ix_engine ix ''do-it''))"
    by (simp add: ix_def build_index_def Let_def)
  from exact_names_first [OF ix_def this refl refl, of "\<lambda>_. 0" "[]" 5]
  have "take 1 (map fst (search_index uc (\<lambda>_. 0) ix [] ''do-it'' 5)) = [''x.do_it'']"
    unfolding E by (auto simp del: take_Suc)
  then show ?thesis unfolding ix_def uc_def Let_def .
qed

end
