(* ===== verification/Shadow.thy ===== *)
theory Shadow
  imports Index
begin

text \<open>
  Shadow selection (\<open>src/src/surface/shadow.rs\<close>): challenger indexes run over each search, and the next call scores
  them. Nothing of it is served; it only adds audit rows.
\<close>

definition max_remembered :: nat where
  "max_remembered = 20"

definition max_query_chars :: nat where
  "max_query_chars = 2000"

type_synonym challenger = "string \<times> index"

definition variants :: "(string \<times> index_options) list" where
  "variants =
     [(''baseline'', default_index_options),
      (''plain_bm25'', default_index_options\<lparr>io_rerank := False\<rparr>),
      (''field_weights'', default_index_options\<lparr>io_field_weights := True\<rparr>),
      (''params'', default_index_options\<lparr>io_params := True\<rparr>),
      (''plain_params'', default_index_options\<lparr>io_rerank := False, io_params := True\<rparr>)]"

definition new_shadow ::
  "unicode \<Rightarrow> ((string \<times> string) list \<Rightarrow> string \<Rightarrow> hit list) \<Rightarrow> indexed_tool list \<Rightarrow> bool \<Rightarrow> challenger list" where
  "new_shadow uc bm25 corpus enabled =
     (if enabled then map (\<lambda>(meth, opts). (meth, build_index uc bm25 opts corpus)) variants else [])"

record turn =
  tn_ranked :: "(string \<times> string list) list"
  tn_served :: "string list"
  tn_scored :: "string list"

record observation =
  ob_method :: string
  ob_hit :: bool
  ob_rank :: "nat option"

definition observe_search ::
  "unicode \<Rightarrow> (nat \<Rightarrow> rat) \<Rightarrow> challenger list \<Rightarrow> string \<Rightarrow> string list \<Rightarrow> turn option" where
  "observe_search uc ln1p chs query served =
     (if chs = [] \<or> max_query_chars < length (utf8_chars query) then None
      else Some \<lparr>tn_ranked = map (\<lambda>(meth, ix). (meth, map fst (search_index uc ln1p ix [] query max_remembered))) chs,
        tn_served = take max_remembered served, tn_scored = []\<rparr>)"

fun position :: "'a \<Rightarrow> 'a list \<Rightarrow> nat option" where
  "position x [] = None"
| "position x (y # ys) = (if y = x then Some 0 else map_option Suc (position x ys))"

definition rank_in :: "string \<Rightarrow> string list \<Rightarrow> nat option" where
  "rank_in tool_id ids = map_option (\<lambda>i. i + 1) (position tool_id ids)"

definition observed :: "string \<Rightarrow> string \<Rightarrow> string list \<Rightarrow> observation" where
  "observed tool_id meth ids = \<lparr>ob_method = meth, ob_hit = rank_in tool_id ids \<noteq> None, ob_rank = rank_in tool_id ids\<rparr>"

definition observe_call :: "string \<Rightarrow> bool \<Rightarrow> turn option \<Rightarrow> observation list \<times> turn option" where
  "observe_call tool_id eligible turn =
     (if \<not> eligible then ([], turn)
      else (case turn of
          None \<Rightarrow> ([], None)
        | Some t \<Rightarrow>
            if tool_id \<in> set (tn_scored t) then ([], Some t)
            else (observed tool_id ''served'' (tn_served t) # map (\<lambda>(meth, ids). observed tool_id meth ids) (tn_ranked t),
              Some (t\<lparr>tn_scored := tool_id # tn_scored t\<rparr>))))"

section \<open>Credits\<close>

lemma position_take: "position x xs = Some i \<Longrightarrow> i < length xs \<and> xs ! i = x"
  by (induction xs arbitrary: i) (auto split: if_splits)

lemma rank_in_le: "rank_in tool_id ids = Some n \<Longrightarrow> 0 < n \<and> n \<le> length ids \<and> ids ! (n - 1) = tool_id"
  by (auto simp: rank_in_def dest!: position_take)

text \<open>However many calls follow a search, each tool is credited at most once, with one row per retriever.\<close>

fun observe_calls :: "(string \<times> bool) list \<Rightarrow> turn option \<Rightarrow> (string \<times> observation list) list" where
  "observe_calls [] t = []"
| "observe_calls ((tool_id, eligible) # cs) t =
     (case observe_call tool_id eligible t of (obs, t) \<Rightarrow>
        (if obs = [] then [] else [(tool_id, obs)]) @ observe_calls cs t)"

lemma observe_calls_once:
  "distinct (map fst (observe_calls cs t)) \<and>
   (\<forall>(tool_id, obs) \<in> set (observe_calls cs t). case t of None \<Rightarrow> False
     | Some t \<Rightarrow> tool_id \<notin> set (tn_scored t) \<and> length obs = 1 + length (tn_ranked t))"
proof (induction cs arbitrary: t)
  case (Cons c cs)
  obtain tool_id eligible where c: "c = (tool_id, eligible)" by (cases c)
  show ?case
  proof (cases t)
    case None
    then show ?thesis using Cons.IH [of None] by (auto simp: c observe_call_def)
  next
    case (Some u)
    then show ?thesis
      using Cons.IH [of "Some (u\<lparr>tn_scored := tool_id # tn_scored u\<rparr>)"] Cons.IH [of "Some u"]
      by (auto simp: c observe_call_def)
  qed
qed simp

end
