(* ===== verification/Surface.thy ===== *)
theory Surface
  imports Backend AuditChain ReadCache Breaker RateLimit Preflight Shadow "HOL-Library.State_Monad"
begin

text \<open>
  The served surface (\<open>src/src/surface.rs\<close>): its state, what a caller sees of it, the meta-tools, search and
  details. Requests run in the state monad over the outside world and the surface's state. \<open>lib\<close> bundles the
  library functions that are parameters throughout; \<open>world_ops\<close> is what the surface asks of the world.
\<close>

record lib =
  lb_ser :: "json \<Rightarrow> string"
  lb_pretty :: "json \<Rightarrow> string"
  lb_parse :: "string \<Rightarrow> json option"
  lb_jq :: "string \<Rightarrow> json \<Rightarrow> json option"
  lb_f64 :: "string \<Rightarrow> rat option"
  lb_hmac :: "string \<Rightarrow> string \<Rightarrow> string"
  lb_uc :: unicode
  lb_bm25 :: "(string \<times> string) list \<Rightarrow> string \<Rightarrow> hit list"
  lb_ln1p :: "nat \<Rightarrow> rat"

text \<open>The clock in nanoseconds, the wall clock in milliseconds, a fresh UUID, a call to an upstream (its index, the
  tool, its arguments and headers, the deadline in seconds), the value of a secret source, and the passthrough
  requests: one of an upstream's listings, the reading of a resource (its failure with the error object when the
  upstream replied with one), a prompt.\<close>

record 'w world_ops =
  wo_now :: "'w \<Rightarrow> nat \<times> 'w"
  wo_ms :: "'w \<Rightarrow> nat \<times> 'w"
  wo_uuid :: "'w \<Rightarrow> string \<times> 'w"
  wo_call :: "nat \<Rightarrow> string \<Rightarrow> json \<Rightarrow> (string \<times> string) list \<Rightarrow> nat option \<Rightarrow> 'w \<Rightarrow> call_outcome \<times> 'w"
  wo_source :: "string \<Rightarrow> 'w \<Rightarrow> string option \<times> 'w"
  wo_list :: "nat \<Rightarrow> string \<Rightarrow> string \<Rightarrow> 'w \<Rightarrow> json list \<times> 'w"
  wo_read :: "nat \<Rightarrow> string \<Rightarrow> 'w \<Rightarrow> ((string \<times> json option) + json) \<times> 'w"
  wo_prompt :: "nat \<Rightarrow> string \<Rightarrow> json \<Rightarrow> 'w \<Rightarrow> (string + json) \<times> 'w"

text \<open>What is fixed when the surface is built \<dots>\<close>

record surface =
  sf_config :: config
  sf_upstreams :: "upstream list"
  sf_workflow_by_id :: "(string \<times> nat) list"
  sf_logging :: bool
  sf_args_key :: "string option"
  sf_shadow :: "challenger list"

text \<open>\<dots> and what changes: the catalog with its schema memo, the read cache, the breakers, the rate-limit buckets,
  the tools used (for the search prior), the audit chain and the audit lines, the last search as shadow mode
  remembers it, and the routes of resource URIs.\<close>

record surface_state =
  ss_catalog :: catalog
  ss_memo :: "(string \<times> json) list"
  ss_cache :: read_cache
  ss_breakers :: "(string, breaker_state) store"
  ss_buckets :: buckets
  ss_used :: "string list"
  ss_chain :: "chain option"
  ss_log :: "json list"
  ss_turn :: "turn option"
  ss_origin :: "(string \<times> nat) list"

type_synonym ('w, 'a) run = "('w \<times> surface_state, 'a) state"

definition ask :: "('w \<Rightarrow> 'a \<times> 'w) \<Rightarrow> ('w, 'a) run" where
  "ask f = State (\<lambda>(w, s). case f w of (a, w) \<Rightarrow> (a, (w, s)))"

definition on_state :: "(surface_state \<Rightarrow> 'a \<times> surface_state) \<Rightarrow> ('w, 'a) run" where
  "on_state f = State (\<lambda>(w, s). case f s of (a, s) \<Rightarrow> (a, (w, s)))"

definition modify_state :: "(surface_state \<Rightarrow> surface_state) \<Rightarrow> ('w, unit) run" where
  "modify_state f = on_state (\<lambda>s. ((), f s))"

definition get_state :: "('w, surface_state) run" where
  "get_state = on_state (\<lambda>s. (s, s))"

section \<open>Arguments and audit events\<close>

definition call_arguments :: "json option \<Rightarrow> json option" where
  "call_arguments raw =
     (let v = (case raw of Some v \<Rightarrow> if v = JNull then JObj [] else v | None \<Rightarrow> JObj []) in
      if is_object v then Some v else None)"

definition event_line :: "nat \<Rightarrow> caller \<Rightarrow> string \<Rightarrow> jmap \<Rightarrow> json" where
  "event_line ms caller event extra =
     JObj (fold (\<lambda>(k, v). jput k v) extra
       [(''ts_ms'', jnat ms), (''event'', JStr event), (''caller'', JStr (caller_label caller))])"

definition log_event :: "lib \<Rightarrow> 'w world_ops \<Rightarrow> surface \<Rightarrow> caller \<Rightarrow> string \<Rightarrow> jmap \<Rightarrow> ('w, unit) run" where
  "log_event lib ops sf caller event extra =
     (if \<not> sf_logging sf then State_Monad.return ()
      else do {
        ms \<leftarrow> ask (wo_ms ops);
        modify_state (\<lambda>s.
          let line = event_line ms caller event extra in
          case ss_chain s of
            Some ch \<Rightarrow>
              (case stamp (lb_hmac lib) (lb_ser lib) ch line of
                 (line, ch) \<Rightarrow> s\<lparr>ss_chain := Some ch, ss_log := ss_log s @ [line]\<rparr>)
          | None \<Rightarrow> s\<lparr>ss_log := ss_log s @ [line]\<rparr>)
      })"

section \<open>What a caller sees\<close>

definition visible :: "config \<Rightarrow> caller \<Rightarrow> string \<Rightarrow> bool" where
  "visible cfg caller tool_id \<longleftrightarrow> sc_report_only (c_scopes cfg) \<or> allowed cfg tool_id (ca_scopes caller)"

definition may_call :: "lib \<Rightarrow> 'w world_ops \<Rightarrow> surface \<Rightarrow> caller \<Rightarrow> string \<Rightarrow> ('w, bool) run" where
  "may_call lib ops sf caller tool_id =
     (let ok = allowed (sf_config sf) tool_id (ca_scopes caller) in
      if \<not> sc_report_only (c_scopes (sf_config sf)) then State_Monad.return ok
      else if ok then State_Monad.return True
      else do {
        log_event lib ops sf caller ''would_deny''
          [(''tool_id'', JStr tool_id), (''scopes'', JArr (map JStr (ca_scopes caller)))];
        State_Monad.return True
      })"

definition visible_workflow :: "surface \<Rightarrow> caller \<Rightarrow> string \<Rightarrow> workflow option" where
  "visible_workflow sf caller tool_id =
     (case map_of (sf_workflow_by_id sf) tool_id of
        Some i \<Rightarrow> if visible (sf_config sf) caller tool_id then Some (c_workflows (sf_config sf) ! i) else None
      | None \<Rightarrow> None)"

definition visible_def :: "surface \<Rightarrow> catalog \<Rightarrow> caller \<Rightarrow> string \<Rightarrow> tool_def option" where
  "visible_def sf cat caller tool_id = (if visible (sf_config sf) caller tool_id then cat_def cat tool_id else None)"

definition from_spec_at :: "surface \<Rightarrow> nat \<Rightarrow> bool" where
  "from_spec_at sf u \<longleftrightarrow> u < length (sf_upstreams sf) \<and> us_kind (sf_upstreams sf ! u) = BK_Spec"

definition tool_from_spec :: "surface \<Rightarrow> catalog \<Rightarrow> string \<Rightarrow> bool" where
  "tool_from_spec sf cat tool_id \<longleftrightarrow> (case cat_def cat tool_id of Some t \<Rightarrow> from_spec_at sf (td_upstream_idx t) | None \<Rightarrow> False)"

definition reshapes_result :: "config \<Rightarrow> string \<Rightarrow> bool" where
  "reshapes_result cfg tool_id \<longleftrightarrow>
     (case overlay_for cfg tool_id of
        Some ov \<Rightarrow> ov_paginate ov \<noteq> None \<or> (applies (ov_response ov) False \<and> \<not> is_noop (ov_response ov))
      | None \<Rightarrow> False)"

definition recovery :: "mode \<Rightarrow> string" where
  "recovery m = (case m of
       Passthrough \<Rightarrow> ''check the tool name against tools/list''
     | ThreeTool \<Rightarrow> ''use search_tools to find the right tool id'')"

definition suggest_near_misses :: "lib \<Rightarrow> surface \<Rightarrow> catalog \<Rightarrow> caller \<Rightarrow> string \<Rightarrow> string" where
  "suggest_near_misses lib sf cat caller wrong =
     did_you_mean (uc_alnum (lb_uc lib)) (uc_to_lower (lb_uc lib)) wrong
       (filter (visible (sf_config sf) caller) (map fst (ct_by_id cat) @ map fst (sf_workflow_by_id sf)))"

definition unknown_tool_id :: "lib \<Rightarrow> surface \<Rightarrow> catalog \<Rightarrow> caller \<Rightarrow> string \<Rightarrow> string" where
  "unknown_tool_id lib sf cat caller tool_id =
     ''unknown tool_id '' @ debug_str tool_id @ '' '' @ em_dash @ suggest_near_misses lib sf cat caller tool_id @
     '' '' @ recovery (c_mode (sf_config sf))"

text \<open>The schema of a tool, through the memo of the catalog.\<close>

definition schema_of :: "lib \<Rightarrow> surface \<Rightarrow> tool_def \<Rightarrow> ('w, json) run" where
  "schema_of lib sf t = on_state (\<lambda>s.
     case resolved_schema_memo (lb_ser lib) (sf_upstreams sf) (ss_catalog s) t (ss_memo s) of
       (v, memo) \<Rightarrow> (v, s\<lparr>ss_memo := memo\<rparr>))"

section \<open>The listing\<close>

definition read_only_local :: json where
  "read_only_local = JObj [(''readOnlyHint'', JBool True)]"

definition described_prop :: "string \<Rightarrow> string \<Rightarrow> json" where
  "described_prop ty d = JObj [(''type'', JStr ty), (''description'', JStr d)]"

definition quote :: "string \<Rightarrow> string" where
  "quote s = [CHR 0x22] @ s @ [CHR 0x22]"

definition object_schema :: "jmap \<Rightarrow> string \<Rightarrow> json" where
  "object_schema props required = JObj [(''type'', JStr ''object''), (''properties'', JObj props), (''required'', JArr [JStr required])]"

definition meta_search :: json where
  "meta_search = JObj
     [(''name'', JStr ''search_tools''), (''annotations'', read_only_local),
      (''description'', JStr (''Search every available tool by task description (e.g. '' @ quote ''create a customer'' @
        ''). Returns matching tool ids with one-line summaries. Call get_tool_details next for the exact input schema.'')),
      (''inputSchema'', object_schema
        [(''query'', described_prop ''string'' ''What you are trying to do.''),
         (''k'', described_prop ''integer'' ''Max results (default 20).'')] ''query'')]"

definition meta_details :: json where
  "meta_details = JObj
     [(''name'', JStr ''get_tool_details''), (''annotations'', read_only_local),
      (''description'', JStr ''Get the full description and input schema for one tool id.''),
      (''inputSchema'', object_schema
        [(''tool_id'', described_prop ''string'' (''The tool id to fetch, as returned by search_tools (e.g. '' @
           quote ''stripe.PostCustomers'' @ '').''))] ''tool_id'')]"

definition meta_call :: json where
  "meta_call = JObj
     [(''name'', JStr ''call_tool''),
      (''description'', JStr (''Call any tool by id with its arguments. If a required value is unknown, do not invent it '' @
        em_dash @ '' search for a tool that can look it up, or report what is missing. When a tool returns a large list or object, pass `fields` to get back only the parts you need and keep your context small.'')),
      (''inputSchema'', object_schema
        [(''tool_id'', described_prop ''string'' (''The tool id to call, from search_tools / get_tool_details (e.g. '' @
           quote ''stripe.PostCustomers'' @ '').'')),
         (''arguments'', described_prop ''object'' (''Arguments per the tool'' @ [CHR 0x27] @ ''s input schema.'')),
         (''fields'', JObj [(''type'', JStr ''array''), (''items'', JObj [(''type'', JStr ''string'')]),
           (''description'', JStr (''Optional. Return ONLY these response fields, to shrink a large result. Dotted paths; `[]` maps over an array element '' @
             em_dash @ '' e.g. ['' @ quote ''data[].id'' @ '', '' @ quote ''data[].amount'' @ '', '' @ quote ''has_more'' @
             '']. Omit to get the full response. Note: you only receive the fields you list, so include everything you need.''))])] ''tool_id'')]"

definition meta_tool_defs :: "mode \<Rightarrow> json list" where
  "meta_tool_defs m = (case m of ThreeTool \<Rightarrow> [meta_search, meta_details, meta_call] | Passthrough \<Rightarrow> [])"

definition listed_def :: "config \<Rightarrow> string \<Rightarrow> string \<Rightarrow> tool_def \<Rightarrow> json \<Rightarrow> json" where
  "listed_def cfg name tool_id t schema =
     (let m = fold (\<lambda>(k, v). jput k v) (td_extra t)
            [(''name'', JStr name), (''description'', JStr (td_description t)), (''inputSchema'', schema)]
      in JObj (if reshapes_result cfg tool_id then swap_remove ''outputSchema'' m else m))"

fun tool_defs :: "lib \<Rightarrow> surface \<Rightarrow> catalog \<Rightarrow> caller \<Rightarrow> (string \<times> string) list \<Rightarrow> ('w, json list) run" where
  "tool_defs lib sf cat caller [] = State_Monad.return (meta_tool_defs (c_mode (sf_config sf)))"
| "tool_defs lib sf cat caller ((name, tool_id) # exposed) =
     (case visible_def sf cat caller tool_id of
        None \<Rightarrow> tool_defs lib sf cat caller exposed
      | Some t \<Rightarrow> do {
          schema \<leftarrow> schema_of lib sf t;
          defs \<leftarrow> tool_defs lib sf cat caller exposed;
          State_Monad.return (listed_def (sf_config sf) name tool_id t schema # defs)
        })"

definition list_tools :: "lib \<Rightarrow> surface \<Rightarrow> caller \<Rightarrow> ('w, json) run" where
  "list_tools lib sf caller = do {
     s \<leftarrow> get_state;
     defs \<leftarrow> tool_defs lib sf (ss_catalog s) caller (ct_exposed (ss_catalog s));
     State_Monad.return (JObj [(''tools'', JArr defs)])
   }"

section \<open>Search\<close>

definition default_search_k :: nat where
  "default_search_k = 20"

definition max_detail_chars :: nat where
  "max_detail_chars = 20000"

definition first_line :: "string \<Rightarrow> string" where
  "first_line s = (case str_lines s of [] \<Rightarrow> [] | l # _ \<Rightarrow> l)"

definition describe :: "surface \<Rightarrow> catalog \<Rightarrow> string \<Rightarrow> string option" where
  "describe sf cat tool_id =
     (case cat_def cat tool_id of
        Some t \<Rightarrow> Some (first_line (td_description t))
      | None \<Rightarrow> map_option (\<lambda>i. wf_description (c_workflows (sf_config sf) ! i)) (map_of (sf_workflow_by_id sf) tool_id))"

text \<open>The loop over the hits: \<open>served\<close> holds what has been served, with its line.\<close>

fun serve_hits :: "surface \<Rightarrow> catalog \<Rightarrow> caller \<Rightarrow> nat \<Rightarrow> string list \<Rightarrow> (string \<times> string) list \<Rightarrow> (string \<times> string) list" where
  "serve_hits sf cat caller k [] served = served"
| "serve_hits sf cat caller k (tid # hits) served =
     (if \<not> visible (sf_config sf) caller tid then serve_hits sf cat caller k hits served
      else
        (let served = (case describe sf cat tid of
             Some desc \<Rightarrow> served @ [(tid, tid @ '' '' @ em_dash @ '' '' @ truncate_in_place (first_line desc) 110)]
           | None \<Rightarrow> served)
         in if k \<le> length served then served else serve_hits sf cat caller k hits served))"

text \<open>\<open>search\<close> is the index: the ids of the best hits, at most as many as asked for.\<close>

definition search_text :: "(string \<Rightarrow> nat \<Rightarrow> string list) \<Rightarrow> surface \<Rightarrow> catalog \<Rightarrow> caller \<Rightarrow> string \<Rightarrow> nat \<Rightarrow> string \<times> string list" where
  "search_text search sf cat caller query k =
     (let k = (if k = 0 then default_search_k else k);
          served = serve_hits sf cat caller k (search query (min (k * 3) (2 ^ 64 - 1))) []
      in if served = []
         then (''no matches '' @ em_dash @ '' try different words (resource or action names work best)'', [])
         else (join_with [CHR 0x0A] (map snd served), map fst served))"

section \<open>Details\<close>

definition minified_note :: string where
  "minified_note = ''true '' @ em_dash @ '' examples/long prose dropped and huge enums capped to fit the display budget; EVERY field name and type is listed.''"

definition hard_note :: string where
  "hard_note = ''hard '' @ em_dash @ '' all field docs and enums elided to fit the display budget; EVERY field name, type, and required flag is listed. Use the field names as-is; consult the API'' @ [CHR 0x27] @ ''s docs for value formats.''"

definition depth_note :: string where
  "depth_note = ''hard+depth '' @ em_dash @ '' nested objects beyond a depth were elided (see nested_fields_elided counts); every shallower field name is listed.''"

definition truncated_note :: string where
  "truncated_note = [CHR 0x0A] @ ellipsis @ ''TRUNCATED '' @ em_dash @
     '' even the depth-pruned schema exceeds the budget; unlisted fields still exist.''"

definition detail_envelope :: "string \<Rightarrow> string \<Rightarrow> string option \<Rightarrow> json \<Rightarrow> json" where
  "detail_envelope tool_id description note schema =
     JObj ([(''tool_id'', JStr tool_id), (''description'', JStr description)] @
       (case note of Some n \<Rightarrow> [(''schema_minified'', JStr n)] | None \<Rightarrow> []) @ [(''input_schema'', schema)])"

definition render_details :: "lib \<Rightarrow> string \<Rightarrow> string \<Rightarrow> json \<Rightarrow> string option \<Rightarrow> bool \<Rightarrow> string" where
  "render_details lib tool_id description schema note pretty =
     (if pretty then lb_pretty lib else lb_ser lib) (detail_envelope tool_id description note schema)"

text \<open>Pruning from depth 5 up to depth 2, then 1.\<close>

fun depth_stages :: "lib \<Rightarrow> string \<Rightarrow> string \<Rightarrow> nat list \<Rightarrow> json \<Rightarrow> string" where
  "depth_stages lib tool_id description [] schema =
     budget_truncate (render_details lib tool_id description (prune_below_depth 1 schema) (Some depth_note) False)
       max_detail_chars truncated_note"
| "depth_stages lib tool_id description (d # ds) schema =
     (let schema = prune_below_depth d schema;
          out = render_details lib tool_id description schema (Some depth_note) False
      in if length out \<le> max_detail_chars then out else depth_stages lib tool_id description ds schema)"

definition tool_details :: "lib \<Rightarrow> string \<Rightarrow> string \<Rightarrow> json \<Rightarrow> string" where
  "tool_details lib tool_id description schema =
     (let full = render_details lib tool_id description schema None True in
      if length full \<le> max_detail_chars then full
      else
        (let soft = minify_schema schema;
             out = render_details lib tool_id description soft (Some minified_note) True
         in if length out \<le> max_detail_chars then out
            else
              (let hard = minify_schema_hard soft;
                   out = render_details lib tool_id description hard (Some hard_note) False
               in if length out \<le> max_detail_chars then out
                  else depth_stages lib tool_id description [5, 4, 3, 2] hard)))"

definition workflow_details :: "lib \<Rightarrow> workflow \<Rightarrow> string" where
  "workflow_details lib w =
     lb_pretty lib (JObj [(''tool_id'', JStr (wf_id w)), (''description'', JStr (wf_description w)),
       (''input_schema'', if is_null (wf_inputs w) then JObj [(''type'', JStr ''object'')] else wf_inputs w),
       (''composite'', JBool True)])"

definition details_text :: "lib \<Rightarrow> surface \<Rightarrow> caller \<Rightarrow> string \<Rightarrow> ('w, string) run" where
  "details_text lib sf caller tool_id =
     (case visible_workflow sf caller tool_id of
        Some w \<Rightarrow> State_Monad.return (workflow_details lib w)
      | None \<Rightarrow> do {
          s \<leftarrow> get_state;
          case visible_def sf (ss_catalog s) caller tool_id of
            None \<Rightarrow> State_Monad.return (unknown_tool_id lib sf (ss_catalog s) caller tool_id)
          | Some t \<Rightarrow> do {
              schema \<leftarrow> schema_of lib sf t;
              State_Monad.return (tool_details lib tool_id (td_description t) schema)
            }
        })"

section \<open>Search may starve\<close>

text \<open>The index is asked for three times as many hits as are shown; hidden tools among them are not made up for, so
  enough of them ahead of a visible match leave the caller with none.\<close>

lemma search_starved:
  assumes "length hidden = 3 * k" "list_all (\<lambda>tid. \<not> visible (sf_config sf) caller tid) hidden" "0 < k" "3 * k < 2 ^ 64"
    "visible (sf_config sf) caller v" "describe sf cat v = Some d"
  shows "snd (search_text (\<lambda>query n. take n (hidden @ [v])) sf cat caller query k) = [] \<and>
    snd (search_text (\<lambda>query n. take n [v]) sf cat caller query k) = [v]"
proof -
  have "serve_hits sf cat caller k hits [] = []" if "list_all (\<lambda>tid. \<not> visible (sf_config sf) caller tid) hits" for hits
    using that by (induction hits) auto
  with assms show ?thesis by (auto simp: search_text_def Let_def mult.commute take_Cons')
qed

end
