(* ===== verification/Dispatch.thy ===== *)
theory Dispatch
  imports Surface
begin

text \<open>
  The call path (\<open>src/src/surface/dispatch.rs\<close>): visibility, rate limits, defaults, headers, injected fields,
  preflight, the read cache, the breaker, the upstream call, pagination, response shaping, error hints and the
  audit line, in the order of the code. One run is one call; the slots that bound the calls in flight
  (\<open>upstream_slot\<close>) hold no data and are left out.
\<close>

section \<open>Gates before the call\<close>

definition not_sent :: "json \<Rightarrow> ('w, json \<times> reach) run" where
  "not_sent r = State_Monad.return (r, NotSent)"

fun log_would_limit :: "lib \<Rightarrow> 'w world_ops \<Rightarrow> surface \<Rightarrow> caller \<Rightarrow> string \<Rightarrow> (string \<times> nat) list \<Rightarrow> ('w, unit) run" where
  "log_would_limit lib ops sf caller tool_id [] = State_Monad.return ()"
| "log_would_limit lib ops sf caller tool_id ((what, retry) # ls) = do {
     log_event lib ops sf caller ''would_rate_limit''
       [(''tool_id'', JStr tool_id), (''limit'', JStr what), (''retry_in_s'', jnat retry)];
     log_would_limit lib ops sf caller tool_id ls
   }"

definition rate_gate :: "lib \<Rightarrow> 'w world_ops \<Rightarrow> surface \<Rightarrow> caller \<Rightarrow> string \<Rightarrow> overlay option \<Rightarrow> ('w, (string \<times> nat) option) run" where
  "rate_gate lib ops sf caller tool_id ov = do {
     now \<leftarrow> ask (wo_now ops);
     (r, ls) \<leftarrow> on_state (\<lambda>s.
       case rate_limited (sf_config sf) (rate_key caller) tool_id ov now (ss_buckets s) of
         (r, ls, m) \<Rightarrow> ((r, ls), s\<lparr>ss_buckets := m\<rparr>));
     log_would_limit lib ops sf caller tool_id ls;
     State_Monad.return r
   }"

definition rate_limited_text :: "string \<Rightarrow> nat \<Rightarrow> string" where
  "rate_limited_text what retry = ''RATE_LIMITED: '' @ what @ '' '' @ em_dash @ '' retry in ~'' @ show_nat retry @
     ''s. Do not retry before then; batch the work or use a different tool meanwhile.''"

definition with_defaults :: "overlay option \<Rightarrow> json \<Rightarrow> json" where
  "with_defaults ov arguments =
     (case ov of Some ov \<Rightarrow> fold (\<lambda>(path, v) a. set_default a path v) (ov_defaults ov) arguments | None \<Rightarrow> arguments)"

definition preflight_on :: "config \<Rightarrow> overlay option \<Rightarrow> bool" where
  "preflight_on cfg ov = (case Option.bind ov ov_preflight of Some b \<Rightarrow> b | None \<Rightarrow> c_preflight cfg)"

definition transport_ceiling_s :: nat where
  "transport_ceiling_s = 120"

definition deadline_of :: "overlay option \<Rightarrow> nat option" where
  "deadline_of ov = map_option (\<lambda>t. min t transport_ceiling_s) (Option.bind ov ov_timeout_s)"

text \<open>The generators of one header read the UUID source and the wall clock once.\<close>

fun fresh_headers :: "'w world_ops \<Rightarrow> string \<Rightarrow> (string \<times> string) list \<Rightarrow> ('w, (string \<times> string) list) run" where
  "fresh_headers ops args_hash [] = State_Monad.return []"
| "fresh_headers ops args_hash ((k, v) # hs) = do {
     uuid \<leftarrow> ask (wo_uuid ops);
     ms \<leftarrow> ask (wo_ms ops);
     rest \<leftarrow> fresh_headers ops args_hash hs;
     State_Monad.return ((k, resolve_generators uuid ms v args_hash) # rest)
   }"

definition extra_headers :: "lib \<Rightarrow> 'w world_ops \<Rightarrow> catalog \<Rightarrow> string \<Rightarrow> json \<Rightarrow> ('w, (string \<times> string) list) run" where
  "extra_headers lib ops cat tool_id arguments =
     (case map_of (ct_tool_headers cat) tool_id of
        None \<Rightarrow> State_Monad.return []
      | Some hs \<Rightarrow>
          fresh_headers ops
            (if list_ex (\<lambda>(k, v). contains_str v ''{{hash}}'') hs
             then hex64 (fnv1a (canonical_args (lb_ser lib) arguments)) else [])
            hs)"

definition user_supplied_missing :: "lib \<Rightarrow> string \<Rightarrow> string \<Rightarrow> json" where
  "user_supplied_missing lib path source =
     text_result (''USER_SUPPLIED_MISSING: '' @ lb_ser lib (JObj
       [(''error'', JStr ''missing_user_supplied_value''), (''field'', JStr path), (''source'', JStr source),
        (''fix'', JStr ''this value comes from the session/environment, not the agent; it is not available'')])) True"

fun inject_fields :: "lib \<Rightarrow> 'w world_ops \<Rightarrow> (string \<times> string) list \<Rightarrow> json \<Rightarrow> ('w, json + json) run" where
  "inject_fields lib ops [] arguments = State_Monad.return (Inr arguments)"
| "inject_fields lib ops ((path, source) # us) arguments = do {
     v \<leftarrow> ask (wo_source ops source);
     case v of
       Some v \<Rightarrow> inject_fields lib ops us (set_path arguments path (JStr v))
     | None \<Rightarrow> State_Monad.return (Inl (user_supplied_missing lib path source))
   }"

definition preflight_schema :: "lib \<Rightarrow> surface \<Rightarrow> overlay option \<Rightarrow> tool_def \<Rightarrow> ('w, json option) run" where
  "preflight_schema lib sf ov t =
     (if preflight_on (sf_config sf) ov then do { v \<leftarrow> schema_of lib sf t; State_Monad.return (Some v) }
      else State_Monad.return None)"

definition preflight_refusal :: "lib \<Rightarrow> json option \<Rightarrow> json \<Rightarrow> json option" where
  "preflight_refusal lib schema arguments =
     map_option (\<lambda>e. text_result (''PREFLIGHT_ERROR: '' @ lb_ser lib e) True)
       (Option.bind schema (\<lambda>s. preflight_error (lb_f64 lib) s arguments))"

section \<open>Cache and breaker\<close>

definition cache_ttl :: "config \<Rightarrow> nat" where
  "cache_ttl cfg = c_read_cache_ttl_s cfg * sec"

definition cached_result :: "'w world_ops \<Rightarrow> config \<Rightarrow> cache_key option \<Rightarrow> ('w, json option) run" where
  "cached_result ops cfg key =
     (case key of
        None \<Rightarrow> State_Monad.return None
      | Some k \<Rightarrow> do {
          now \<leftarrow> ask (wo_now ops);
          s \<leftarrow> get_state;
          State_Monad.return (cache_lookup (cache_ttl cfg) now k (ss_cache s))
        })"

definition breaker_of :: "surface_state \<Rightarrow> string \<Rightarrow> breaker_state" where
  "breaker_of s tool_id = (case map_of (ss_breakers s) tool_id of Some b \<Rightarrow> b | None \<Rightarrow> default_breaker_state)"

definition breaker_gate :: "'w world_ops \<Rightarrow> overlay option \<Rightarrow> string \<Rightarrow> ('w, decision) run" where
  "breaker_gate ops ov tool_id =
     (case Option.bind ov ov_breaker of
        None \<Rightarrow> State_Monad.return (Allow False)
      | Some b \<Rightarrow> do {
          now \<leftarrow> ask (wo_now ops);
          on_state (\<lambda>s. case breaker_check (breaker_of s tool_id) now of
            (d, st) \<Rightarrow> (d, s\<lparr>ss_breakers := alist_put tool_id st (ss_breakers s)\<rparr>))
        })"

definition breaker_open_text :: "string \<Rightarrow> nat \<Rightarrow> nat \<Rightarrow> string" where
  "breaker_open_text tool_id failures retry =
     ''BREAKER_OPEN: '' @ tool_id @ '' has failed '' @ show_nat failures @ '' time(s) in a row and is paused for ~'' @
     show_nat retry @ ''s. Do not retry it now '' @ em_dash @ '' use a different tool or report what is failing.''"

definition feed_breaker :: "'w world_ops \<Rightarrow> overlay option \<Rightarrow> string \<Rightarrow> bool \<Rightarrow> bool \<Rightarrow> ('w, unit) run" where
  "feed_breaker ops ov tool_id is_error was_probe =
     (case Option.bind ov ov_breaker of
        None \<Rightarrow> State_Monad.return ()
      | Some b \<Rightarrow> do {
          now \<leftarrow> ask (wo_now ops);
          modify_state (\<lambda>s. s\<lparr>ss_breakers :=
            alist_put tool_id (on_result b is_error was_probe now (breaker_of s tool_id)) (ss_breakers s)\<rparr>)
        })"

definition store_result :: "lib \<Rightarrow> 'w world_ops \<Rightarrow> config \<Rightarrow> cache_key option \<Rightarrow> json \<Rightarrow> ('w, unit) run" where
  "store_result lib ops cfg key result =
     (case key of
        None \<Rightarrow> State_Monad.return ()
      | Some k \<Rightarrow> do {
          now \<leftarrow> ask (wo_now ops);
          modify_state (\<lambda>s. s\<lparr>ss_cache := cache_insert (lb_ser lib) (cache_ttl cfg) now k result (ss_cache s)\<rparr>)
        })"

definition owner_of :: "catalog \<Rightarrow> string \<Rightarrow> nat option" where
  "owner_of cat tool_id = map_option td_upstream_idx (cat_def cat tool_id)"

definition bust_cache :: "nat \<Rightarrow> ('w, unit) run" where
  "bust_cache idx = modify_state (\<lambda>s. s\<lparr>ss_cache := bust_upstream_cache (owner_of (ss_catalog s)) idx (ss_cache s)\<rparr>)"

section \<open>The upstream's answer\<close>

definition timeout_text :: "string \<Rightarrow> nat option \<Rightarrow> string" where
  "timeout_text tool_id timeout_s =
     ''TIMEOUT: '' @ tool_id @ '' did not respond within '' @
     show_nat (case timeout_s of Some t \<Rightarrow> t | None \<Rightarrow> 0) @ ''s. '' @ timeout_guidance"

definition upstream_error_text :: "string \<Rightarrow> string \<Rightarrow> string" where
  "upstream_error_text tool_id e =
     ''UPSTREAM_ERROR: '' @ tool_id @ '' '' @ em_dash @ '' the upstream did not return a tool result: '' @ e @ ''. '' @
     timeout_guidance @ '' If this repeats, the upstream may be down '' @ em_dash @ '' use a different tool or report it.''"

definition rendered :: "string \<Rightarrow> nat option \<Rightarrow> call_outcome \<Rightarrow> json \<times> reach" where
  "rendered tool_id timeout_s out =
     (case out of
        Returned r reached \<Rightarrow> (r, reached)
      | TimedOut \<Rightarrow> (text_result (timeout_text tool_id timeout_s) True, NoAnswer)
      | CallFailed e \<Rightarrow> (text_result (upstream_error_text tool_id e) True, NoAnswer))"

section \<open>Pagination\<close>

definition page_items :: "paginate_config \<Rightarrow> json \<Rightarrow> json list" where
  "page_items p payload = (case Option.bind (get_path payload (pg_items p)) as_array of Some a \<Rightarrow> a | None \<Rightarrow> [])"

text \<open>The cursor to follow from a page: none when the \<open>more\<close> gate is not true, or the cursor is absent, null, an
  empty string, or the one just followed.\<close>

definition next_cursor :: "paginate_config \<Rightarrow> json \<Rightarrow> json option \<Rightarrow> json option" where
  "next_cursor p payload prev =
     (if (case pg_more p of Some mf \<Rightarrow> Option.bind (get_path payload mf) as_bool \<noteq> Some True | None \<Rightarrow> False) then None
      else (case get_path payload (pg_cursor p) of
          None \<Rightarrow> None
        | Some c \<Rightarrow>
            if is_null c \<or> as_str c = Some [] then None
            else if (case prev of Some q \<Rightarrow> json_eq q c | None \<Rightarrow> False) then None
            else Some c))"

record page_state =
  pp_items :: "json list"
  pp_pages :: nat
  pp_partial :: bool

text \<open>The loop, by the pages still allowed.\<close>

fun follow_pages ::
  "lib \<Rightarrow> 'w world_ops \<Rightarrow> bool \<Rightarrow> nat \<Rightarrow> string \<Rightarrow> (string \<times> string) list \<Rightarrow> nat option \<Rightarrow> paginate_config \<Rightarrow> nat
    \<Rightarrow> json \<Rightarrow> json \<Rightarrow> json option \<Rightarrow> page_state \<Rightarrow> ('w, page_state) run" where
  "follow_pages lib ops from_spec idx name headers deadline p 0 args payload prev st = State_Monad.return st"
| "follow_pages lib ops from_spec idx name headers deadline p (Suc left) args payload prev st =
     (case next_cursor p payload prev of
        None \<Rightarrow> State_Monad.return st
      | Some cursor \<Rightarrow> do {
          let args = set_path args (pg_into p) cursor;
          out \<leftarrow> ask (wo_call ops idx name args headers deadline);
          case out of
            Returned r _ \<Rightarrow>
              (if is_error_result r then State_Monad.return (st\<lparr>pp_partial := True\<rparr>)
               else
                 (let payload = result_payload (lb_parse lib) r from_spec; page = page_items p payload in
                  if page = [] then State_Monad.return st
                  else follow_pages lib ops from_spec idx name headers deadline p left args payload (Some cursor)
                    (st\<lparr>pp_items := pp_items st @ page, pp_pages := pp_pages st + 1\<rparr>)))
          | _ \<Rightarrow> State_Monad.return (st\<lparr>pp_partial := True\<rparr>)
        })"

definition partial_text :: "nat \<Rightarrow> string" where
  "partial_text pages = ''PAGINATION: stopped after '' @ show_nat pages @
     '' page(s) on an upstream error or timeout; the list may be incomplete.''"

definition merge_pages :: "lib \<Rightarrow> bool \<Rightarrow> paginate_config \<Rightarrow> page_state \<Rightarrow> json \<Rightarrow> json" where
  "merge_pages lib from_spec p st first =
     (let merged = transform_result (lb_ser lib) (lb_parse lib) from_spec
            (\<lambda>payload. let payload = set_path payload (pg_items p) (JArr (pp_items st)) in
               case pg_more p of Some mf \<Rightarrow> set_path payload mf (JBool False) | None \<Rightarrow> payload) first
      in if pp_partial st then push_block (partial_text (pp_pages st)) merged else merged)"

definition paginate ::
  "lib \<Rightarrow> 'w world_ops \<Rightarrow> surface \<Rightarrow> caller \<Rightarrow> nat \<Rightarrow> string \<Rightarrow> json \<Rightarrow> (string \<times> string) list \<Rightarrow> json \<Rightarrow> paginate_config
    \<Rightarrow> nat option \<Rightarrow> ('w, json \<times> bool) run" where
  "paginate lib ops sf caller idx name args headers first p deadline =
     (let from_spec = from_spec_at sf idx; payload = result_payload (lb_parse lib) first from_spec in
      do {
        st \<leftarrow> follow_pages lib ops from_spec idx name headers deadline p (pg_max_pages p - 1) args payload None
          \<lparr>pp_items = page_items p payload, pp_pages = 1, pp_partial = False\<rparr>;
        log_event lib ops sf caller ''paginate''
          [(''tool'', JStr name), (''pages'', jnat (pp_pages st)), (''items'', jnat (length (pp_items st))),
           (''partial'', JBool (pp_partial st))];
        State_Monad.return (merge_pages lib from_spec p st first, pp_partial st)
      })"

section \<open>Shaping and hints\<close>

definition shape_result :: "lib \<Rightarrow> bool \<Rightarrow> overlay option \<Rightarrow> bool \<Rightarrow> string list \<Rightarrow> json \<Rightarrow> json" where
  "shape_result lib from_spec ov is_error wanted result =
     (let rt = (case ov of Some ov \<Rightarrow> if applies (ov_response ov) is_error then Some (ov_response ov) else None | None \<Rightarrow> None);
          has_transform = (case rt of Some r \<Rightarrow> \<not> is_noop r | None \<Rightarrow> False);
          keep = (if is_error then [] else wanted)
      in if has_transform \<or> keep \<noteq> []
         then transform_result (lb_ser lib) (lb_parse lib) from_spec
           (\<lambda>payload.
              let payload = (case rt of Some r \<Rightarrow> apply_response_transform (lb_jq lib) r is_error payload | None \<Rightarrow> payload)
              in if keep \<noteq> [] then project payload keep else payload) result
         else result)"

definition result_texts :: "json \<Rightarrow> string" where
  "result_texts r = (case content_blocks r of
     Some bs \<Rightarrow> join_with [CHR 0x0A] (List.map_filter block_text bs) | None \<Rightarrow> [])"

definition hint_texts :: "lib \<Rightarrow> json option \<Rightarrow> error_hint \<Rightarrow> string list" where
  "hint_texts lib schema h =
     (case Option.bind (eh_field h) (\<lambda>fp. Option.bind schema (\<lambda>s. structured_field_error_at s fp ''invalid_or_missing_field'')) of
        Some e \<Rightarrow> ''ERROR_DETAIL: '' @ lb_ser lib e
      | None \<Rightarrow> ''HINT: '' @ eh_hint h) #
     (case eh_retryable h of
        Some r \<Rightarrow> [''RETRYABLE: '' @ show_bool r @ '' ('' @
          (if r then ''transient '' @ em_dash @ '' wait briefly and retry''
           else ''permanent '' @ em_dash @ '' do not retry; fix the request'') @ '')'']
      | None \<Rightarrow> [])"

definition apply_error_hints :: "lib \<Rightarrow> surface \<Rightarrow> caller \<Rightarrow> string \<Rightarrow> json \<Rightarrow> ('w, json) run" where
  "apply_error_hints lib sf caller tool_id result =
     (let matched = filter (\<lambda>h. contains_str (result_texts result) (eh_contains h)) (error_hints_for (sf_config sf) tool_id) in
      if matched = [] then State_Monad.return result
      else do {
        s \<leftarrow> get_state;
        schema \<leftarrow> (if list_ex (\<lambda>h. eh_field h \<noteq> None) matched
          then (case visible_def sf (ss_catalog s) caller tool_id of
              Some t \<Rightarrow> do { v \<leftarrow> schema_of lib sf t; State_Monad.return (Some v) }
            | None \<Rightarrow> State_Monad.return None)
          else State_Monad.return None);
        State_Monad.return (fold push_block (concat (map (hint_texts lib schema) matched)) result)
      })"

section \<open>The call\<close>

definition upstream_at :: "surface \<Rightarrow> nat \<Rightarrow> upstream" where
  "upstream_at sf idx = sf_upstreams sf ! idx"

definition audit_call ::
  "lib \<Rightarrow> 'w world_ops \<Rightarrow> surface \<Rightarrow> caller \<Rightarrow> string \<Rightarrow> tool_def \<Rightarrow> nat \<Rightarrow> bool \<Rightarrow> bool \<Rightarrow> string option \<Rightarrow> json \<Rightarrow> ('w, unit) run" where
  "audit_call lib ops sf caller tool_id t started is_error from_cache mac result =
     (if \<not> sf_logging sf then State_Monad.return ()
      else do {
        now \<leftarrow> ask (wo_now ops);
        let up = upstream_at sf (td_upstream_idx t);
        log_event lib ops sf caller ''call''
          ([(''tool_id'', JStr tool_id), (''upstream'', JStr (us_name up)), (''origin'', JStr (us_origin up (td_name t))),
            (''is_error'', JBool is_error), (''cached'', JBool from_cache),
            (''latency_ms'', jnat ((now - started) div 1000000)), (''result_bytes'', jnat (json_len (lb_ser lib) result))] @
           (case mac of Some m \<Rightarrow> [(''args_mac'', JStr m)] | None \<Rightarrow> []))
      })"

text \<open>From an admitted call to its raw result: the usage prior, the breaker's count, the pages, the cache.\<close>

definition record_use :: "string \<Rightarrow> json \<Rightarrow> ('w, unit) run" where
  "record_use tool_id result =
     (if is_error_result result then State_Monad.return () else modify_state (\<lambda>s. s\<lparr>ss_used := ss_used s @ [tool_id]\<rparr>))"

definition gather_pages ::
  "lib \<Rightarrow> 'w world_ops \<Rightarrow> surface \<Rightarrow> caller \<Rightarrow> tool_def \<Rightarrow> overlay option \<Rightarrow> json \<Rightarrow> (string \<times> string) list \<Rightarrow> json
    \<Rightarrow> ('w, json \<times> bool) run" where
  "gather_pages lib ops sf caller t ov arguments headers result =
     (case Option.bind ov ov_paginate of
        None \<Rightarrow> State_Monad.return (result, False)
      | Some p \<Rightarrow>
          if is_error_result result then State_Monad.return (result, False)
          else paginate lib ops sf caller (td_upstream_idx t) (td_name t) arguments headers result p (deadline_of ov))"

definition settle_cache :: "lib \<Rightarrow> 'w world_ops \<Rightarrow> surface \<Rightarrow> tool_def \<Rightarrow> cache_key option \<Rightarrow> json \<times> bool \<Rightarrow> ('w, unit) run" where
  "settle_cache lib ops sf t key rp = do {
     _ \<leftarrow> (if \<not> is_error_result (fst rp) \<and> \<not> snd rp then store_result lib ops (sf_config sf) key (fst rp) else State_Monad.return ());
     (if \<not> (td_read_only t = Some True \<or> key \<noteq> None) then bust_cache (td_upstream_idx t) else State_Monad.return ())
   }"

definition after_answer ::
  "lib \<Rightarrow> 'w world_ops \<Rightarrow> surface \<Rightarrow> caller \<Rightarrow> string \<Rightarrow> tool_def \<Rightarrow> overlay option \<Rightarrow> json \<Rightarrow> (string \<times> string) list
    \<Rightarrow> cache_key option \<Rightarrow> bool \<Rightarrow> json \<Rightarrow> ('w, json) run" where
  "after_answer lib ops sf caller tool_id t ov arguments headers key was_probe result = do {
     record_use tool_id result;
     feed_breaker ops ov tool_id (is_error_result result) was_probe;
     rp \<leftarrow> gather_pages lib ops sf caller t ov arguments headers result;
     settle_cache lib ops sf t key rp;
     State_Monad.return (fst rp)
   }"

definition call_upstream ::
  "lib \<Rightarrow> 'w world_ops \<Rightarrow> surface \<Rightarrow> caller \<Rightarrow> string \<Rightarrow> tool_def \<Rightarrow> overlay option \<Rightarrow> json \<Rightarrow> (string \<times> string) list
    \<Rightarrow> cache_key option \<Rightarrow> bool \<Rightarrow> ('w, json \<times> reach) run" where
  "call_upstream lib ops sf caller tool_id t ov arguments headers key was_probe = do {
     out \<leftarrow> ask (wo_call ops (td_upstream_idx t) (td_name t) arguments headers (deadline_of ov));
     let rr = rendered tool_id (Option.bind ov ov_timeout_s) out;
     result \<leftarrow> after_answer lib ops sf caller tool_id t ov arguments headers key was_probe (fst rr);
     State_Monad.return (result, snd rr)
   }"

definition finish_call ::
  "lib \<Rightarrow> 'w world_ops \<Rightarrow> surface \<Rightarrow> caller \<Rightarrow> string \<Rightarrow> tool_def \<Rightarrow> overlay option \<Rightarrow> string list \<Rightarrow> nat \<Rightarrow> bool \<Rightarrow> string option
    \<Rightarrow> json \<times> reach \<Rightarrow> ('w, json \<times> reach) run" where
  "finish_call lib ops sf caller tool_id t ov wanted started from_cache mac rr =
     (let is_error = is_error_result (fst rr);
          shaped = shape_result lib (from_spec_at sf (td_upstream_idx t)) ov is_error wanted (fst rr)
      in do {
        hinted \<leftarrow> apply_error_hints lib sf caller tool_id shaped;
        let result = (if c_mode (sf_config sf) = ThreeTool \<and> wanted = [] \<and> \<not> is_error then nudge_projection hinted else hinted);
        audit_call lib ops sf caller tool_id t started is_error from_cache mac result;
        State_Monad.return (result, snd rr)
      })"

text \<open>The gates behind the arguments: preflight, the cache, the breaker.\<close>

definition gated_call ::
  "lib \<Rightarrow> 'w world_ops \<Rightarrow> surface \<Rightarrow> caller \<Rightarrow> string \<Rightarrow> tool_def \<Rightarrow> overlay option \<Rightarrow> json \<Rightarrow> (string \<times> string) list
    \<Rightarrow> json option \<Rightarrow> string list \<Rightarrow> nat \<Rightarrow> string option \<Rightarrow> ('w, json \<times> reach) run" where
  "gated_call lib ops sf caller tool_id t ov arguments headers schema wanted started mac =
     (case preflight_refusal lib schema arguments of
        Some r \<Rightarrow> not_sent r
      | None \<Rightarrow>
          (let key = (if cache_allowed (sf_config sf) tool_id (td_read_only t)
                      then Some (tool_id, canonical_args (lb_ser lib) arguments) else None)
           in do {
             hit \<leftarrow> cached_result ops (sf_config sf) key;
             case hit of
               Some v \<Rightarrow> do {
                 record_use tool_id v;
                 finish_call lib ops sf caller tool_id t ov wanted started True mac (v, Answered)
               }
             | None \<Rightarrow> do {
                 d \<leftarrow> breaker_gate ops ov tool_id;
                 case d of
                   Block failures retry \<Rightarrow> do {
                     log_event lib ops sf caller ''breaker'' [(''tool_id'', JStr tool_id), (''state'', JStr ''open'')];
                     not_sent (text_result (breaker_open_text tool_id failures retry) True)
                   }
                 | Allow was_probe \<Rightarrow> do {
                     rr \<leftarrow> call_upstream lib ops sf caller tool_id t ov arguments headers key was_probe;
                     finish_call lib ops sf caller tool_id t ov wanted started False mac rr
                   }
               }
           }))"

definition dispatch_tool ::
  "lib \<Rightarrow> 'w world_ops \<Rightarrow> surface \<Rightarrow> caller \<Rightarrow> catalog \<Rightarrow> string \<Rightarrow> tool_def \<Rightarrow> json \<Rightarrow> string list \<Rightarrow> nat \<Rightarrow> ('w, json \<times> reach) run" where
  "dispatch_tool lib ops sf caller cat tool_id t arguments wanted started =
     (let ov = overlay_for (sf_config sf) tool_id in
      do {
        limited \<leftarrow> rate_gate lib ops sf caller tool_id ov;
        case limited of
          Some (what, retry) \<Rightarrow> do {
            log_event lib ops sf caller ''rate_limited''
              [(''tool_id'', JStr tool_id), (''limit'', JStr what), (''retry_in_s'', jnat retry)];
            not_sent (text_result (rate_limited_text what retry) True)
          }
        | None \<Rightarrow> do {
            let mac = map_option (\<lambda>k. args_mac (lb_hmac lib) k (canonical_args (lb_ser lib) arguments)) (sf_args_key sf);
            schema \<leftarrow> preflight_schema lib sf ov t;
            let arguments = (case schema of
                Some v \<Rightarrow> decode_stringified (lb_parse lib) v (with_defaults ov arguments)
              | None \<Rightarrow> with_defaults ov arguments);
            headers \<leftarrow> extra_headers lib ops cat tool_id arguments;
            injected \<leftarrow> (case map_of (ct_user_supplied cat) tool_id of
                Some us \<Rightarrow> inject_fields lib ops us arguments
              | None \<Rightarrow> State_Monad.return (Inr arguments));
            case injected of
              Inl r \<Rightarrow> not_sent r
            | Inr arguments \<Rightarrow>
                gated_call lib ops sf caller tool_id t ov arguments headers schema wanted started mac
          }
      })"

definition dispatch_reach :: "lib \<Rightarrow> 'w world_ops \<Rightarrow> surface \<Rightarrow> caller \<Rightarrow> string \<Rightarrow> json \<Rightarrow> string list \<Rightarrow> ('w, json \<times> reach) run" where
  "dispatch_reach lib ops sf caller tool_id arguments wanted = do {
     started \<leftarrow> ask (wo_now ops);
     s \<leftarrow> get_state;
     let cat = ss_catalog s;
     let unknown = not_sent (text_result (unknown_tool_id lib sf cat caller tool_id) True);
     case cat_def cat tool_id of
       None \<Rightarrow> unknown
     | Some t \<Rightarrow> do {
         ok \<leftarrow> may_call lib ops sf caller tool_id;
         if ok then dispatch_tool lib ops sf caller cat tool_id t arguments wanted started else unknown
       }
   }"

definition dispatch :: "lib \<Rightarrow> 'w world_ops \<Rightarrow> surface \<Rightarrow> caller \<Rightarrow> string \<Rightarrow> json \<Rightarrow> string list \<Rightarrow> ('w, json) run" where
  "dispatch lib ops sf caller tool_id arguments wanted = do {
     (r, _) \<leftarrow> dispatch_reach lib ops sf caller tool_id arguments wanted;
     State_Monad.return r
   }"

section \<open>The page cap is silent\<close>

text \<open>Stopping at \<open>max_pages\<close> sets the \<open>more\<close> gate false and does not count as partial: a list whose upstream says
  there is more comes back, and is cached, as a complete one.\<close>

lemma page_cap_hides_rest:
  assumes "p = \<lparr>pg_items = ''items'', pg_cursor = ''next'', pg_into = ''cursor'', pg_more = Some ''more'', pg_max_pages = 1\<rparr>"
    and "lb_parse lib t = Some (JObj [(''items'', JArr [JNull]), (''next'', JStr ''c''), (''more'', JBool True)])"
    and "\<not> from_spec_at sf idx" "\<not> sf_logging sf"
  shows "fst (run_state (paginate lib ops sf caller idx name args headers (text_result t False) p deadline) (w, s)) =
    (text_result (lb_ser lib (JObj [(''items'', JArr [JNull]), (''next'', JStr ''c''), (''more'', JBool False)])) False, False)"
proof -
  have path: "parse_path ''items'' = [''items'']" "parse_path ''more'' = [''more'']"
    by code_simp+
  have payload: "result_payload (lb_parse lib) (text_result t False) False =
      JObj [(''items'', JArr [JNull]), (''next'', JStr ''c''), (''more'', JBool True)]"
    using assms(2) by (simp add: result_payload_def result_text_def text_result_def content_blocks_def vget_def jget_def
        block_text_def text_block_def)
  have items: "get_path (JObj [(''items'', JArr [JNull]), (''next'', JStr ''c''), (''more'', JBool True)]) ''items'' = Some (JArr [JNull])"
    by code_simp
  show ?thesis
    using assms(2-4) by (simp add: paginate_def assms(1) payload [unfolded text_result_def text_block_def] page_items_def items log_event_def merge_pages_def
        transform_result_def transform_structured_def map_blocks_def transform_block_def transform_text_def text_result_def
        text_block_def jget_def set_path_def path jput_def with_child_def Let_def)
qed

end
