(* ===== verification/Workflow.thy ===== *)
theory Workflow
  imports Dispatch
begin

text \<open>
  Composite workflows (\<open>src/src/surface/workflow.rs\<close>): step inputs, the run of the steps, and the report of a
  failed one. A dispatch never fails in the model, as in the code, so the arm that folds such a failure into the
  report is unreachable and left out. The outputs so far are keyed \<open>step.name\<close>.
\<close>

section \<open>Step inputs\<close>

type_synonym step_outputs = "(string \<times> json) list"

definition resolve_ref :: "string \<Rightarrow> json \<Rightarrow> step_outputs \<Rightarrow> json option" where
  "resolve_ref s inputs outs =
     (case strip_prefix ''$inputs.'' s of
        Some path \<Rightarrow> Some (case get_path inputs path of Some v \<Rightarrow> v | None \<Rightarrow> JNull)
      | None \<Rightarrow> (case strip_prefix ''$steps.'' s of
            Some key \<Rightarrow> map_of outs key
          | None \<Rightarrow> None))"

fun resolve_input :: "json \<Rightarrow> json \<Rightarrow> step_outputs \<Rightarrow> json" where
  "resolve_input (JStr s) inputs outs = (case resolve_ref s inputs outs of Some v \<Rightarrow> v | None \<Rightarrow> JStr s)"
| "resolve_input (JObj m) inputs outs = JObj (map (\<lambda>(k, v). (k, resolve_input v inputs outs)) m)"
| "resolve_input (JArr a) inputs outs = JArr (map (\<lambda>v. resolve_input v inputs outs) a)"
| "resolve_input v inputs outs = v"

section \<open>The failure report\<close>

datatype effect = Reads | Writes

definition effect_text :: "effect \<Rightarrow> string" where
  "effect_text e = (case e of Reads \<Rightarrow> ''read'' | Writes \<Rightarrow> ''write'')"

definition step_effect :: "catalog \<Rightarrow> string \<Rightarrow> effect" where
  "step_effect cat tool_id =
     (if Option.bind (cat_def cat tool_id) td_read_only = Some True then Reads else Writes)"

definition workflow_error_budget :: nat where
  "workflow_error_budget = 2000"

definition output_key :: "step \<Rightarrow> string \<Rightarrow> string" where
  "output_key st name = st_id st @ ''.'' @ name"

definition step_report :: "(string \<Rightarrow> effect) \<Rightarrow> step_outputs \<Rightarrow> step \<Rightarrow> json" where
  "step_report effect outs st = JObj
     [(''step'', JStr (st_id st)), (''tool'', JStr (st_tool st)), (''effect'', JStr (effect_text (effect (st_tool st)))),
      (''outputs'', JObj (List.map_filter (\<lambda>(name, _). map_option (Pair name) (map_of outs (output_key st name))) (st_output st)))]"

definition wrote :: "(string \<Rightarrow> effect) \<Rightarrow> step list \<Rightarrow> string list" where
  "wrote effect sts = map st_id (filter (\<lambda>st. effect (st_tool st) = Writes) sts)"

definition in_doubt :: "(string \<Rightarrow> effect) \<Rightarrow> reach \<Rightarrow> step \<Rightarrow> bool" where
  "in_doubt effect reached st \<longleftrightarrow> reached = NoAnswer \<and> effect (st_tool st) = Writes"

definition debug_list :: "string list \<Rightarrow> string" where
  "debug_list xs = ''['' @ join_with '', '' (map debug_str xs) @ '']''"

definition took_effect_fix :: "string list \<Rightarrow> string" where
  "took_effect_fix ids = ''Step(s) '' @ debug_list ids @
     '' already took effect upstream and are NOT rolled back. Do not re-run this workflow '' @ em_dash @
     '' that repeats them. Fix the cause, then finish the failed and remaining steps individually with call_tool, using the outputs above.''"

definition in_doubt_fix :: string where
  "in_doubt_fix = ''No earlier step wrote anything, but do not re-run this workflow until the failed step'' @ [CHR 0x27] @
     ''s state is known.''"

definition rerun_fix :: string where
  "rerun_fix = ''No earlier step wrote anything, so re-running this workflow after fixing the cause repeats no effect.''"

definition check_state_fix :: "step \<Rightarrow> string" where
  "check_state_fix st = '' Step '' @ debug_str (st_id st) @
     '' may or may not have completed; check state with a read before retrying it.''"

definition failure_fix :: "(string \<Rightarrow> effect) \<Rightarrow> reach \<Rightarrow> step list \<Rightarrow> step \<Rightarrow> string" where
  "failure_fix effect reached completed st =
     (if wrote effect completed \<noteq> [] then took_effect_fix (wrote effect completed)
      else if in_doubt effect reached st then in_doubt_fix else rerun_fix) @
     (if in_doubt effect reached st then check_state_fix st else [])"

definition workflow_failure :: "workflow \<Rightarrow> nat \<Rightarrow> string \<Rightarrow> reach \<Rightarrow> step_outputs \<Rightarrow> (string \<Rightarrow> effect) \<Rightarrow> json" where
  "workflow_failure w failed error reached outs effect =
     (let st = wf_steps w ! failed; completed = take failed (wf_steps w) in
      JObj [(''workflow'', JStr (wf_id w)), (''fix'', JStr (failure_fix effect reached completed st)),
        (''failed_step'', JObj
          [(''step'', JStr (st_id st)), (''tool'', JStr (st_tool st)), (''outcome'', JStr (outcome reached)),
           (''error'', JStr (budget_truncate error workflow_error_budget (ellipsis @ ''[truncated]'')))]),
        (''completed'', JArr (map (step_report effect outs) completed)),
        (''not_run'', JArr (map (\<lambda>s. JObj [(''step'', JStr (st_id s)), (''tool'', JStr (st_tool s))])
          (drop (failed + 1) (wf_steps w))))])"

section \<open>Running the steps\<close>

definition extract_outputs :: "step \<Rightarrow> json \<Rightarrow> step_outputs \<Rightarrow> step_outputs" where
  "extract_outputs st payload outs =
     fold (\<lambda>(name, path) outs. case get_path payload path of
        Some v \<Rightarrow> alist_put (output_key st name) v outs | None \<Rightarrow> outs) (st_output st) outs"

text \<open>How the steps ended: all done, with the outputs, or the number of the failed one with its error text and
  whether its call reached the upstream.\<close>

datatype steps_end = StepsDone step_outputs | StepFailed nat string reach step_outputs

fun run_steps ::
  "lib \<Rightarrow> 'w world_ops \<Rightarrow> surface \<Rightarrow> caller \<Rightarrow> json \<Rightarrow> nat \<Rightarrow> step list \<Rightarrow> step_outputs \<Rightarrow> ('w, steps_end) run" where
  "run_steps lib ops sf caller inputs i [] outs = State_Monad.return (StepsDone outs)"
| "run_steps lib ops sf caller inputs i (st # sts) outs = do {
     rr \<leftarrow> dispatch_reach lib ops sf caller (st_tool st) (resolve_input (st_input st) inputs outs) [];
     s \<leftarrow> get_state;
     (if is_error_result (fst rr) then State_Monad.return (StepFailed i (result_text (fst rr)) (snd rr) outs)
      else run_steps lib ops sf caller inputs (Suc i) sts
        (extract_outputs st (result_payload (lb_parse lib) (fst rr) (tool_from_spec sf (ss_catalog s) (st_tool st))) outs))
   }"

definition execute_workflow :: "lib \<Rightarrow> 'w world_ops \<Rightarrow> surface \<Rightarrow> caller \<Rightarrow> workflow \<Rightarrow> json \<Rightarrow> ('w, json) run" where
  "execute_workflow lib ops sf caller w inputs = do {
     ended \<leftarrow> run_steps lib ops sf caller inputs 0 (wf_steps w) [];
     case ended of
       StepFailed i error reached outs \<Rightarrow> do {
         s \<leftarrow> get_state;
         let report = workflow_failure w i error reached outs (step_effect (ss_catalog s));
         log_event lib ops sf caller ''workflow''
           [(''workflow'', JStr (wf_id w)), (''steps'', jnat (length (wf_steps w))),
            (''failed_step'', JStr (st_id (wf_steps w ! i))), (''failed_step_outcome'', JStr (outcome reached)),
            (''completed'', jnat i)];
         State_Monad.return (text_result (''WORKFLOW_FAILED: '' @ lb_ser lib report) True)
       }
     | StepsDone outs \<Rightarrow> do {
         log_event lib ops sf caller ''workflow''
           [(''workflow'', JStr (wf_id w)), (''steps'', jnat (length (wf_steps w)))];
         State_Monad.return (text_result (lb_ser lib (JObj
           (fold (\<lambda>(name, e). jput name (resolve_input e inputs outs)) (wf_outputs w) []))) False)
       }
   }"

end
