(* ===== verification/Calls.thy ===== *)
theory Calls
  imports Workflow
begin

text \<open>
  The request entry points (\<open>src/src/surface.rs\<close>: \<open>call\<close>, \<open>route_call\<close> and the command-line calls), with the corpus
  that is indexed (\<open>corpus\<close> in \<open>src/src/surface/catalog.rs\<close>).
\<close>

section \<open>The index in force\<close>

definition tool_text :: "config \<Rightarrow> tool_def \<Rightarrow> string" where
  "tool_text cfg t =
     (let aliases = (case overlay_for cfg (td_id t) of Some ov \<Rightarrow> join_with '' '' (ov_aliases ov) | None \<Rightarrow> []) in
      if aliases = [] then td_description t else td_description t @ '' '' @ aliases)"

definition corpus :: "config \<Rightarrow> tool_def list \<Rightarrow> indexed_tool list" where
  "corpus cfg tools =
     map (\<lambda>t. \<lparr>it_id = td_id t, it_description = tool_text cfg t, it_params = schema_param_text (td_input_schema t)\<rparr>) tools @
     map (\<lambda>w. \<lparr>it_id = wf_id w, it_description = wf_description w, it_params = []\<rparr>) (c_workflows cfg)"

definition catalog_index :: "lib \<Rightarrow> config \<Rightarrow> catalog \<Rightarrow> index" where
  "catalog_index lib cfg cat = build_index (lb_uc lib) (lb_bm25 lib) default_index_options (corpus cfg (ct_tools cat))"

definition search_ids :: "lib \<Rightarrow> surface \<Rightarrow> surface_state \<Rightarrow> string \<Rightarrow> nat \<Rightarrow> string list" where
  "search_ids lib sf s query n =
     map fst (search_index (lb_uc lib) (lb_ln1p lib) (catalog_index lib (sf_config sf) (ss_catalog s)) (ss_used s) query n)"

section \<open>Routing\<close>

definition route_call :: "lib \<Rightarrow> 'w world_ops \<Rightarrow> surface \<Rightarrow> caller \<Rightarrow> string \<Rightarrow> json \<Rightarrow> string list \<Rightarrow> ('w, json) run" where
  "route_call lib ops sf caller tool_id args wanted =
     (case map_of (sf_workflow_by_id sf) tool_id of
        Some i \<Rightarrow> do {
          ok \<leftarrow> may_call lib ops sf caller tool_id;
          if ok then execute_workflow lib ops sf caller (c_workflows (sf_config sf) ! i) args
          else dispatch lib ops sf caller tool_id args wanted
        }
      | None \<Rightarrow> dispatch lib ops sf caller tool_id args wanted)"

definition cli_search :: "lib \<Rightarrow> surface \<Rightarrow> caller \<Rightarrow> string \<Rightarrow> nat \<Rightarrow> ('w, string) run" where
  "cli_search lib sf caller query k = do {
     s \<leftarrow> get_state;
     State_Monad.return (fst (search_text (search_ids lib sf s) sf (ss_catalog s) caller query k))
   }"

definition cli_details :: "lib \<Rightarrow> surface \<Rightarrow> caller \<Rightarrow> string \<Rightarrow> ('w, string) run" where
  "cli_details lib sf caller tool_id = details_text lib sf caller tool_id"

definition cli_call :: "lib \<Rightarrow> 'w world_ops \<Rightarrow> surface \<Rightarrow> caller \<Rightarrow> string \<Rightarrow> json \<Rightarrow> string list \<Rightarrow> ('w, json) run" where
  "cli_call lib ops sf caller tool_id args wanted = do {
     r \<leftarrow> route_call lib ops sf caller tool_id args wanted;
     State_Monad.return (truncate_result_text (lb_ser lib) r agent_result_budget)
   }"

section \<open>The meta-tools\<close>

definition quoted_requires :: "string \<Rightarrow> string \<Rightarrow> string" where
  "quoted_requires tool arg = tool @ '' requires a '' @ [CHR 0x27] @ arg @ [CHR 0x27] @ '' string''"

definition call_search :: "lib \<Rightarrow> 'w world_ops \<Rightarrow> surface \<Rightarrow> caller \<Rightarrow> json \<Rightarrow> ('w, json) run" where
  "call_search lib ops sf caller args =
     (case Option.bind (vget args ''query'') as_str of
        None \<Rightarrow> State_Monad.return (bad_arg (quoted_requires ''search_tools'' ''query''))
      | Some query \<Rightarrow>
          (let k = (case Option.bind (vget args ''k'') as_u64 of Some k \<Rightarrow> k | None \<Rightarrow> default_search_k) in do {
            s \<leftarrow> get_state;
            let ts = search_text (search_ids lib sf s) sf (ss_catalog s) caller query k;
            log_event lib ops sf caller ''search'' [(''query'', JStr query), (''k'', jnat k)];
            _ \<leftarrow> (if sf_shadow sf \<noteq> []
                 then modify_state (\<lambda>s. s\<lparr>ss_turn := observe_search (lb_uc lib) (lb_ln1p lib) (sf_shadow sf) query (snd ts)\<rparr>)
                 else State_Monad.return ());
            State_Monad.return (text_result (fst ts) False)
          }))"

definition call_details :: "lib \<Rightarrow> 'w world_ops \<Rightarrow> surface \<Rightarrow> caller \<Rightarrow> json \<Rightarrow> ('w, json) run" where
  "call_details lib ops sf caller args =
     (case Option.bind (vget args ''tool_id'') as_str of
        None \<Rightarrow> State_Monad.return (bad_arg (quoted_requires ''get_tool_details'' ''tool_id''))
      | Some tool_id \<Rightarrow> do {
          t \<leftarrow> details_text lib sf caller tool_id;
          log_event lib ops sf caller ''details'' [(''tool_id'', JStr tool_id)];
          State_Monad.return (text_result t False)
        })"

fun log_observed :: "lib \<Rightarrow> 'w world_ops \<Rightarrow> surface \<Rightarrow> caller \<Rightarrow> string \<Rightarrow> observation list \<Rightarrow> ('w, unit) run" where
  "log_observed lib ops sf caller tool_id [] = State_Monad.return ()"
| "log_observed lib ops sf caller tool_id (ob # obs) = do {
     log_event lib ops sf caller ''shadow''
       [(''tool_id'', JStr tool_id), (''method'', JStr (ob_method ob)), (''hit'', JBool (ob_hit ob)),
        (''rank'', (case ob_rank ob of Some n \<Rightarrow> jnat n | None \<Rightarrow> JNull))];
     log_observed lib ops sf caller tool_id obs
   }"

definition shadow_call :: "lib \<Rightarrow> 'w world_ops \<Rightarrow> surface \<Rightarrow> caller \<Rightarrow> string \<Rightarrow> ('w, unit) run" where
  "shadow_call lib ops sf caller tool_id =
     (if sf_shadow sf = [] then State_Monad.return ()
      else do {
        obs \<leftarrow> on_state (\<lambda>s.
          let eligible = tool_id \<in> fst ` set (ct_by_id (ss_catalog s)) \<or> tool_id \<in> fst ` set (sf_workflow_by_id sf) in
          case observe_call tool_id eligible (ss_turn s) of (obs, turn) \<Rightarrow> (obs, s\<lparr>ss_turn := turn\<rparr>));
        log_observed lib ops sf caller tool_id obs
      })"

definition wanted_fields :: "json \<Rightarrow> string list" where
  "wanted_fields args = (case Option.bind (vget args ''fields'') as_array of Some a \<Rightarrow> List.map_filter as_str a | None \<Rightarrow> [])"

definition call_call :: "lib \<Rightarrow> 'w world_ops \<Rightarrow> surface \<Rightarrow> caller \<Rightarrow> json \<Rightarrow> ('w, json) run" where
  "call_call lib ops sf caller args =
     (case Option.bind (vget args ''tool_id'') as_str of
        None \<Rightarrow> State_Monad.return (bad_arg (quoted_requires ''call_tool'' ''tool_id''))
      | Some tool_id \<Rightarrow> do {
          shadow_call lib ops sf caller tool_id;
          (case call_arguments (vget args ''arguments'') of
             None \<Rightarrow> State_Monad.return (bad_arg (''call_tool '' @ [CHR 0x27] @ ''arguments'' @ [CHR 0x27] @ '' must be a JSON object''))
           | Some inner \<Rightarrow> cli_call lib ops sf caller tool_id inner (wanted_fields args))
        })"

section \<open>Passthrough\<close>

text \<open>A declared \<open>outputSchema\<close> keeps the structured copy whole; the budget then bounds the text only.\<close>

definition declares_output :: "config \<Rightarrow> catalog \<Rightarrow> string \<Rightarrow> bool" where
  "declares_output cfg cat tool_id \<longleftrightarrow>
     (case cat_def cat tool_id of Some t \<Rightarrow> jhas (td_extra t) ''outputSchema'' | None \<Rightarrow> False) \<and> \<not> reshapes_result cfg tool_id"

definition truncate_keeping_structured :: "(json \<Rightarrow> string) \<Rightarrow> bool \<Rightarrow> json \<Rightarrow> json" where
  "truncate_keeping_structured ser declared r =
     (case (if declared then Option.bind (as_object r) (\<lambda>m. map_option (Pair m) (jget m ''structuredContent'')) else None) of
        Some (m, sc) \<Rightarrow>
          (case truncate_passthrough_text ser (JObj (swap_remove ''structuredContent'' m)) of
             JObj m \<Rightarrow> JObj (jput ''structuredContent'' sc m) | v \<Rightarrow> v)
      | None \<Rightarrow> truncate_passthrough_text ser r)"

definition unknown_tool :: "lib \<Rightarrow> surface \<Rightarrow> catalog \<Rightarrow> caller \<Rightarrow> string \<Rightarrow> string" where
  "unknown_tool lib sf cat caller name =
     ''unknown tool '' @ debug_str name @ '' '' @ em_dash @
     did_you_mean (uc_alnum (lb_uc lib)) (uc_to_lower (lb_uc lib)) name
       (map fst (filter (\<lambda>(_, tool_id). visible (sf_config sf) caller tool_id) (ct_exposed cat))) @
     '' '' @ recovery (c_mode (sf_config sf))"

definition exposed_id :: "surface \<Rightarrow> catalog \<Rightarrow> caller \<Rightarrow> string \<Rightarrow> string option" where
  "exposed_id sf cat caller name =
     Option.bind (map_of (ct_exposed cat) name) (\<lambda>tool_id. if visible (sf_config sf) caller tool_id then Some tool_id else None)"

definition call_exposed :: "lib \<Rightarrow> 'w world_ops \<Rightarrow> surface \<Rightarrow> caller \<Rightarrow> string \<Rightarrow> json \<Rightarrow> ('w, json) run" where
  "call_exposed lib ops sf caller name args = do {
     s \<leftarrow> get_state;
     let cat = ss_catalog s;
     case exposed_id sf cat caller name of
       None \<Rightarrow> State_Monad.return (text_result (unknown_tool lib sf cat caller name) True)
     | Some tool_id \<Rightarrow> do {
         r \<leftarrow> dispatch lib ops sf caller tool_id args [];
         State_Monad.return (truncate_keeping_structured (lb_ser lib) (declares_output (sf_config sf) cat tool_id) r)
       }
   }"

definition call :: "lib \<Rightarrow> 'w world_ops \<Rightarrow> surface \<Rightarrow> caller \<Rightarrow> string \<Rightarrow> json \<Rightarrow> ('w, json) run" where
  "call lib ops sf caller name args =
     (let has_meta = c_mode (sf_config sf) \<noteq> Passthrough in
      if name = ''search_tools'' \<and> has_meta then call_search lib ops sf caller args
      else if name = ''get_tool_details'' \<and> has_meta then call_details lib ops sf caller args
      else if name = ''call_tool'' \<and> has_meta then call_call lib ops sf caller args
      else call_exposed lib ops sf caller name args)"

end
