(* ===== verification/CallTrace.thy ===== *)
theory CallTrace
  imports Dispatch
begin

text \<open>
  Which calls a request sends. A traced world records every call it hands to a backend, with the reach the backend
  reports; \<open>does\<close> states what a run may do to the surface's state and the trace, and composes with the monad.
\<close>

section \<open>Traced worlds\<close>

type_synonym sent = "nat \<times> string \<times> reach"

definition reach_of :: "call_outcome \<Rightarrow> reach" where
  "reach_of out = (case out of Returned _ r \<Rightarrow> r | TimedOut \<Rightarrow> NoAnswer | CallFailed _ \<Rightarrow> NoAnswer)"

abbreviation keep_trace :: "('w \<Rightarrow> 'a \<times> 'w) \<Rightarrow> 'w \<times> sent list \<Rightarrow> 'a \<times> 'w \<times> sent list" where
  "keep_trace f \<equiv> \<lambda>(w, tr). case f w of (a, w) \<Rightarrow> (a, w, tr)"

definition traced :: "'w world_ops \<Rightarrow> ('w \<times> sent list) world_ops" where
  "traced ops =
     \<lparr>wo_now = keep_trace (wo_now ops), wo_ms = keep_trace (wo_ms ops), wo_uuid = keep_trace (wo_uuid ops),
      wo_call = (\<lambda>idx name args headers deadline (w, tr).
        case wo_call ops idx name args headers deadline w of (out, w) \<Rightarrow> (out, w, tr @ [(idx, name, reach_of out)])),
      wo_source = (\<lambda>src. keep_trace (wo_source ops src)),
      wo_list = (\<lambda>idx meth key. keep_trace (wo_list ops idx meth key)),
      wo_read = (\<lambda>idx uri. keep_trace (wo_read ops idx uri)),
      wo_prompt = (\<lambda>idx name args. keep_trace (wo_prompt ops idx name args))\<rparr>"

section \<open>What a run does\<close>

definition does ::
  "('a \<Rightarrow> surface_state \<Rightarrow> surface_state \<Rightarrow> sent list \<Rightarrow> bool) \<Rightarrow> ('w \<times> sent list, 'a) run \<Rightarrow> bool" where
  "does P m \<longleftrightarrow> (\<forall>w tr s a w' tr' s'. run_state m ((w, tr), s) = (a, ((w', tr'), s')) \<longrightarrow>
     (\<exists>new. tr' = tr @ new \<and> P a s s' new))"

lemma doesD:
  assumes "does P m" "run_state m ((w, tr), s) = (a, ((w', tr'), s'))"
  obtains new where "tr' = tr @ new" "P a s s' new"
  using assms unfolding does_def by blast

lemma does_mono: "does P m \<Longrightarrow> (\<And>a s s' new. P a s s' new \<Longrightarrow> Q a s s' new) \<Longrightarrow> does Q m"
  unfolding does_def by blast

lemma does_return: "(\<And>s. P a s s []) \<Longrightarrow> does P (State_Monad.return a)"
  by (simp add: does_def State_Monad.return_def)

lemma does_bind:
  assumes "does P m" "\<And>a. does (Q a) (f a)"
    and "\<And>a b s s' s'' new new'. P a s s' new \<Longrightarrow> Q a b s' s'' new' \<Longrightarrow> R b s s'' (new @ new')"
  shows "does R (State_Monad.bind m f)"
  unfolding does_def
proof (intro allI impI)
  fix w tr s b w'' tr'' s''
  assume run: "run_state (State_Monad.bind m f) ((w, tr), s) = (b, ((w'', tr''), s''))"
  obtain a w' tr' s' where m: "run_state m ((w, tr), s) = (a, ((w', tr'), s'))"
    by (metis prod.exhaust)
  with run have f: "run_state (f a) ((w', tr'), s') = (b, ((w'', tr''), s''))"
    by (simp add: State_Monad.bind_def)
  obtain new where "tr' = tr @ new" "P a s s' new" by (rule doesD [OF assms(1) m])
  moreover obtain new' where "tr'' = tr' @ new'" "Q a b s' s'' new'" by (rule doesD [OF assms(2) f])
  ultimately show "\<exists>new. tr'' = tr @ new \<and> R b s s'' new"
    using assms(3) by (intro exI [of _ "new @ new'"]) auto
qed

lemma does_on_state: "(\<And>s. P (fst (f s)) s (snd (f s)) []) \<Longrightarrow> does P (on_state f)"
  by (auto simp: does_def on_state_def split: prod.splits) (metis fst_conv snd_conv)

lemma does_modify_state: "(\<And>s. P () s (f s) []) \<Longrightarrow> does P (modify_state f)"
  unfolding modify_state_def by (rule does_on_state) simp

lemma does_get_state: "does (\<lambda>a s s' new. a = s \<and> s' = s \<and> new = []) get_state"
  unfolding get_state_def by (rule does_on_state) simp

lemma does_keep_trace: "(\<And>a s. P a s s []) \<Longrightarrow> does P (ask (keep_trace f))"
  by (auto simp: does_def ask_def split: prod.splits)

lemma does_call:
  "(\<And>out s. P out s s [(idx, name, reach_of out)]) \<Longrightarrow> does P (ask (wo_call (traced ops) idx name args headers deadline))"
  by (auto simp: does_def ask_def traced_def split: prod.splits)

section \<open>Quiet runs\<close>

text \<open>A quiet run sends nothing and leaves the catalog in force.\<close>

abbreviation quiet :: "('w \<times> sent list, 'a) run \<Rightarrow> bool" where
  "quiet m \<equiv> does (\<lambda>_ s s' new. new = [] \<and> ss_catalog s' = ss_catalog s) m"

named_theorems quiet

lemma quiet_return [quiet]: "quiet (State_Monad.return a)"
  by (rule does_return) simp

lemma quiet_bind [quiet]: "quiet m \<Longrightarrow> (\<And>a. quiet (f a)) \<Longrightarrow> quiet (State_Monad.bind m f)"
  by (erule does_bind, assumption) auto

lemma quiet_get_state [quiet]: "quiet get_state"
  by (rule does_mono [OF does_get_state]) simp

lemma quiet_modify_state [quiet]: "(\<And>s. ss_catalog (f s) = ss_catalog s) \<Longrightarrow> quiet (modify_state f)"
  by (rule does_modify_state) simp

lemma quiet_if [quiet]: "(b \<Longrightarrow> quiet m) \<Longrightarrow> (\<not> b \<Longrightarrow> quiet n) \<Longrightarrow> quiet (if b then m else n)"
  by simp

lemma quiet_case_option [quiet]:
  "quiet m \<Longrightarrow> (\<And>x. quiet (f x)) \<Longrightarrow> quiet (case v of None \<Rightarrow> m | Some x \<Rightarrow> f x)"
  by (cases v) auto

lemma quiet_case_prod [quiet]: "(\<And>x y. quiet (f x y)) \<Longrightarrow> quiet (case p of (x, y) \<Rightarrow> f x y)"
  by (cases p) auto

lemma quiet_Let [quiet]: "quiet (f x) \<Longrightarrow> quiet (let y = x in f y)"
  by simp

lemma quiet_ops [quiet]:
  "quiet (ask (wo_now (traced ops)))" "quiet (ask (wo_ms (traced ops)))" "quiet (ask (wo_uuid (traced ops)))"
  "quiet (ask (wo_source (traced ops) src))" "quiet (ask (wo_list (traced ops) idx meth key))"
  "quiet (ask (wo_read (traced ops) idx uri))" "quiet (ask (wo_prompt (traced ops) idx name args))"
  by (simp_all add: traced_def does_keep_trace)

lemma quiet_log_event [quiet]: "quiet (log_event lib (traced ops) sf caller event extra)"
  unfolding log_event_def by (intro quiet) (simp add: Let_def split: option.splits prod.splits)

lemma quiet_may_call [quiet]: "quiet (may_call lib (traced ops) sf caller tool_id)"
  unfolding may_call_def by (intro quiet)

lemma quiet_schema_of [quiet]: "quiet (schema_of lib sf t)"
  unfolding schema_of_def by (rule does_on_state) (simp split: prod.splits)

lemma quiet_log_would_limit [quiet]: "quiet (log_would_limit lib (traced ops) sf caller tool_id ls)"
  by (induction lib "traced ops" sf caller tool_id ls rule: log_would_limit.induct)
    (simp_all add: quiet_return quiet_bind quiet_log_event)

lemma quiet_rate_gate [quiet]: "quiet (rate_gate lib (traced ops) sf caller tool_id ov)"
proof -
  have "quiet (on_state (\<lambda>s. case rate_limited (sf_config sf) (rate_key caller) tool_id ov now (ss_buckets s) of
      (r, ls, m) \<Rightarrow> ((r, ls), s\<lparr>ss_buckets := m\<rparr>)))" for now
    by (rule does_on_state) (simp split: prod.splits)
  then show ?thesis unfolding rate_gate_def by (intro quiet)
qed

lemma quiet_fresh_headers [quiet]: "quiet (fresh_headers (traced ops) h hs)"
proof (induction hs)
  case (Cons x hs)
  then show ?case by (cases x) (auto intro!: quiet)
qed (simp add: quiet_return)

lemma quiet_extra_headers [quiet]: "quiet (extra_headers lib (traced ops) cat tool_id arguments)"
  unfolding extra_headers_def by (intro quiet)

lemma quiet_inject_fields [quiet]: "quiet (inject_fields lib (traced ops) us arguments)"
proof (induction us arbitrary: arguments)
  case (Cons x us)
  then show ?case by (cases x) (auto intro!: quiet)
qed (simp add: quiet_return)

lemma quiet_call_path [quiet]:
  "quiet (not_sent r)"
  "quiet (preflight_schema lib sf ov t)"
  "quiet (cached_result (traced ops) cfg key)"
  "quiet (feed_breaker (traced ops) ov tool_id is_error was_probe)"
  "quiet (store_result lib (traced ops) cfg key v)"
  "quiet (bust_cache idx)"
  "quiet (apply_error_hints lib sf caller tool_id r)"
  "quiet (audit_call lib (traced ops) sf caller tool_id t started is_error from_cache mac r)"
  unfolding not_sent_def preflight_schema_def cached_result_def feed_breaker_def store_result_def bust_cache_def
    apply_error_hints_def audit_call_def
  by (intro quiet | simp)+

lemma quiet_breaker_gate [quiet]: "quiet (breaker_gate (traced ops) ov tool_id)"
proof -
  have "quiet (on_state (\<lambda>s. case breaker_check (breaker_of s tool_id) now of
      (d, st) \<Rightarrow> (d, s\<lparr>ss_breakers := alist_put tool_id st (ss_breakers s)\<rparr>)))" for now
    by (rule does_on_state) (simp split: prod.splits)
  then show ?thesis unfolding breaker_gate_def by (intro quiet)
qed

section \<open>Runs that send\<close>

text \<open>The catalog stays, and the value and what is sent are related to it.\<close>

definition sending :: "(catalog \<Rightarrow> 'a \<Rightarrow> sent list \<Rightarrow> bool) \<Rightarrow> ('w \<times> sent list, 'a) run \<Rightarrow> bool" where
  "sending Q m \<longleftrightarrow> does (\<lambda>a s s' new. ss_catalog s' = ss_catalog s \<and> Q (ss_catalog s) a new) m"

named_theorems sending

lemma sending_return: "(\<And>c. Q c a []) \<Longrightarrow> sending Q (State_Monad.return a)"
  unfolding sending_def by (rule does_return) simp

lemma sending_bind:
  assumes "sending P m" "\<And>a. sending (R a) (f a)" "\<And>c a b new new'. P c a new \<Longrightarrow> R a c b new' \<Longrightarrow> Q c b (new @ new')"
  shows "sending Q (State_Monad.bind m f)"
  unfolding sending_def
  by (rule does_bind [OF assms(1) [unfolded sending_def] assms(2) [unfolded sending_def]]) (auto intro: assms(3))

lemma quiet_sending: "quiet m \<Longrightarrow> sending (\<lambda>c a new. new = []) m"
  unfolding sending_def by (erule does_mono) auto

lemma sending_mono: "sending P m \<Longrightarrow> (\<And>c a new. P c a new \<Longrightarrow> Q c a new) \<Longrightarrow> sending Q m"
  unfolding sending_def by (erule does_mono) auto

lemma sending_quiet [sending]: "quiet m \<Longrightarrow> (\<And>a. sending Q (f a)) \<Longrightarrow> sending Q (State_Monad.bind m f)"
  by (rule sending_bind [OF quiet_sending]) auto

lemma sending_get_state:
  assumes "\<And>s. sending (\<lambda>c b new. c = ss_catalog s \<longrightarrow> Q c b new) (f s)"
  shows "sending Q (State_Monad.bind get_state f)"
  unfolding sending_def
  by (rule does_bind [OF does_get_state assms [unfolded sending_def]]) auto

lemma sending_if [sending]: "(b \<Longrightarrow> sending Q m) \<Longrightarrow> (\<not> b \<Longrightarrow> sending Q n) \<Longrightarrow> sending Q (if b then m else n)"
  by simp

lemma sending_case_option [sending]:
  "(v = None \<Longrightarrow> sending Q m) \<Longrightarrow> (\<And>x. v = Some x \<Longrightarrow> sending Q (f x)) \<Longrightarrow> sending Q (case v of None \<Rightarrow> m | Some x \<Rightarrow> f x)"
  by (cases v) auto

lemma sending_case_prod [sending]: "(\<And>x y. p = (x, y) \<Longrightarrow> sending Q (f x y)) \<Longrightarrow> sending Q (case p of (x, y) \<Rightarrow> f x y)"
  by (cases p) auto

lemma sending_Let [sending]: "sending Q (f x) \<Longrightarrow> sending Q (let y = x in f y)"
  by simp

lemma sending_call:
  "sending (\<lambda>c out new. new = [(idx, name, reach_of out)]) (ask (wo_call (traced ops) idx name args headers deadline))"
  unfolding sending_def by (rule does_call) simp

text \<open>The pages of one tool.\<close>

definition on_tool :: "nat \<Rightarrow> string \<Rightarrow> sent list \<Rightarrow> bool" where
  "on_tool idx name = list_all (\<lambda>(i, n, _). i = idx \<and> n = name)"

lemma on_tool_simps [simp]:
  "on_tool idx name []" "on_tool idx name (x # xs) \<longleftrightarrow> fst x = idx \<and> fst (snd x) = name \<and> on_tool idx name xs"
  by (auto simp: on_tool_def split: prod.splits)

lemma sending_follow_pages:
  "sending (\<lambda>c st' new. on_tool idx name new \<and> length new \<le> left)
     (follow_pages lib (traced ops) from_spec idx name headers deadline p left args payload prev st)"
proof (induction left arbitrary: args payload prev st)
  case 0
  then show ?case by (simp add: sending_return)
next
  case (Suc left)
  have "sending (\<lambda>c st' new. on_tool idx name new \<and> length new \<le> left)
      (case out of Returned r u \<Rightarrow>
          if is_error_result r then State_Monad.return (st\<lparr>pp_partial := True\<rparr>)
          else let payload = result_payload (lb_parse lib) r from_spec; page = page_items p payload in
            if page = [] then State_Monad.return st
            else follow_pages lib (traced ops) from_spec idx name headers deadline p left a payload cursor
              (st\<lparr>pp_items := pp_items st @ page, pp_pages := pp_pages st + 1\<rparr>)
        | _ \<Rightarrow> State_Monad.return (st\<lparr>pp_partial := True\<rparr>))" for out a cursor
    by (cases out) (auto intro!: sending sending_return Suc.IH)
  then show ?case
    by (auto simp: Let_def split: option.split intro!: sending_return sending_bind [OF sending_call])
qed

lemma sending_paginate:
  "sending (\<lambda>c rp new. on_tool idx name new \<and> length new \<le> pg_max_pages p - 1)
     (paginate lib (traced ops) sf caller idx name args headers first p deadline)"
  unfolding paginate_def Let_def
  by (rule sending_bind [OF sending_follow_pages, where R = "\<lambda>_ _ _ new. new = []"])
    (intro sending_quiet quiet sending_return | simp)+

section \<open>One dispatch\<close>

lemma quiet_after [quiet]:
  "quiet (record_use tool_id r)" "quiet (settle_cache lib (traced ops) sf t key rp)"
  "quiet (finish_call lib (traced ops) sf caller tool_id t ov wanted started from_cache mac rr)"
  unfolding record_use_def settle_cache_def finish_call_def by (intro quiet | simp)+

definition call_bound :: "overlay option \<Rightarrow> nat" where
  "call_bound ov = (case Option.bind ov ov_paginate of Some p \<Rightarrow> max 1 (pg_max_pages p) | None \<Rightarrow> 1)"

text \<open>What a call of tool \<open>t\<close> that reached the backend sends: itself, with the reach it reports, then its pages.\<close>

definition call_sends :: "tool_def \<Rightarrow> overlay option \<Rightarrow> reach \<Rightarrow> sent list \<Rightarrow> bool" where
  "call_sends t ov reached new \<longleftrightarrow> (\<exists>pages. new = (td_upstream_idx t, td_name t, reached) # pages \<and>
     on_tool (td_upstream_idx t) (td_name t) pages \<and> length new \<le> call_bound ov)"

lemma sending_gather_pages:
  "sending (\<lambda>c rp new. on_tool (td_upstream_idx t) (td_name t) new \<and> length new < call_bound ov)
     (gather_pages lib (traced ops) sf caller t ov arguments headers result)"
  unfolding gather_pages_def call_bound_def
  by (auto split: option.splits intro!: sending_return intro: sending_mono [OF sending_paginate])

lemma sending_last: "quiet m \<Longrightarrow> sending (\<lambda>c b new. new = [] \<and> b = a) (State_Monad.bind m (\<lambda>_. State_Monad.return a))"
  by (intro sending_quiet sending_return) simp_all

lemma sending_after_answer:
  "sending (\<lambda>c r new. on_tool (td_upstream_idx t) (td_name t) new \<and> length new < call_bound ov)
     (after_answer lib (traced ops) sf caller tool_id t ov arguments headers key was_probe result)"
  unfolding after_answer_def
  by (intro sending_quiet quiet sending_bind [OF sending_gather_pages sending_last]) auto

lemma reach_of_rendered: "snd (rendered tool_id ts out) = reach_of out"
  by (cases out) (simp_all add: rendered_def reach_of_def)

lemma sending_call_upstream:
  "sending (\<lambda>c rr new. call_sends t ov (snd rr) new)
     (call_upstream lib (traced ops) sf caller tool_id t ov arguments headers key was_probe)"
proof -
  have "sending (\<lambda>c rr new. snd rr = u \<and> on_tool (td_upstream_idx t) (td_name t) new \<and> length new < call_bound ov)
     (State_Monad.bind (after_answer lib (traced ops) sf caller tool_id t ov arguments headers key was_probe r)
       (\<lambda>r. State_Monad.return (r, u)))" for r u
    by (rule sending_bind [OF sending_after_answer, where R = "\<lambda>_ _ rr new. snd rr = u \<and> new = []"])
      (auto intro!: sending_return)
  then show ?thesis
    unfolding call_upstream_def Let_def
    by (rule sending_bind [OF sending_call]) (auto simp: call_sends_def reach_of_rendered)
qed

lemma sending_finish_call:
  "sending (\<lambda>c rr' new. new = [] \<and> snd rr' = snd rr)
     (finish_call lib (traced ops) sf caller tool_id t ov wanted started from_cache mac rr)"
  unfolding finish_call_def Let_def by (intro sending_quiet quiet sending_return) simp

text \<open>What one dispatch sends: nothing when it refuses the call or serves it from the cache, else the call.\<close>

definition dispatch_sends :: "config \<Rightarrow> catalog \<Rightarrow> string \<Rightarrow> reach \<Rightarrow> sent list \<Rightarrow> bool" where
  "dispatch_sends cfg cat tool_id reached new \<longleftrightarrow>
     (new = [] \<and> reached = NotSent) \<or>
     (\<exists>t. cat_def cat tool_id = Some t \<and>
       ((new = [] \<and> reached = Answered \<and> cache_allowed cfg tool_id (td_read_only t)) \<or>
        call_sends t (overlay_for cfg tool_id) reached new))"

lemma sending_not_sent: "(\<And>c. Q c (r, NotSent) []) \<Longrightarrow> sending Q (not_sent r)"
  unfolding not_sent_def by (rule sending_return)

lemma sending_gated_call:
  "sending (\<lambda>c rr new. (new = [] \<and> snd rr = NotSent) \<or>
      (new = [] \<and> snd rr = Answered \<and> cache_allowed (sf_config sf) tool_id (td_read_only t)) \<or> call_sends t ov (snd rr) new)
     (gated_call lib (traced ops) sf caller tool_id t ov arguments headers schema wanted started mac)"
proof -
  have hit: "sending (\<lambda>c rr new. new = [] \<and> snd rr = Answered)
      (State_Monad.bind (record_use tool_id v)
        (\<lambda>_. finish_call lib (traced ops) sf caller tool_id t ov wanted started True mac (v, Answered)))" for v
    by (intro sending_quiet quiet sending_mono [OF sending_finish_call]) simp
  have miss: "sending (\<lambda>c rr new. (new = [] \<and> snd rr = NotSent) \<or> call_sends t ov (snd rr) new)
      (State_Monad.bind (breaker_gate (traced ops) ov tool_id)
        (\<lambda>d. case d of
          Allow was_probe \<Rightarrow> State_Monad.bind (call_upstream lib (traced ops) sf caller tool_id t ov arguments headers key was_probe)
            (\<lambda>rr. finish_call lib (traced ops) sf caller tool_id t ov wanted started False mac rr)
        | Block failures retry \<Rightarrow> State_Monad.bind
            (log_event lib (traced ops) sf caller ''breaker'' [(''tool_id'', JStr tool_id), (''state'', JStr ''open'')])
            (\<lambda>_. not_sent (text_result (breaker_open_text tool_id failures retry) True))))" for key
  proof (rule sending_quiet [OF quiet_breaker_gate])
    fix d
    show "sending (\<lambda>c rr new. (new = [] \<and> snd rr = NotSent) \<or> call_sends t ov (snd rr) new)
      (case d of
          Allow was_probe \<Rightarrow> State_Monad.bind (call_upstream lib (traced ops) sf caller tool_id t ov arguments headers key was_probe)
            (\<lambda>rr. finish_call lib (traced ops) sf caller tool_id t ov wanted started False mac rr)
        | Block failures retry \<Rightarrow> State_Monad.bind
            (log_event lib (traced ops) sf caller ''breaker'' [(''tool_id'', JStr tool_id), (''state'', JStr ''open'')])
            (\<lambda>_. not_sent (text_result (breaker_open_text tool_id failures retry) True)))"
      by (cases d) (auto intro!: sending_quiet quiet sending_not_sent sending_bind [OF sending_call_upstream sending_finish_call])
  qed
  show ?thesis
  proof (cases "cache_allowed (sf_config sf) tool_id (td_read_only t)")
    case True
    then show ?thesis
      unfolding gated_call_def Let_def
      by (intro sending_case_option sending_not_sent sending_quiet [OF quiet_call_path(3)])
        (auto intro: sending_mono [OF hit] sending_mono [OF miss])
  next
    case False
    then show ?thesis
      unfolding gated_call_def Let_def
      by (intro sending_case_option sending_not_sent) (auto simp: cached_result_def intro: sending_mono [OF miss])
  qed
qed

lemma sending_case_sum [sending]:
  "(\<And>x. v = Inl x \<Longrightarrow> sending Q (f x)) \<Longrightarrow> (\<And>y. v = Inr y \<Longrightarrow> sending Q (g y)) \<Longrightarrow>
   sending Q (case v of Inl x \<Rightarrow> f x | Inr y \<Rightarrow> g y)"
  by (cases v) auto

lemma sending_dispatch_tool:
  assumes "cat_def cat tool_id = Some t"
  shows "sending (\<lambda>c rr new. dispatch_sends (sf_config sf) cat tool_id (snd rr) new)
    (dispatch_tool lib (traced ops) sf caller cat tool_id t arguments wanted started)"
proof -
  have refused: "dispatch_sends (sf_config sf) cat tool_id NotSent []"
    by (simp add: dispatch_sends_def)
  have gated: "sending (\<lambda>c rr new. dispatch_sends (sf_config sf) cat tool_id (snd rr) new)
      (gated_call lib (traced ops) sf caller tool_id t (overlay_for (sf_config sf) tool_id) args headers schema wanted started mac)"
    for args headers schema mac
    by (rule sending_mono [OF sending_gated_call]) (auto simp: dispatch_sends_def assms)
  show ?thesis
    unfolding dispatch_tool_def Let_def
    by (intro sending_quiet sending_case_option sending_case_prod sending_case_sum quiet sending_not_sent gated)
      (simp_all add: refused)
qed

lemma sending_may_call:
  "sending (\<lambda>c ok new. new = [] \<and> ok = visible (sf_config sf) caller tool_id) (may_call lib (traced ops) sf caller tool_id)"
  unfolding may_call_def Let_def
  by (intro sending_if sending_return sending_quiet quiet) (simp_all add: visible_def)

lemma sending_dispatch_reach:
  "sending (\<lambda>c rr new. dispatch_sends (sf_config sf) c tool_id (snd rr) new \<and>
      (snd rr \<noteq> NotSent \<or> new \<noteq> [] \<longrightarrow> visible (sf_config sf) caller tool_id))
    (dispatch_reach lib (traced ops) sf caller tool_id arguments wanted)"
proof -
  have refused: "dispatch_sends (sf_config sf) c tool_id NotSent []" for c
    by (simp add: dispatch_sends_def)
  have tool: "sending (\<lambda>c rr new. ok = visible (sf_config sf) caller tool_id \<longrightarrow>
      dispatch_sends (sf_config sf) cat tool_id (snd rr) new \<and>
      (snd rr \<noteq> NotSent \<or> new \<noteq> [] \<longrightarrow> visible (sf_config sf) caller tool_id))
    (if ok then dispatch_tool lib (traced ops) sf caller cat tool_id t arguments wanted started
     else not_sent (text_result (unknown_tool_id lib sf cat caller tool_id) True))"
    if "cat_def cat tool_id = Some t" for ok cat t started
    by (intro sending_if sending_not_sent sending_mono [OF sending_dispatch_tool [OF that]]) (auto simp: refused)
  have "sending (\<lambda>c rr new. c = ss_catalog s \<longrightarrow> dispatch_sends (sf_config sf) c tool_id (snd rr) new \<and>
      (snd rr \<noteq> NotSent \<or> new \<noteq> [] \<longrightarrow> visible (sf_config sf) caller tool_id))
    (case cat_def (ss_catalog s) tool_id of
       None \<Rightarrow> not_sent (text_result (unknown_tool_id lib sf (ss_catalog s) caller tool_id) True)
     | Some t \<Rightarrow> State_Monad.bind (may_call lib (traced ops) sf caller tool_id)
         (\<lambda>ok. if ok then dispatch_tool lib (traced ops) sf caller (ss_catalog s) tool_id t arguments wanted started
           else not_sent (text_result (unknown_tool_id lib sf (ss_catalog s) caller tool_id) True)))" for s started
    by (intro sending_case_option sending_not_sent sending_bind [OF sending_may_call tool]) (auto simp: refused)
  then show ?thesis
    unfolding dispatch_reach_def Let_def by (intro sending_quiet sending_get_state quiet)
qed


section \<open>A concrete surface\<close>

text \<open>One upstream with the tool \<open>a.x\<close>, no workflows; the world answers every call alike.\<close>

definition toy_lib :: lib where
  "toy_lib = \<lparr>lb_ser = json_text, lb_pretty = json_text, lb_parse = (\<lambda>_. None), lb_jq = (\<lambda>_ _. None), lb_f64 = (\<lambda>_. None),
     lb_hmac = (\<lambda>_ x. x),
     lb_uc = \<lparr>uc_alnum = (\<lambda>_. True), uc_upper = (\<lambda>_. False), uc_lower = (\<lambda>_. True), uc_to_lower = (\<lambda>c. c), uc_lowercase = to_ascii_lowercase\<rparr>,
     lb_bm25 = (\<lambda>_ _. []), lb_ln1p = (\<lambda>_. 0)\<rparr>"

definition toy_ops :: "call_outcome \<Rightarrow> unit world_ops" where
  "toy_ops out = \<lparr>wo_now = (\<lambda>w. (0, w)), wo_ms = (\<lambda>w. (0, w)), wo_uuid = (\<lambda>w. ([], w)), wo_call = (\<lambda>_ _ _ _ _ w. (out, w)),
     wo_source = (\<lambda>_ w. (None, w)), wo_list = (\<lambda>_ _ _ w. ([], w)), wo_read = (\<lambda>_ _ w. (Inl ([], None), w)),
     wo_prompt = (\<lambda>_ _ _ w. (Inl [], w))\<rparr>"

definition toy_surface :: "workflow list \<Rightarrow> surface" where
  "toy_surface ws = \<lparr>sf_config = (config_of_upstreams [])\<lparr>c_mode := ThreeTool, c_workflows := ws, c_preflight := False\<rparr>,
     sf_upstreams = [toy_upstream], sf_workflow_by_id = zip (map wf_id ws) [0..<length ws], sf_logging = False,
     sf_args_key = None, sf_shadow = []\<rparr>"

definition toy_state :: surface_state where
  "toy_state = \<lparr>ss_catalog = toy_catalog json_text [], ss_memo = [], ss_cache = [], ss_breakers = [], ss_buckets = [], ss_used = [],
     ss_chain = None, ss_log = [], ss_turn = None, ss_origin = []\<rparr>"

definition toy_caller :: caller where
  "toy_caller = with_scopes []"

lemma toy_facts:
  "cat_def (ss_catalog toy_state) ''a.x'' = Some (toy_tool ''Reads x'')"
  "ct_tool_headers (ss_catalog toy_state) = []" "ct_user_supplied (ss_catalog toy_state) = []"
  "allowed (sf_config (toy_surface ws)) ''a.x'' scopes"
  "overlay_for (sf_config (toy_surface ws)) tid = None"
  "rate_limited (sf_config (toy_surface ws)) who ''a.x'' None now m = (None, [], m)"
  "cache_allowed (sf_config (toy_surface ws)) ''a.x'' ro = False"
  "error_hints_for (sf_config (toy_surface ws)) ''a.x'' = []"
  "sf_logging (toy_surface ws) = False" "sf_args_key (toy_surface ws) = None"
  "c_preflight (sf_config (toy_surface ws)) = False" "c_mode (sf_config (toy_surface ws)) = ThreeTool"
  "sc_report_only (c_scopes (sf_config (toy_surface ws))) = False"
  by (simp_all add: toy_state_def toy_catalog_def cat_def_def toy_surface_def config_of_upstreams_def allowed_def
      overlay_for_def rate_limited_def limit_tiers_def cache_allowed_def error_hints_for_def)

lemma toy_ops_simps:
  "wo_now (traced (toy_ops out)) (w, tr) = (0, w, tr)" "wo_ms (traced (toy_ops out)) (w, tr) = (0, w, tr)"
  "wo_call (traced (toy_ops out)) idx name args headers deadline (w, tr) = (out, w, tr @ [(idx, name, reach_of out)])"
  by (simp_all add: traced_def toy_ops_def)

lemma toy_tool_simps: "td_upstream_idx (toy_tool d) = 0" "td_name (toy_tool d) = ''x''" "td_read_only (toy_tool d) = None"
  by (simp_all add: toy_tool_def)

lemma is_error_text_result [simp]: "is_error_result (text_result m b) = b"
  by (simp add: is_error_result_def text_result_def vget_def jget_def)

lemma toy_result:
  "nudge_projection (text_result ''ok'' False) = text_result ''ok'' False"
  "reach_of (Returned r u) = u" "ss_used toy_state = []"
  "toy_state\<lparr>ss_used := us, ss_cache := bust_upstream_cache ow 0 (ss_cache toy_state)\<rparr> = toy_state\<lparr>ss_used := us\<rparr>"
  by code_simp (simp_all add: reach_of_def toy_state_def bust_upstream_cache_def)

lemmas run_defs = dispatch_reach_def dispatch_tool_def gated_call_def call_upstream_def after_answer_def finish_call_def
  ask_def on_state_def modify_state_def get_state_def may_call_def rate_gate_def preflight_schema_def preflight_on_def
  extra_headers_def preflight_refusal_def cached_result_def breaker_gate_def record_use_def feed_breaker_def gather_pages_def
  settle_cache_def bust_cache_def store_result_def audit_call_def apply_error_hints_def shape_result_def rendered_def not_sent_def
  with_defaults_def deadline_of_def log_event_def Let_def

lemma toy_dispatch:
  "run_state (dispatch_reach toy_lib (traced (toy_ops (Returned (text_result ''ok'' False) Answered))) (toy_surface ws) toy_caller ''a.x'' (JObj []) [])
     (((), []), toy_state) =
   ((text_result ''ok'' False, Answered), (((), [(0, ''x'', Answered)]), toy_state\<lparr>ss_used := [''a.x'']\<rparr>))"
  by (simp add: run_defs toy_facts toy_ops_simps toy_tool_simps toy_result)
lemma toy_dispatch_error:
  "run_state (dispatch_reach toy_lib (traced (toy_ops (Returned (text_result m True) Answered))) (toy_surface ws) toy_caller ''a.x'' (JObj []) [])
     (((), []), toy_state) = ((text_result m True, Answered), (((), [(0, ''x'', Answered)]), toy_state))"
proof -
  have "toy_state\<lparr>ss_cache := bust_upstream_cache ow 0 (ss_cache toy_state)\<rparr> = toy_state" for ow
    by (simp add: toy_state_def bust_upstream_cache_def)
  then show ?thesis by (simp add: run_defs toy_facts toy_ops_simps toy_tool_simps toy_result)
qed


end
