(* ===== verification/Composites.thy ===== *)
theory Composites
  imports Workflow CallTrace
begin

text \<open>
  What the failure report of a composite workflow may be trusted for: the advice to re-run it against the calls the
  run sent.
\<close>

section \<open>What the steps send\<close>

definition call_of :: "catalog \<Rightarrow> string \<Rightarrow> sent \<Rightarrow> bool" where
  "call_of cat tool_id x \<longleftrightarrow> (\<exists>t. cat_def cat tool_id = Some t \<and> fst x = td_upstream_idx t \<and> fst (snd x) = td_name t)"

lemma on_toolD: "on_tool idx name xs \<Longrightarrow> x \<in> set xs \<Longrightarrow> fst x = idx \<and> fst (snd x) = name"
  by (induction xs) auto

lemma dispatch_sends_call_of: "dispatch_sends cfg cat tool_id reached new \<Longrightarrow> x \<in> set new \<Longrightarrow> call_of cat tool_id x"
  by (auto simp: dispatch_sends_def call_sends_def call_of_def dest: on_toolD)

definition failed_sends :: "config \<Rightarrow> catalog \<Rightarrow> step list \<Rightarrow> nat \<Rightarrow> reach \<Rightarrow> sent list \<Rightarrow> sent list \<Rightarrow> bool" where
  "failed_sends cfg cat sts j reached before own \<longleftrightarrow> j < length sts \<and>
     dispatch_sends cfg cat (st_tool (sts ! j)) reached own \<and>
     (\<forall>x \<in> set before. \<exists>st \<in> set (take j sts). call_of cat (st_tool st) x)"

definition steps_sends :: "config \<Rightarrow> catalog \<Rightarrow> nat \<Rightarrow> step list \<Rightarrow> steps_end \<Rightarrow> sent list \<Rightarrow> bool" where
  "steps_sends cfg cat i sts ended new \<longleftrightarrow> (case ended of
       StepsDone _ \<Rightarrow> True
     | StepFailed j _ reached _ \<Rightarrow> i \<le> j \<and> (\<exists>before own. new = before @ own \<and> failed_sends cfg cat sts (j - i) reached before own))"

lemma steps_sends_step:
  assumes "dispatch_sends cfg cat (st_tool st) reached new" "steps_sends cfg cat (Suc i) sts ended new'"
  shows "steps_sends cfg cat i (st # sts) ended (new @ new')"
proof (cases ended)
  case (StepFailed j error reached' outs)
  with assms(2) obtain before own where new': "Suc i \<le> j" "new' = before @ own"
    "failed_sends cfg cat sts (j - Suc i) reached' before own" by (auto simp: steps_sends_def)
  then have "j - i = Suc (j - Suc i)" by simp
  with new'(3) dispatch_sends_call_of [OF assms(1)]
  have "failed_sends cfg cat (st # sts) (j - i) reached' (new @ before) own"
    by (auto simp: failed_sends_def)
  with new'(1,2) StepFailed show ?thesis by (auto simp: steps_sends_def) (metis append.assoc)
qed (simp add: steps_sends_def)

lemma sending_run_steps:
  "sending (\<lambda>c ended new. steps_sends (sf_config sf) c i sts ended new) (run_steps lib (traced ops) sf caller inputs i sts outs)"
proof (induction sts arbitrary: i outs)
  case Nil
  then show ?case by (simp add: sending_return steps_sends_def)
next
  case (Cons st sts)
  have body: "sending (\<lambda>c ended new'. \<forall>new. dispatch_sends (sf_config sf) c (st_tool st) (snd rr) new \<longrightarrow>
      steps_sends (sf_config sf) c i (st # sts) ended (new @ new'))
    (State_Monad.bind get_state (\<lambda>s. if is_error_result (fst rr)
       then State_Monad.return (StepFailed i (result_text (fst rr)) (snd rr) outs)
       else run_steps lib (traced ops) sf caller inputs (Suc i) sts
         (extract_outputs st (result_payload (lb_parse lib) (fst rr) (tool_from_spec sf (ss_catalog s) (st_tool st))) outs)))" for rr
  proof (rule sending_quiet [OF quiet_get_state], rule sending_if)
    show "sending (\<lambda>c ended new'. \<forall>new. dispatch_sends (sf_config sf) c (st_tool st) (snd rr) new \<longrightarrow>
        steps_sends (sf_config sf) c i (st # sts) ended (new @ new'))
      (State_Monad.return (StepFailed i (result_text (fst rr)) (snd rr) outs))"
      by (rule sending_return) (force simp: steps_sends_def failed_sends_def)
  qed (auto intro: sending_mono [OF Cons.IH] steps_sends_step)
  show ?case
    by (simp, rule sending_bind [OF sending_dispatch_reach body]) auto
qed

section \<open>Advice\<close>

lemma fix_rerun: "failure_fix eff reached completed st = rerun_fix \<Longrightarrow> wrote eff completed = [] \<and> \<not> in_doubt eff reached st"
  by (auto simp: failure_fix_def took_effect_fix_def in_doubt_fix_def rerun_fix_def check_state_fix_def split: if_splits)

lemma wrote_Nil: "wrote eff sts = [] \<longleftrightarrow> (\<forall>st \<in> set sts. eff (st_tool st) = Reads)"
  by (auto simp: wrote_def filter_empty_conv) (metis effect.exhaust)

text \<open>A call that a read-only tool of the catalog makes.\<close>

definition read_only_call :: "catalog \<Rightarrow> sent \<Rightarrow> bool" where
  "read_only_call cat x \<longleftrightarrow> (\<exists>tool_id t. cat_def cat tool_id = Some t \<and> td_read_only t = Some True \<and>
     fst x = td_upstream_idx t \<and> fst (snd x) = td_name t)"

lemma call_of_reads: "call_of cat tool_id x \<Longrightarrow> step_effect cat tool_id = Reads \<Longrightarrow> read_only_call cat x"
  by (auto simp: call_of_def read_only_call_def step_effect_def split: if_splits)

definition rerun_safe :: "catalog \<Rightarrow> sent list \<Rightarrow> sent list \<Rightarrow> bool" where
  "rerun_safe cat before own \<longleftrightarrow> list_all (read_only_call cat) before \<and>
     (own = [] \<or> list_all (read_only_call cat) own \<or> snd (snd (hd own)) \<noteq> NoAnswer)"

lemma failed_sends_rerun_safe:
  assumes "failed_sends cfg cat sts j reached before own"
    and "failure_fix (step_effect cat) reached (take j sts) (sts ! j) = rerun_fix"
  shows "rerun_safe cat before own"
proof -
  from fix_rerun [OF assms(2)] have eff: "\<forall>st \<in> set (take j sts). step_effect cat (st_tool st) = Reads"
    "reached = NoAnswer \<Longrightarrow> step_effect cat (st_tool (sts ! j)) = Reads"
    by (auto simp: wrote_Nil in_doubt_def intro: effect.exhaust)
  have "list_all (read_only_call cat) before"
    using assms(1) eff(1) unfolding list_all_iff failed_sends_def by (blast intro: call_of_reads)
  moreover have sends: "dispatch_sends cfg cat (st_tool (sts ! j)) reached own"
    using assms(1) by (simp add: failed_sends_def)
  then have "own = [] \<or> snd (snd (hd own)) = reached"
    by (auto simp: dispatch_sends_def call_sends_def)
  moreover have "list_all (read_only_call cat) own" if "reached = NoAnswer"
    using dispatch_sends_call_of [OF sends] eff(2) [OF that] by (auto simp: list_all_iff intro: call_of_reads)
  ultimately show ?thesis by (auto simp: rerun_safe_def)
qed

definition failure_of :: "workflow \<Rightarrow> catalog \<Rightarrow> json \<Rightarrow> sent list \<Rightarrow> bool" where
  "failure_of w cat report new \<longleftrightarrow> (\<exists>before own. new = before @ own \<and>
     (vget report ''fix'' = Some (JStr rerun_fix) \<longrightarrow> rerun_safe cat before own))"

lemma failure_of_workflow_failure:
  assumes "failed_sends cfg cat (wf_steps w) j reached before own"
  shows "failure_of w cat (workflow_failure w j error reached outs (step_effect cat)) (before @ own)"
  unfolding failure_of_def
  using failed_sends_rerun_safe [OF assms]
  by (intro exI [of _ before] exI [of _ own]) (simp add: workflow_failure_def Let_def vget_def jget_def)

lemma sending_execute_workflow:
  "sending (\<lambda>c r new. (\<exists>v. r = text_result v False) \<or>
      (\<exists>report. r = text_result (''WORKFLOW_FAILED: '' @ lb_ser lib report) True \<and> failure_of w c report new))
    (execute_workflow lib (traced ops) sf caller w inputs)"
proof -
  have report: "sending (\<lambda>c r new'. \<forall>new. steps_sends (sf_config sf) c 0 (wf_steps w) ended new \<longrightarrow> (\<exists>v. r = text_result v False) \<or>
      (\<exists>report. r = text_result (''WORKFLOW_FAILED: '' @ lb_ser lib report) True \<and> failure_of w c report (new @ new')))
    (case ended of
       StepFailed i error reached outs \<Rightarrow> State_Monad.bind get_state (\<lambda>s.
         State_Monad.bind (log_event lib (traced ops) sf caller ''workflow''
           [(''workflow'', JStr (wf_id w)), (''steps'', jnat (length (wf_steps w))),
            (''failed_step'', JStr (st_id (wf_steps w ! i))), (''failed_step_outcome'', JStr (outcome reached)),
            (''completed'', jnat i)])
           (\<lambda>_. State_Monad.return (text_result (''WORKFLOW_FAILED: '' @
              lb_ser lib (workflow_failure w i error reached outs (step_effect (ss_catalog s)))) True)))
     | StepsDone outs \<Rightarrow> State_Monad.bind (log_event lib (traced ops) sf caller ''workflow''
           [(''workflow'', JStr (wf_id w)), (''steps'', jnat (length (wf_steps w)))])
         (\<lambda>_. State_Monad.return (text_result (lb_ser lib (JObj
           (fold (\<lambda>(name, e). jput name (resolve_input e inputs outs)) (wf_outputs w) []))) False)))" for ended
  proof (cases ended)
    case (StepsDone outs)
    then show ?thesis by (simp, intro sending_quiet quiet sending_return) auto
  next
    case (StepFailed i error reached outs)
    then show ?thesis
      by (simp, intro sending_get_state sending_quiet quiet sending_return)
        (auto simp: steps_sends_def intro!: failure_of_workflow_failure)
  qed
  show ?thesis
    unfolding execute_workflow_def Let_def
    by (rule sending_bind [OF sending_run_steps report]) auto
qed


definition toy_workflow :: workflow where
  "toy_workflow = \<lparr>wf_id = ''w'', wf_description = [], wf_inputs = JNull,
     wf_steps = [\<lparr>st_id = ''one'', st_tool = ''a.x'', st_input = JObj [], st_output = []\<rparr>], wf_outputs = []\<rparr>"

lemma toy_no_log: "log_event toy_lib ops (toy_surface ws) toy_caller e extra = State_Monad.return ()"
  by (simp add: log_event_def toy_facts)

lemma toy_workflow_run:
  "run_state (execute_workflow toy_lib (traced (toy_ops (Returned (text_result ''no'' True) Answered))) (toy_surface [toy_workflow])
     toy_caller toy_workflow (JObj [])) (((), []), toy_state) =
   (text_result (''WORKFLOW_FAILED: '' @ lb_ser toy_lib
      (workflow_failure toy_workflow 0 ''no'' Answered [] (step_effect (ss_catalog toy_state)))) True,
    (((), [(0, ''x'', Answered)]), toy_state))"
proof -
  have "result_text (text_result ''no'' True) = ''no''" by code_simp
  then show ?thesis
    by (simp add: execute_workflow_def toy_workflow_def toy_no_log toy_dispatch_error get_state_def on_state_def Let_def)
qed


end
