(* ===== verification/Visibility.thy ===== *)
theory Visibility
  imports Calls CallTrace
begin

text \<open>
  What a caller may not see changes none of the answers: the surface with every hidden tool and workflow erased gives
  the same listing and the same details, and a call of a hidden id or name gets the answer an unknown one gets.
\<close>

section \<open>Erasing what is hidden\<close>

definition erase_catalog :: "config \<Rightarrow> caller \<Rightarrow> catalog \<Rightarrow> catalog" where
  "erase_catalog cfg caller cat = cat\<lparr>ct_by_id := filter (\<lambda>(tool_id, _). visible cfg caller tool_id) (ct_by_id cat),
     ct_exposed := filter (\<lambda>(_, tool_id). visible cfg caller tool_id) (ct_exposed cat)\<rparr>"

definition erase_surface :: "caller \<Rightarrow> surface \<Rightarrow> surface" where
  "erase_surface caller sf =
     sf\<lparr>sf_workflow_by_id := filter (\<lambda>(wid, _). visible (sf_config sf) caller wid) (sf_workflow_by_id sf)\<rparr>"

definition erase_state :: "caller \<Rightarrow> surface \<Rightarrow> surface_state \<Rightarrow> surface_state" where
  "erase_state caller sf s = s\<lparr>ss_catalog := erase_catalog (sf_config sf) caller (ss_catalog s)\<rparr>"

text \<open>Two runs agree when the second, from the erased state, gives the answer of the first, in the same world, and
  ends in its erased state.\<close>

definition agree :: "caller \<Rightarrow> surface \<Rightarrow> ('w, 'a) run \<Rightarrow> ('w, 'a) run \<Rightarrow> bool" where
  "agree caller sf m n \<longleftrightarrow> (\<forall>w s. run_state n (w, erase_state caller sf s) =
     (case run_state m (w, s) of (a, (w', s')) \<Rightarrow> (a, (w', erase_state caller sf s'))))"

lemma agree_return [intro]: "agree caller sf (State_Monad.return a) (State_Monad.return a)"
  by (simp add: agree_def)

lemma agree_bind [intro]:
  assumes "agree caller sf m n" "\<And>a. agree caller sf (f a) (g a)"
  shows "agree caller sf (State_Monad.bind m f) (State_Monad.bind n g)"
  using assms unfolding agree_def by (fastforce split: prod.splits)

lemma agree_get_state:
  assumes "\<And>s. agree caller sf (f s) (g (erase_state caller sf s))"
  shows "agree caller sf (State_Monad.bind get_state f) (State_Monad.bind get_state g)"
  using assms by (auto simp: agree_def get_state_def on_state_def split: prod.splits)

lemma agree_ask [intro]: "agree caller sf (ask f) (ask f)"
  by (simp add: agree_def ask_def split: prod.splits)

section \<open>What is read of the erased state\<close>

lemma erase_simps [simp]:
  "ss_catalog (erase_state caller sf s) = erase_catalog (sf_config sf) caller (ss_catalog s)"
  "sf_config (erase_surface caller sf) = sf_config sf" "sf_logging (erase_surface caller sf) = sf_logging sf"
  "sf_upstreams (erase_surface caller sf) = sf_upstreams sf"
  "ct_tools (erase_catalog cfg caller cat) = ct_tools cat"
  "ct_patched_schemas (erase_catalog cfg caller cat) = ct_patched_schemas cat"
  by (simp_all add: erase_state_def erase_surface_def erase_catalog_def)

lemma map_of_filter_fst: "map_of (filter (\<lambda>(k, _). P k) m) k = (if P k then map_of m k else None)"
  by (induction m) auto

lemma visible_def_erase [simp]:
  "visible_def (erase_surface caller sf) (erase_catalog (sf_config sf) caller cat) caller tool_id = visible_def sf cat caller tool_id"
  by (simp add: visible_def_def cat_def_def erase_catalog_def map_of_filter_fst)

lemma visible_workflow_erase [simp]: "visible_workflow (erase_surface caller sf) caller tool_id = visible_workflow sf caller tool_id"
  by (auto simp: visible_workflow_def erase_surface_def map_of_filter_fst split: option.splits)

lemma filter_visible_keys:
  "filter P (map fst (filter (\<lambda>(k, _). P k) m)) = filter P (map fst m)"
  by (induction m) auto

lemma unknown_tool_id_erase [simp]:
  "unknown_tool_id lib (erase_surface caller sf) (erase_catalog (sf_config sf) caller cat) caller tool_id =
   unknown_tool_id lib sf cat caller tool_id"
  by (simp add: unknown_tool_id_def suggest_near_misses_def erase_surface_def erase_catalog_def filter_visible_keys)

lemma unknown_tool_erase [simp]:
  "unknown_tool lib (erase_surface caller sf) (erase_catalog (sf_config sf) caller cat) caller name = unknown_tool lib sf cat caller name"
  by (simp add: unknown_tool_def erase_catalog_def case_prod_unfold)

lemma agree_schema_of [intro]: "agree caller sf (schema_of lib sf t) (schema_of lib (erase_surface caller sf) t)"
proof -
  have "resolved_schema_memo ser ups (erase_catalog cfg caller cat) t memo = resolved_schema_memo ser ups cat t memo" for ser ups cfg cat memo
    by (simp add: resolved_schema_memo_def)
  then show ?thesis
    by (simp add: agree_def schema_of_def on_state_def erase_state_def split: prod.splits)
qed

lemma agree_modify_state:
  "(\<And>s. f (erase_state caller sf s) = erase_state caller sf (f s)) \<Longrightarrow> agree caller sf (modify_state f) (modify_state f)"
  by (simp add: agree_def modify_state_def on_state_def)

lemma agree_log_event [intro]:
  "agree caller sf (log_event lib ops sf who e extra) (log_event lib ops (erase_surface caller sf) who e extra)"
  unfolding log_event_def
  by (auto simp: erase_state_def Let_def split: option.splits prod.splits intro!: agree_bind agree_modify_state)

lemma agree_may_call [intro]:
  "agree caller sf (may_call lib ops sf who tool_id) (may_call lib ops (erase_surface caller sf) who tool_id)"
  unfolding may_call_def by (auto simp: Let_def)

section \<open>Listings and details\<close>

lemma agree_tool_defs:
  "agree caller sf (tool_defs lib sf cat caller exposed)
    (tool_defs lib (erase_surface caller sf) (erase_catalog (sf_config sf) caller cat) caller
      (filter (\<lambda>(_, tool_id). visible (sf_config sf) caller tool_id) exposed))"
proof (induction exposed)
  case (Cons e exposed)
  obtain name tool_id where e: "e = (name, tool_id)" by (cases e)
  show ?case
  proof (cases "visible (sf_config sf) caller tool_id")
    case True
    with Cons show ?thesis by (auto simp: e split: option.split)
  next
    case False
    with Cons show ?thesis by (simp add: e visible_def_def)
  qed
qed auto

lemma agree_list_tools: "agree caller sf (list_tools lib sf caller) (list_tools lib (erase_surface caller sf) caller)"
  unfolding list_tools_def
proof (rule agree_get_state)
  fix s
  have "ct_exposed (erase_catalog (sf_config sf) caller cat) = filter (\<lambda>(_, tool_id). visible (sf_config sf) caller tool_id) (ct_exposed cat)" for cat
    by (simp add: erase_catalog_def)
  then show "agree caller sf
      (State_Monad.bind (tool_defs lib sf (ss_catalog s) caller (ct_exposed (ss_catalog s)))
        (\<lambda>defs. State_Monad.return (JObj [(''tools'', JArr defs)])))
      (State_Monad.bind (tool_defs lib (erase_surface caller sf) (ss_catalog (erase_state caller sf s)) caller
          (ct_exposed (ss_catalog (erase_state caller sf s))))
        (\<lambda>defs. State_Monad.return (JObj [(''tools'', JArr defs)])))"
    by (auto intro!: agree_tool_defs agree_bind)
qed

lemma agree_details_text:
  "agree caller sf (details_text lib sf caller tool_id) (details_text lib (erase_surface caller sf) caller tool_id)"
proof (cases "visible_workflow sf caller tool_id")
  case None
  then show ?thesis
    unfolding details_text_def
    by (auto intro!: agree_get_state agree_bind agree_return agree_schema_of split: option.split)
qed (auto simp: details_text_def)

section \<open>Calls of what is hidden\<close>

lemma may_call_hidden: "\<not> visible (sf_config sf) caller tool_id \<Longrightarrow> may_call lib ops sf caller tool_id = State_Monad.return False"
  by (simp add: may_call_def visible_def)

lemma agree_dispatch_hidden:
  assumes "\<not> visible (sf_config sf) caller tool_id"
  shows "agree caller sf (dispatch lib ops sf caller tool_id args wanted)
    (dispatch lib ops (erase_surface caller sf) caller tool_id args wanted)"
proof -
  have none: "cat_def (erase_catalog (sf_config sf) caller cat) tool_id = None" for cat
    using assms by (simp add: cat_def_def erase_catalog_def map_of_filter_fst)
  show ?thesis
    unfolding dispatch_def dispatch_reach_def Let_def not_sent_def
    by (auto simp: none may_call_hidden assms split: option.split intro!: agree_bind agree_ask agree_get_state agree_return)
qed

lemma agree_route_call_hidden:
  assumes "\<not> visible (sf_config sf) caller tool_id"
  shows "agree caller sf (route_call lib ops sf caller tool_id args wanted)
    (route_call lib ops (erase_surface caller sf) caller tool_id args wanted)"
proof -
  have "map_of (sf_workflow_by_id (erase_surface caller sf)) tool_id = None"
    using assms by (simp add: erase_surface_def map_of_filter_fst)
  then show ?thesis
    unfolding route_call_def
    by (auto simp: may_call_hidden assms split: option.split intro!: agree_dispatch_hidden)
qed

lemma map_of_filter_snd:
  "distinct (map fst m) \<Longrightarrow> map_of (filter (\<lambda>(_, v). P v) m) k = Option.bind (map_of m k) (\<lambda>v. if P v then Some v else None)"
  by (induction m) (auto simp: map_of_eq_None_iff [THEN iffD2] image_iff split: option.splits)

lemma exposed_id_hidden:
  assumes "distinct (map fst (ct_exposed cat))"
    "\<forall>tool_id. map_of (ct_exposed cat) name = Some tool_id \<longrightarrow> \<not> visible (sf_config sf) caller tool_id"
  shows "exposed_id sf cat caller name = None"
    "exposed_id (erase_surface caller sf) (erase_catalog (sf_config sf) caller cat) caller name = None"
  using assms by (cases "map_of (ct_exposed cat) name"; force simp: exposed_id_def erase_catalog_def map_of_filter_snd)+

lemma route_call_hidden:
  assumes "\<not> visible (sf_config sf) caller tool_id"
  shows "run_state (route_call lib ops sf caller tool_id args wanted) (w, s) =
    (text_result (unknown_tool_id lib sf (ss_catalog s) caller tool_id) True, (snd (wo_now ops w), s))"
  by (simp add: route_call_def dispatch_def dispatch_reach_def ask_def get_state_def on_state_def not_sent_def
      may_call_hidden [OF assms] Let_def split: option.split prod.split)


text \<open>A rule that names the tool hides it from a caller without the scope.\<close>

definition scoped_surface :: surface where
  "scoped_surface = (toy_surface [])\<lparr>sf_config :=
     (sf_config (toy_surface []))\<lparr>c_scopes := \<lparr>sc_rules = [\<lparr>sr_scope = ''s'', sr_tools = [''a.x'']\<rparr>], sc_report_only = False\<rparr>\<rparr>\<rparr>"


end
