(* ===== verification/Reports.thy ===== *)
theory Reports
  imports Calls
begin

text \<open>
  The audit and inspect side (\<open>src/src/surface/audit.rs\<close>): the source map, the lint report, the verify run, the
  statistics and the access report. Each is a document built from the surface; \<open>f64_json\<close> prints a percentage.
\<close>

section \<open>Vocabulary\<close>

definition mode_text :: "mode \<Rightarrow> string" where
  "mode_text m = (case m of Passthrough \<Rightarrow> ''passthrough'' | ThreeTool \<Rightarrow> ''three_tool'')"

definition kind_text :: "backend_kind \<Rightarrow> string" where
  "kind_text k = (case k of BK_Mcp \<Rightarrow> ''mcp'' | BK_Http \<Rightarrow> ''http'' | BK_Spec \<Rightarrow> ''spec'')"

definition binding_text :: "binding \<Rightarrow> string" where
  "binding_text b = (case b of BOk \<Rightarrow> ''ok'' | BChanged \<Rightarrow> ''changed'' | BBroken \<Rightarrow> ''broken'')"

definition opt_str :: "string option \<Rightarrow> json" where
  "opt_str v = (case v of Some s \<Rightarrow> JStr s | None \<Rightarrow> JNull)"

definition strs :: "string list \<Rightarrow> json" where
  "strs xs = JArr (map JStr xs)"

section \<open>The source map\<close>

text \<open>The name a tool is exposed under: the last of the exposed names that stands for it.\<close>

definition name_of :: "catalog \<Rightarrow> string \<Rightarrow> string option" where
  "name_of cat tool_id = map_of (rev (map (\<lambda>(name, tid). (tid, name)) (ct_exposed cat))) tool_id"

definition renamed :: "catalog \<Rightarrow> tool_def \<Rightarrow> bool" where
  "renamed cat t \<longleftrightarrow> (case name_of cat (td_id t) of
      Some n \<Rightarrow> n \<noteq> sanitize_name (td_name t) 0 \<and> n \<noteq> sanitize_name (td_id t) 0 | None \<Rightarrow> False)"

definition live_sha :: "catalog \<Rightarrow> string \<Rightarrow> string" where
  "live_sha cat tool_id = (case map_of (ct_origin_sha cat) tool_id of Some sha \<Rightarrow> sha | None \<Rightarrow> [])"

definition overlay_row :: "surface \<Rightarrow> catalog \<Rightarrow> tool_def \<Rightarrow> overlay \<Rightarrow> json" where
  "overlay_row sf cat t ov =
     (case binding_status ov (Some (raw_resolved (sf_upstreams sf) t)) (live_sha cat (td_id t)) of
        (status, reasons) \<Rightarrow> JObj
          [(''description'', JBool (ov_description ov \<noteq> None)), (''fields'', strs (map fst (ov_fields ov))),
           (''error_hints'', jnat (length (ov_error_hints ov))), (''authored_sha'', opt_str (ov_authored_sha ov)),
           (''status'', JStr (binding_text status)), (''reasons'', strs reasons)])"

definition origin_of :: "surface \<Rightarrow> tool_def \<Rightarrow> string \<times> string \<times> string" where
  "origin_of sf t =
     (if td_upstream_idx t < length (sf_upstreams sf) then
        (let up = sf_upstreams sf ! td_upstream_idx t in (us_name up, kind_text (us_kind up), us_origin up (td_name t)))
      else (hd (split_on (CHR ''.'') (td_id t)), ''unknown'', td_name t))"

definition source_row :: "surface \<Rightarrow> catalog \<Rightarrow> tool_def \<Rightarrow> json" where
  "source_row sf cat t =
     (case origin_of sf t of (upstream, kind, origin) \<Rightarrow> JObj
        [(''tool_id'', JStr (td_id t)), (''upstream'', JStr upstream), (''backend'', JStr kind), (''origin'', JStr origin),
         (''exposed_as'', opt_str (name_of cat (td_id t))),
         (''overlay'', (case overlay_for (sf_config sf) (td_id t) of Some ov \<Rightarrow> overlay_row sf cat t ov | None \<Rightarrow> JNull)),
         (''schema_sha'', JStr (live_sha cat (td_id t)))])"

definition orphan_row :: "overlay \<Rightarrow> json" where
  "orphan_row ov = (case binding_status ov None [] of
     (status, reasons) \<Rightarrow> JObj [(''tool'', JStr (ov_tool ov)), (''status'', JStr (binding_text status)), (''reasons'', strs reasons)])"

definition seen_by :: "surface \<Rightarrow> caller option \<Rightarrow> tool_def \<Rightarrow> bool" where
  "seen_by sf who t \<longleftrightarrow> (case who of Some c \<Rightarrow> visible (sf_config sf) c (td_id t) | None \<Rightarrow> True)"

definition source_map :: "surface \<Rightarrow> catalog \<Rightarrow> caller option \<Rightarrow> json" where
  "source_map sf cat who =
     (let seen = filter (seen_by sf who) (ct_tools cat) in JObj
        [(''mode'', JStr (mode_text (c_mode (sf_config sf)))), (''tool_count'', jnat (length seen)),
         (''exposed_by_name'', jnat (length (ct_exposed cat))), (''renamed_collisions'', jnat (length (filter (renamed cat) seen))),
         (''overlaid'', jnat (length (c_overlays (sf_config sf)))),
         (''orphan_overlays'', JArr (if who \<noteq> None then []
            else map orphan_row (filter (\<lambda>ov. cat_def cat (ov_tool ov) = None) (c_overlays (sf_config sf))))),
         (''tools'', JArr (map (source_row sf cat) seen))])"

section \<open>The lint report\<close>

definition rules :: "(string \<times> string) list" where
  "rules =
     [(''no_description'', ''Purpose: no description at all '' @ em_dash @ '' agents can'' @ [CHR 0x27] @ ''t tell what the tool does''),
      (''thin_description'', ''Purpose/Length: description only restates the signature (no behaviour)''),
      (''confusable_descriptions'', ''Ambiguity: shares a summary AND HTTP method with another tool '' @ em_dash @ '' the agent can'' @ [CHR 0x27] @ ''t disambiguate''),
      (''params_undescribed'', ''Parameter Explanation: majority of parameters carry no description''),
      (''untyped_param'', ''Parameter Explanation: a parameter declares no type/schema (opaque blob)''),
      (''mutating_no_required'', ''Schema safety: a write/delete op with no required parameters''),
      (''many_required'', ''Schema fillability: >8 required parameters '' @ em_dash @ '' hard to call correctly''),
      (''deep_schema'', ''Schema fillability: nests deeper than 6 levels '' @ em_dash @ '' hard for an agent to fill''),
      (''hidden_text'', ''Poisoning: description carries invisible characters (zero-width, or a bidi override)''),
      (''model_directed_instruction'', ''Poisoning: description instructs the MODEL rather than describing the tool''),
      (''secret_solicitation'', ''Poisoning: description names a local credential file (~/.ssh/id_rsa, .env) a remote tool cannot need'')]"

definition tool_origin :: "surface \<Rightarrow> tool_def \<Rightarrow> string" where
  "tool_origin sf t = (if td_upstream_idx t < length (sf_upstreams sf) then us_origin (sf_upstreams sf ! td_upstream_idx t) (td_name t) else [])"

definition confusion_key :: "lib \<Rightarrow> surface \<Rightarrow> tool_def \<Rightarrow> string option" where
  "confusion_key lib sf t =
     map_option (\<lambda>k. case http_method (tool_origin sf t) of Some m \<Rightarrow> m @ '' '' @ k | None \<Rightarrow> k)
       (confusable_key (uc_lowercase (lb_uc lib)) (td_description t))"

definition confusable :: "lib \<Rightarrow> surface \<Rightarrow> tool_def list \<Rightarrow> tool_def \<Rightarrow> bool" where
  "confusable lib sf ts t \<longleftrightarrow> (case confusion_key lib sf t of
      Some k \<Rightarrow> 1 < length (filter (\<lambda>u. confusion_key lib sf u = Some k) ts) | None \<Rightarrow> False)"

text \<open>The rules each tool trips; the schemas are resolved through the memo.\<close>

fun fired_rules :: "lib \<Rightarrow> surface \<Rightarrow> tool_def list \<Rightarrow> tool_def list \<Rightarrow> ('w, (string \<times> string list) list) run" where
  "fired_rules lib sf all [] = State_Monad.return []"
| "fired_rules lib sf all (t # ts) = do {
     schema \<leftarrow> schema_of lib sf t;
     let fired = lint (uc_lowercase (lb_uc lib)) (td_name t) (td_description t) schema (is_mutating (tool_origin sf t)) @
       (if confusable lib sf all t then [''confusable_descriptions''] else []);
     rest \<leftarrow> fired_rules lib sf all ts;
     State_Monad.return ((td_id t, fired) # rest)
   }"

text \<open>One decimal, rounded half up (counts are not negative).\<close>

definition pct :: "nat \<Rightarrow> nat \<Rightarrow> rat" where
  "pct c n = (if n = 0 then 0 else of_int \<lfloor>of_nat (c * 1000) / of_nat n + 1 / 2 :: rat\<rfloor> / 10)"

definition lint_report :: "lib \<Rightarrow> (rat \<Rightarrow> json) \<Rightarrow> surface \<Rightarrow> nat \<Rightarrow> ('w, json) run" where
  "lint_report lib f64_json sf sample = do {
     s \<leftarrow> get_state;
     let ts = ct_tools (ss_catalog s);
     fired \<leftarrow> fired_rules lib sf ts ts;
     let flagged = filter (\<lambda>(_, fs). fs \<noteq> []) fired;
     State_Monad.return (JObj
       [(''tools'', jnat (length ts)), (''clean'', jnat (length ts - length flagged)), (''flagged'', jnat (length flagged)),
        (''rules'', JArr (map (\<lambda>(rule, why).
           let c = length (filter (\<lambda>r. r = rule) (concat (map snd fired))) in JObj
             [(''rule'', JStr rule), (''count'', jnat c), (''pct'', f64_json (pct c (length ts))), (''why'', JStr why)]) rules)),
        (''sample'', JArr (map (\<lambda>(tool_id, fs). JObj [(''tool_id'', JStr tool_id), (''findings'', strs fs)]) (take sample flagged)))])
   }"

section \<open>The verify run\<close>

fun run_checks :: "lib \<Rightarrow> 'w world_ops \<Rightarrow> surface \<Rightarrow> caller \<Rightarrow> (string \<times> verify_check) list \<Rightarrow> ('w, (bool \<times> json) list) run" where
  "run_checks lib ops sf caller [] = State_Monad.return []"
| "run_checks lib ops sf caller ((tool, check) # cs) = do {
     r \<leftarrow> route_call lib ops sf caller tool (vk_arguments check) [];
     s \<leftarrow> get_state;
     let (pass, failures) = eval_expect (lb_parse lib) r (tool_from_spec sf (ss_catalog s) tool) (vk_expect check);
     rest \<leftarrow> run_checks lib ops sf caller cs;
     State_Monad.return ((pass, JObj [(''tool'', JStr tool), (''name'', opt_str (vk_name check)), (''pass'', JBool pass),
       (''failures'', strs failures)]) # rest)
   }"

definition verify :: "lib \<Rightarrow> 'w world_ops \<Rightarrow> surface \<Rightarrow> caller \<Rightarrow> ('w, json) run" where
  "verify lib ops sf caller = do {
     rs \<leftarrow> run_checks lib ops sf caller
       (concat (map (\<lambda>ov. map (Pair (ov_tool ov)) (ov_verify ov)) (c_overlays (sf_config sf))));
     State_Monad.return (JObj
       [(''passed'', jnat (length (filter fst rs))), (''failed'', jnat (length (filter (\<lambda>r. \<not> fst r) rs))),
        (''checks'', JArr (map snd rs))])
   }"

section \<open>Statistics\<close>

definition exact_resolve_cap :: nat where
  "exact_resolve_cap = 32"

definition raw_chars :: "lib \<Rightarrow> surface \<Rightarrow> catalog \<Rightarrow> nat" where
  "raw_chars lib sf cat =
     (let exact = length (ct_tools cat) \<le> exact_resolve_cap in
      sum_list (map (\<lambda>t. length (td_description t) +
        json_len (lb_ser lib) (if exact then raw_resolved (sf_upstreams sf) t else td_input_schema t) + length (td_name t)) (ct_tools cat)))"

definition empty_listing :: string where
  "empty_listing = [CHR 0x7B, CHR 0x22] @ ''tools'' @ [CHR 0x22, CHR 0x3A, CHR 0x5B, CHR 0x5D, CHR 0x7D]"

definition stats :: "lib \<Rightarrow> surface \<Rightarrow> bool list \<Rightarrow> caller \<Rightarrow> ('w, json) run" where
  "stats lib sf stale caller = do {
     s \<leftarrow> get_state;
     let cat = ss_catalog s;
     let cfg = sf_config sf;
     defs \<leftarrow> tool_defs lib sf cat caller (ct_exposed cat);
     let min_chars = length empty_listing + sum_list (map (json_len (lb_ser lib)) defs) + (length defs - 1);
     State_Monad.return (JObj
       [(''mode'', JStr (mode_text (c_mode cfg))), (''upstreams_configured'', jnat (length (c_upstreams cfg))),
        (''upstreams_active'', jnat (length (sf_upstreams sf))),
        (''upstreams_stale'', strs (map (us_name \<circ> fst) (filter snd (zip (sf_upstreams sf) stale)))),
        (''upstream_tools'', jnat (length (ct_tools cat))),
        (''visible_after_scopes'', jnat (length (filter (\<lambda>t. visible cfg caller (td_id t)) (ct_tools cat)))),
        (''surface_tools'', jnat (length defs)), (''est_tokens_raw'', jnat (raw_chars lib sf cat div 4)),
        (''est_tokens_minified'', jnat (min_chars div 4)),
        (''est_raw_exact'', JBool (length (ct_tools cat) \<le> exact_resolve_cap))])
   }"

section \<open>The access report\<close>

definition granted_tools :: "config \<Rightarrow> catalog \<Rightarrow> string list \<Rightarrow> string list" where
  "granted_tools cfg cat scopes = filter (\<lambda>tool_id. allowed cfg tool_id scopes) (map td_id (ct_tools cat))"

definition granted_workflows :: "config \<Rightarrow> string list \<Rightarrow> string list" where
  "granted_workflows cfg scopes = filter (\<lambda>wid. allowed cfg wid scopes) (map wf_id (c_workflows cfg))"

definition caller_row :: "config \<Rightarrow> catalog \<Rightarrow> nat \<Rightarrow> string \<Rightarrow> string list \<Rightarrow> json" where
  "caller_row cfg cat sample who scopes = JObj
     [(''caller'', JStr who), (''scopes'', strs scopes), (''tools'', jnat (length (granted_tools cfg cat scopes))),
      (''composites'', jnat (length (granted_workflows cfg scopes))), (''sample'', strs (take sample (granted_tools cfg cat scopes)))]"

definition granted_by_rule :: "config \<Rightarrow> string \<Rightarrow> bool" where
  "granted_by_rule cfg tool_id \<longleftrightarrow> list_ex (\<lambda>r. list_ex (\<lambda>p. pattern_match p tool_id) (sr_tools r)) (sc_rules (c_scopes cfg))"

definition orphaned :: "config \<Rightarrow> string list \<Rightarrow> string list" where
  "orphaned cfg ids = (if sc_rules (c_scopes cfg) = [] then [] else filter (\<lambda>tool_id. \<not> granted_by_rule cfg tool_id) ids)"

definition identity_source :: "bool \<Rightarrow> bool \<Rightarrow> string" where
  "identity_source bearer gateway =
     (if bearer \<and> gateway then ''bearer or gateway headers'' else if bearer then ''bearer''
      else if gateway then ''gateway headers'' else ''none'')"

definition log_kind :: "config \<Rightarrow> string" where
  "log_kind cfg = (case c_log_file cfg of None \<Rightarrow> ''off'' | Some p \<Rightarrow> if p = ''stderr'' then ''stderr'' else ''file'')"

definition access_warnings :: "string option \<Rightarrow> surface \<Rightarrow> catalog \<Rightarrow> bool \<Rightarrow> caller \<Rightarrow> string list" where
  "access_warnings env sf cat tamper_evident process =
     (let cfg = sf_config sf; auth = c_auth cfg; rl = c_rate_limits cfg; rules = sc_rules (c_scopes cfg);
          identified = has_verifier env auth \<or> au_trusted_headers auth \<noteq> None;
          process_tools = granted_tools cfg cat (ca_scopes process)
      in (if rules = [] then [''no scope rules: every caller can call every tool ('' @ show_nat (length (ct_tools cat)) @
             '' tools, '' @ show_nat (length (c_workflows cfg)) @ '' composites)'']
          else if scopes_report_only_active (c_scopes cfg)
          then [''scope rules are report-only: every caller can call every tool; rows show what enforcement would allow'']
          else []) @
         (if \<not> identified then [''no caller identity: over HTTP every request is the process caller, scopes '' @ debug_list (ca_scopes process)]
          else if au_allow_anonymous auth \<and> process_tools \<noteq> []
          then [''allow_anonymous: a request with no identity gets the process scopes '' @ debug_list (ca_scopes process) @
             '' ('' @ show_nat (length process_tools) @ '' tools)'']
          else []) @
         (if rl_report_only_active rl then [''rate limits are report-only: nothing is refused for exceeding per_caller / per_tool''] else []) @
         (if rl_any rl \<and> identified \<and> \<not> names_the_caller env auth
          then [''rate limits key on the connection, not the caller: callers behind one gateway share a bucket (set auth.trusted_headers.subject)'']
          else []) @
         (if c_log_file cfg = None then [''no audit log (log_file): nothing records who called what'']
          else if \<not> tamper_evident then [''audit log is not tamper-evident (no log_hmac_key)''] else []))"

definition access_report :: "string option \<Rightarrow> surface \<Rightarrow> surface_state \<Rightarrow> caller \<Rightarrow> nat \<Rightarrow> json" where
  "access_report env sf s process sample =
     (let cfg = sf_config sf; cat = ss_catalog s; auth = c_auth cfg; rl = c_rate_limits cfg; rules = sc_rules (c_scopes cfg);
          bearer = has_verifier env auth; gateway = au_trusted_headers auth \<noteq> None;
          tools = orphaned cfg (map td_id (ct_tools cat)); tamper_evident = ss_chain s \<noteq> None
      in JObj
       [(''identity'', JObj
          [(''source'', JStr (identity_source bearer gateway)),
           (''without_identity'', JStr (if \<not> (bearer \<or> gateway) then ''served as the process caller (no identity is configured)''
              else if au_allow_anonymous auth then ''served as the process caller (allow_anonymous)'' else ''refused (401)'')),
           (''revocation_checked'', JBool (au_introspection auth \<noteq> None))]),
        (''scopes'', JObj
          [(''rules'', jnat (length rules)), (''enforced'', JBool (rules \<noteq> [] \<and> \<not> sc_report_only (c_scopes cfg))),
           (''report_only'', JBool (sc_report_only (c_scopes cfg)))]),
        (''callers'', JArr (caller_row cfg cat sample ''no scopes'' [] #
           map (\<lambda>sc. caller_row cfg cat sample (''scope '' @ sc) [sc]) (remdups (sort (map sr_scope rules))) @
           [caller_row cfg cat sample (''process caller ('' @ caller_label process @ '')'') (ca_scopes process)])),
        (''granted_by_no_rule'', JObj
          [(''count'', jnat (length tools)), (''sample'', strs (take sample tools)),
           (''composites'', strs (orphaned cfg (map wf_id (c_workflows cfg))))]),
        (''rate_limits'', JObj
          [(''per_caller'', JBool (rl_per_caller rl \<noteq> None)), (''per_tool'', JBool (rl_per_tool rl \<noteq> None)),
           (''report_only'', JBool (rl_report_only rl)),
           (''overlay_limits'', jnat (length (filter (\<lambda>ov. ov_rate_limit ov \<noteq> None) (c_overlays cfg))))]),
        (''audit'', JObj [(''log'', JStr (log_kind cfg)), (''tamper_evident'', JBool tamper_evident)]),
        (''warnings'', strs (access_warnings env sf cat tamper_evident process))])"

text \<open>What the report calls granted is what a call is allowed: the row of a caller counts exactly the tools it may
  call, and without a rule that names it no caller may call a tool once rules are enforced.\<close>

lemma row_counts_callable:
  "\<not> sc_report_only (c_scopes cfg) \<Longrightarrow>
   granted_tools cfg cat (ca_scopes c) = filter (visible cfg c) (map td_id (ct_tools cat))"
  by (simp add: granted_tools_def visible_def [abs_def])

lemma orphaned_unreachable:
  "tool_id \<in> set (orphaned cfg ids) \<Longrightarrow> \<not> allowed cfg tool_id scopes"
  by (auto simp: orphaned_def granted_by_rule_def allowed_def list_ex_iff split: if_splits)

section \<open>Counts over what is hidden\<close>

text \<open>The number of exposed names counts hidden tools too, in a scoped map.\<close>

lemma exposed_count_not_scoped:
  "vget (source_map sf cat (Some c)) ''exposed_by_name'' = Some (jnat (length (ct_exposed cat)))"
  by (simp add: source_map_def Let_def vget_def jget_def)

end
