(* ===== verification/Resources.thy ===== *)
theory Resources
  imports Reports CallTrace
begin

text \<open>
  Prompts and resources (\<open>src/src/surface/resources.rs\<close>, passthrough of \<open>src/src/backend.rs\<close>): the merged listings,
  the routes of resource URIs, and the namespaced prompts. A spec upstream has neither.
\<close>

section \<open>Backends\<close>

definition list_passthrough :: "'w world_ops \<Rightarrow> surface \<Rightarrow> nat \<Rightarrow> string \<Rightarrow> string \<Rightarrow> ('w, json list) run" where
  "list_passthrough ops sf idx meth key =
     (if us_kind (sf_upstreams sf ! idx) = BK_Spec then State_Monad.return [] else ask (wo_list ops idx meth key))"

definition backend_read_resource :: "'w world_ops \<Rightarrow> surface \<Rightarrow> nat \<Rightarrow> string \<Rightarrow> ('w, (string \<times> json option) + json) run" where
  "backend_read_resource ops sf idx uri =
     (if us_kind (sf_upstreams sf ! idx) = BK_Spec then State_Monad.return (Inl (''spec upstream has no resources'', None))
      else ask (wo_read ops idx uri))"

definition backend_get_prompt :: "'w world_ops \<Rightarrow> surface \<Rightarrow> nat \<Rightarrow> string \<Rightarrow> json \<Rightarrow> ('w, string + json) run" where
  "backend_get_prompt ops sf idx name arguments =
     (if us_kind (sf_upstreams sf ! idx) = BK_Spec then State_Monad.return (Inl ''spec upstream has no prompts'')
      else ask (wo_prompt ops idx name arguments))"

section \<open>Resources\<close>

definition source_map_uri :: string where
  "source_map_uri = ''minmcp://tools''"

definition upstream_visible :: "surface \<Rightarrow> catalog \<Rightarrow> caller \<Rightarrow> nat \<Rightarrow> bool" where
  "upstream_visible sf cat caller idx =
     (let ts = filter (\<lambda>t. td_upstream_idx t = idx) (ct_tools cat) in
      if list_ex (\<lambda>t. visible (sf_config sf) caller (td_id t)) ts then True else ts = [])"

definition uri_of :: "json \<Rightarrow> string option" where
  "uri_of r = Option.bind (vget r ''uri'') as_str"

definition add_routes :: "nat \<Rightarrow> json list \<Rightarrow> (string \<times> nat) list \<Rightarrow> (string \<times> nat) list" where
  "add_routes idx rs origin = fold (\<lambda>r origin. case uri_of r of Some uri \<Rightarrow> alist_put uri idx origin | None \<Rightarrow> origin) rs origin"

text \<open>The listing of the upstreams with the given numbers: the resources, and the routes they teach.\<close>

fun gather_resources ::
  "'w world_ops \<Rightarrow> surface \<Rightarrow> catalog \<Rightarrow> caller \<Rightarrow> nat list \<Rightarrow> json list \<times> (string \<times> nat) list \<Rightarrow> ('w, json list \<times> (string \<times> nat) list) run" where
  "gather_resources ops sf cat caller [] acc = State_Monad.return acc"
| "gather_resources ops sf cat caller (idx # idxs) acc =
     (if \<not> upstream_visible sf cat caller idx then gather_resources ops sf cat caller idxs acc
      else do {
        rs \<leftarrow> list_passthrough ops sf idx ''resources/list'' ''resources'';
        gather_resources ops sf cat caller idxs (fst acc @ rs, add_routes idx rs (snd acc))
      })"

definition source_map_resource :: json where
  "source_map_resource = JObj
     [(''uri'', JStr source_map_uri), (''name'', JStr ''uncompressed-tools''), (''title'', JStr ''min-mcp source map''),
      (''description'', JStr ''Every tool behind this minified surface, mapped to its origin (METHOD /path or upstream tool name), overlay/binding status, and schema fingerprint.''),
      (''mimeType'', JStr ''application/json'')]"

definition learn_routes :: "(string \<times> nat) list \<Rightarrow> surface_state \<Rightarrow> surface_state" where
  "learn_routes origin s = s\<lparr>ss_origin := fold (\<lambda>(uri, idx). alist_put uri idx) origin (ss_origin s)\<rparr>"

definition list_resources :: "'w world_ops \<Rightarrow> surface \<Rightarrow> caller \<Rightarrow> ('w, json) run" where
  "list_resources ops sf caller = do {
     s \<leftarrow> get_state;
     gathered \<leftarrow> gather_resources ops sf (ss_catalog s) caller [0..<length (sf_upstreams sf)] ([], []);
     modify_state (learn_routes (snd gathered));
     State_Monad.return (JObj [(''resources'', JArr (fst gathered @ [source_map_resource]))])
   }"

datatype read_error = UnknownResource string | ReadFailed "string \<times> json option"

definition route_of :: "'w world_ops \<Rightarrow> surface \<Rightarrow> caller \<Rightarrow> string \<Rightarrow> ('w, nat option) run" where
  "route_of ops sf caller uri = do {
     s \<leftarrow> get_state;
     (case map_of (ss_origin s) uri of
        Some idx \<Rightarrow> State_Monad.return (Some idx)
      | None \<Rightarrow> do {
          _ \<leftarrow> list_resources ops sf caller;
          s \<leftarrow> get_state;
          State_Monad.return (map_of (ss_origin s) uri)
        })
   }"

definition read_resource :: "lib \<Rightarrow> 'w world_ops \<Rightarrow> surface \<Rightarrow> caller \<Rightarrow> string \<Rightarrow> ('w, read_error + json) run" where
  "read_resource lib ops sf caller uri =
     (if uri = source_map_uri then do {
        s \<leftarrow> get_state;
        State_Monad.return (Inr (JObj [(''contents'', JArr [JObj
          [(''uri'', JStr source_map_uri), (''mimeType'', JStr ''application/json''),
           (''text'', JStr (lb_pretty lib (source_map sf (ss_catalog s) (Some caller))))]])]))
      }
      else do {
        known \<leftarrow> route_of ops sf caller uri;
        s \<leftarrow> get_state;
        (case known of
           None \<Rightarrow> State_Monad.return (Inl (UnknownResource uri))
         | Some idx \<Rightarrow>
             if \<not> upstream_visible sf (ss_catalog s) caller idx then State_Monad.return (Inl (UnknownResource uri))
             else do {
               r \<leftarrow> backend_read_resource ops sf idx uri;
               State_Monad.return (map_sum ReadFailed id r)
             })
      })"

section \<open>Prompts\<close>

definition namespaced :: "string \<Rightarrow> json \<Rightarrow> json" where
  "namespaced upstream p =
     (case Option.bind (vget p ''name'') as_str of
        Some name \<Rightarrow> (case p of JObj m \<Rightarrow> JObj (jput ''name'' (JStr (upstream @ ''.'' @ name)) m) | _ \<Rightarrow> p)
      | None \<Rightarrow> p)"

fun gather_prompts :: "'w world_ops \<Rightarrow> surface \<Rightarrow> catalog \<Rightarrow> caller \<Rightarrow> nat list \<Rightarrow> ('w, json list) run" where
  "gather_prompts ops sf cat caller [] = State_Monad.return []"
| "gather_prompts ops sf cat caller (idx # idxs) =
     (if \<not> upstream_visible sf cat caller idx then gather_prompts ops sf cat caller idxs
      else do {
        ps \<leftarrow> list_passthrough ops sf idx ''prompts/list'' ''prompts'';
        rest \<leftarrow> gather_prompts ops sf cat caller idxs;
        State_Monad.return (map (namespaced (us_name (sf_upstreams sf ! idx))) ps @ rest)
      })"

definition list_prompts :: "'w world_ops \<Rightarrow> surface \<Rightarrow> caller \<Rightarrow> ('w, json) run" where
  "list_prompts ops sf caller = do {
     s \<leftarrow> get_state;
     ps \<leftarrow> gather_prompts ops sf (ss_catalog s) caller [0..<length (sf_upstreams sf)];
     State_Monad.return (JObj [(''prompts'', JArr ps)])
   }"

text \<open>The longest upstream name that prefixes the prompt's, among the visible ones; the first of equals.\<close>

definition prompt_candidate :: "surface \<Rightarrow> catalog \<Rightarrow> caller \<Rightarrow> string \<Rightarrow> nat \<Rightarrow> bool" where
  "prompt_candidate sf cat caller name idx =
     (let up = us_name (sf_upstreams sf ! idx) in
      case Option.bind (strip_prefix up name) (strip_prefix ''.'') of
        Some bare \<Rightarrow> up \<noteq> [] \<and> bare \<noteq> [] \<and> upstream_visible sf cat caller idx
      | None \<Rightarrow> False)"

definition prompt_step :: "surface \<Rightarrow> catalog \<Rightarrow> caller \<Rightarrow> string \<Rightarrow> nat \<Rightarrow> nat option \<Rightarrow> nat option" where
  "prompt_step sf cat caller name idx best =
     (if \<not> prompt_candidate sf cat caller name idx then best
      else case best of
          Some b \<Rightarrow> if length (us_name (sf_upstreams sf ! b)) < length (us_name (sf_upstreams sf ! idx)) then Some idx else best
        | None \<Rightarrow> Some idx)"

definition best_prompt :: "surface \<Rightarrow> catalog \<Rightarrow> caller \<Rightarrow> string \<Rightarrow> nat option" where
  "best_prompt sf cat caller name = fold (prompt_step sf cat caller name) [0..<length (sf_upstreams sf)] None"

definition get_prompt :: "'w world_ops \<Rightarrow> surface \<Rightarrow> caller \<Rightarrow> string \<Rightarrow> json \<Rightarrow> ('w, string + json) run" where
  "get_prompt ops sf caller name arguments = do {
     s \<leftarrow> get_state;
     (case best_prompt sf (ss_catalog s) caller name of
        None \<Rightarrow> State_Monad.return (Inl (''unknown prompt '' @ debug_str name @ '' '' @ em_dash @ '' prompt names are '' @
          [CHR 0x22] @ ''upstream.name'' @ [CHR 0x22]))
      | Some idx \<Rightarrow> backend_get_prompt ops sf idx (drop (length (us_name (sf_upstreams sf ! idx)) + 1) name) arguments)
   }"

section \<open>The owner of a prompt\<close>

lemma prompt_candidate_iff:
  "prompt_candidate sf cat caller name idx \<longleftrightarrow>
   (\<exists>bare. name = us_name (sf_upstreams sf ! idx) @ ''.'' @ bare \<and> us_name (sf_upstreams sf ! idx) \<noteq> [] \<and> bare \<noteq> [] \<and>
     upstream_visible sf cat caller idx)"
  by (auto simp: prompt_candidate_def Let_def strip_prefix_Some bind_eq_Some_conv split: option.splits)
    (metis bind.bind_lunit not_None_eq strip_prefix_Some append_Cons append_Nil)

lemma prompt_fold:
  fixes sf :: surface
  defines "nl \<equiv> \<lambda>i. length (us_name (sf_upstreams sf ! i))"
  assumes "fold (prompt_step sf cat caller name) idxs best = r"
  shows "(\<forall>b. best = Some b \<longrightarrow> (\<exists>b'. r = Some b' \<and> nl b \<le> nl b')) \<and>
    (\<forall>i\<in>set idxs. prompt_candidate sf cat caller name i \<longrightarrow> (\<exists>b'. r = Some b' \<and> nl i \<le> nl b')) \<and>
    (\<forall>b'. r = Some b' \<longrightarrow> best = Some b' \<or> b' \<in> set idxs \<and> prompt_candidate sf cat caller name b')"
  using assms(2)
proof (induction idxs arbitrary: best)
  case Nil
  then show ?case by auto
next
  case (Cons i idxs)
  define best' where "best' = prompt_step sf cat caller name i best"
  have r: "fold (prompt_step sf cat caller name) idxs best' = r"
    using Cons.prems by (simp add: best'_def)
  note IH = Cons.IH [OF r]
  have up: "\<forall>b. best = Some b \<longrightarrow> (\<exists>b'. best' = Some b' \<and> nl b \<le> nl b')"
    by (auto simp: best'_def prompt_step_def nl_def split: option.splits)
  have here: "prompt_candidate sf cat caller name i \<longrightarrow> (\<exists>b'. best' = Some b' \<and> nl i \<le> nl b')"
    by (auto simp: best'_def prompt_step_def nl_def split: option.splits)
  have only: "best' = best \<or> best' = Some i \<and> prompt_candidate sf cat caller name i"
    by (auto simp: best'_def prompt_step_def split: option.splits)
  show ?case
    using IH up here only by (auto dest: le_trans)
qed

lemma best_prompt_owner:
  assumes names: "distinct (map us_name (sf_upstreams sf))" and i: "i < length (sf_upstreams sf)"
    and i_cand: "prompt_candidate sf cat caller name i"
    and longest: "\<forall>k<length (sf_upstreams sf). prompt_candidate sf cat caller name k \<longrightarrow>
      length (us_name (sf_upstreams sf ! k)) \<le> length (us_name (sf_upstreams sf ! i))"
  shows "best_prompt sf cat caller name = Some i"
proof -
  note facts = prompt_fold [where sf = sf and cat = cat and caller = caller and name = name and best = None and
      idxs = "[0..<length (sf_upstreams sf)]", OF refl, folded best_prompt_def]
  obtain b where b: "best_prompt sf cat caller name = Some b"
    and len: "length (us_name (sf_upstreams sf ! i)) \<le> length (us_name (sf_upstreams sf ! b))"
    using facts i i_cand by auto
  have b_cand: "b < length (sf_upstreams sf)" "prompt_candidate sf cat caller name b"
    using facts b by auto
  have "length (us_name (sf_upstreams sf ! b)) = length (us_name (sf_upstreams sf ! i))"
    using longest b_cand len by (simp add: le_antisym)
  then have "us_name (sf_upstreams sf ! b) = us_name (sf_upstreams sf ! i)"
    using i_cand b_cand by (auto simp: prompt_candidate_iff append_eq_append_conv)
  then show ?thesis
    using names i b b_cand by (auto simp: distinct_conv_nth)
qed

lemma longer_name_takes_prompt:
  assumes "k < length (sf_upstreams sf)" "prompt_candidate sf cat caller name k"
    and "length (us_name (sf_upstreams sf ! i)) < length (us_name (sf_upstreams sf ! k))"
  shows "best_prompt sf cat caller name \<noteq> Some i"
proof
  assume best: "best_prompt sf cat caller name = Some i"
  have "\<forall>j\<in>set [0..<length (sf_upstreams sf)]. prompt_candidate sf cat caller name j \<longrightarrow>
      (\<exists>b'. best_prompt sf cat caller name = Some b' \<and> length (us_name (sf_upstreams sf ! j)) \<le> length (us_name (sf_upstreams sf ! b')))"
    unfolding best_prompt_def using prompt_fold [OF refl] by blast
  then show False
    using assms best by fastforce
qed

text \<open>So the names are not injective: an upstream \<open>corp\<close> with a prompt \<open>jira.x\<close> and a visible upstream \<open>corp.jira\<close> share
  the name \<open>corp.jira.x\<close>, and the first one's prompt is never served.\<close>

lemma prompt_name_shared:
  "namespaced ''corp'' (JObj [(''name'', JStr ''jira.x'')]) = namespaced ''corp.jira'' (JObj [(''name'', JStr ''x'')])"
  by code_simp

lemma shared_prompt_misrouted:
  assumes "i < length (sf_upstreams sf)" "k < length (sf_upstreams sf)" "us_name (sf_upstreams sf ! i) = ''corp''"
    and "us_name (sf_upstreams sf ! k) = ''corp.jira''" "upstream_visible sf cat caller k"
  shows "best_prompt sf cat caller ''corp.jira.x'' \<noteq> Some i"
  using assms by (intro longer_name_takes_prompt [of k]) (simp_all add: prompt_candidate_iff)

lemma namespaced_name:
  "vget p ''name'' = Some (JStr bare) \<Longrightarrow> vget (namespaced up p) ''name'' = Some (JStr (up @ ''.'' @ bare))"
  by (cases p) (auto simp: namespaced_def vget_def)

text \<open>C39: A prompt name round-trips: the name under which a visible upstream's prompt is listed is routed back to that
  upstream, with the prompt's own name, also when upstream names contain dots; unless a visible upstream with a longer
  name is a prefix of it.\<close>

theorem prompts_round_trip:
  assumes "distinct (map us_name (sf_upstreams sf))" "i < length (sf_upstreams sf)"
    and up: "up = us_name (sf_upstreams sf ! i)" "up \<noteq> []" and bare: "bare \<noteq> []"
    and visible: "upstream_visible sf (ss_catalog s) caller i"
    and listed: "vget p ''name'' = Some (JStr bare)"
    and longest: "\<forall>k<length (sf_upstreams sf). upstream_visible sf (ss_catalog s) caller k \<longrightarrow>
      length up < length (us_name (sf_upstreams sf ! k)) \<longrightarrow>
      \<not> starts_with (us_name (sf_upstreams sf ! k) @ ''.'') (up @ ''.'' @ bare)"
  shows "\<exists>name. vget (namespaced up p) ''name'' = Some (JStr name) \<and>
    run_state (get_prompt ops sf caller name args) (w, s) = run_state (backend_get_prompt ops sf i bare args) (w, s)"
proof -
  have "best_prompt sf (ss_catalog s) caller (up @ ''.'' @ bare) = Some i"
    using assms(1,2) up bare visible longest
    by (intro best_prompt_owner) (auto simp: prompt_candidate_iff starts_with_def strip_prefix_Some not_le [symmetric])
  then have "run_state (get_prompt ops sf caller (up @ ''.'' @ bare) args) (w, s) = run_state (backend_get_prompt ops sf i bare args) (w, s)"
    using up by (simp add: get_prompt_def get_state_def on_state_def State_Monad.bind_def)
  then show ?thesis
    using namespaced_name [OF listed, of up] by auto
qed

definition dotted_surface :: surface where
  "dotted_surface = (toy_surface [])\<lparr>sf_upstreams := [toy_upstream\<lparr>us_name := ''corp''\<rparr>, toy_upstream\<lparr>us_name := ''corp.jira''\<rparr>]\<rparr>"

theorem prompts_round_trip_witness:
  "\<exists>name. vget (namespaced ''corp.jira'' (JObj [(''name'', JStr ''new'')])) ''name'' = Some (JStr name) \<and>
    run_state (get_prompt (toy_ops TimedOut) dotted_surface toy_caller name JNull) ((), toy_state) =
    run_state (backend_get_prompt (toy_ops TimedOut) dotted_surface 1 ''new'' JNull) ((), toy_state)"
proof (rule prompts_round_trip)
  show "distinct (map us_name (sf_upstreams dotted_surface))" "1 < length (sf_upstreams dotted_surface)"
    "''corp.jira'' = us_name (sf_upstreams dotted_surface ! 1)"
    by (simp_all add: dotted_surface_def)
  show "upstream_visible dotted_surface (ss_catalog toy_state) toy_caller 1"
    by (simp add: upstream_visible_def toy_state_def toy_catalog_def toy_tool_def)
  show "vget (JObj [(''name'', JStr ''new'')]) ''name'' = Some (JStr ''new'')"
    by code_simp
  show "\<forall>k<length (sf_upstreams dotted_surface). upstream_visible dotted_surface (ss_catalog toy_state) toy_caller k \<longrightarrow>
      length ''corp.jira'' < length (us_name (sf_upstreams dotted_surface ! k)) \<longrightarrow>
      \<not> starts_with (us_name (sf_upstreams dotted_surface ! k) @ ''.'') (''corp.jira'' @ ''.'' @ ''new'')"
    by (auto simp: dotted_surface_def nth_Cons split: nat.splits)
qed simp_all

section \<open>Reading what was listed\<close>

lemma map_filter_append: "List.map_filter f (xs @ ys) = List.map_filter f xs @ List.map_filter f ys"
  by (simp add: map_filter_def)

lemma map_of_add_routes:
  "map_of (add_routes idx rs origin) uri =
   (if uri \<in> set (List.map_filter uri_of rs) then Some idx else map_of origin uri)"
  by (induction rs arbitrary: origin) (auto simp: add_routes_def map_filter_simps split: option.splits)

lemma distinct_add_routes: "distinct (map fst origin) \<Longrightarrow> distinct (map fst (add_routes idx rs origin))"
  by (induction rs arbitrary: origin) (auto simp: add_routes_def split: option.splits)

lemma list_passthrough_state:
  "run_state (list_passthrough ops sf idx meth key) (w, s) = (rs, (w', s')) \<Longrightarrow> s' = s"
  by (auto simp: list_passthrough_def ask_def State_Monad.return_def split: if_splits prod.splits)

lemma gather_routes:
  assumes "run_state (gather_resources ops sf cat caller idxs acc) (w, s) = (out, (w', s'))"
  shows "s' = s \<and>
    (\<forall>uri idx. map_of (snd out) uri = Some idx \<longrightarrow>
       idx \<in> set idxs \<and> upstream_visible sf cat caller idx \<or> map_of (snd acc) uri = Some idx) \<and>
    (\<forall>uri \<in> set (List.map_filter uri_of (fst out)).
       uri \<in> set (List.map_filter uri_of (fst acc)) \<or> map_of (snd out) uri \<noteq> None) \<and>
    (\<forall>uri. map_of (snd acc) uri \<noteq> None \<longrightarrow> map_of (snd out) uri \<noteq> None) \<and>
    (distinct (map fst (snd acc)) \<longrightarrow> distinct (map fst (snd out)))"
  using assms
proof (induction idxs arbitrary: acc w s)
  case Nil
  then show ?case by (auto simp: State_Monad.return_def)
next
  case (Cons i idxs)
  show ?case
  proof (cases "upstream_visible sf cat caller i")
    case False
    with Cons show ?thesis by fastforce
  next
    case True
    obtain rs w1 s1 where ask: "run_state (list_passthrough ops sf i ''resources/list'' ''resources'') (w, s) = (rs, (w1, s1))"
      by (metis prod.exhaust)
    note same = list_passthrough_state [OF ask]
    have run: "run_state (gather_resources ops sf cat caller idxs (fst acc @ rs, add_routes i rs (snd acc))) (w1, s1) = (out, (w', s'))"
      using Cons.prems True ask by (simp add: State_Monad.bind_def)
    show ?thesis
      using Cons.IH [OF run] same True
      by (auto simp: map_of_add_routes distinct_add_routes map_filter_append split: if_splits)
  qed
qed

lemma map_of_learned:
  assumes "distinct (map fst origin)"
  shows "map_of (fold (\<lambda>(uri, idx). alist_put uri idx) origin m) uri =
    (case map_of origin uri of Some idx \<Rightarrow> Some idx | None \<Rightarrow> map_of m uri)"
  using assms by (induction origin arbitrary: m) (auto split: option.splits simp: map_of_eq_None_iff [symmetric])

text \<open>A route to a hidden upstream is not refreshed: the resource is unknown, whatever the caller's own listing said.\<close>

lemma hidden_route_unknown:
  assumes "uri \<noteq> source_map_uri" "map_of (ss_origin s) uri = Some idx" "\<not> upstream_visible sf (ss_catalog s) caller idx"
  shows "run_state (read_resource lib ops sf caller uri) (w, s) = (Inl (UnknownResource uri), (w, s))"
  using assms by (simp add: read_resource_def route_of_def get_state_def on_state_def State_Monad.bind_def State_Monad.return_def)

text \<open>C40: Every resource a caller's listing shows is readable by that caller right after: its URI routes to an upstream the
  caller may see, and the read is forwarded there.\<close>

theorem listed_resources_readable:
  assumes run: "run_state (list_resources ops sf caller) (w, s) = (JObj [(''resources'', JArr rs)], (w1, s1))"
    and r: "r \<in> set rs" "uri_of r = Some uri" "uri \<noteq> source_map_uri"
  shows "\<exists>idx<length (sf_upstreams sf). upstream_visible sf (ss_catalog s) caller idx \<and>
    run_state (read_resource lib ops sf caller uri) (w2, s1) =
      (case run_state (backend_read_resource ops sf idx uri) (w2, s1) of (a, ws) \<Rightarrow> (map_sum ReadFailed id a, ws))"
proof -
  obtain out w' s' where gather: "run_state (gather_resources ops sf (ss_catalog s) caller [0..<length (sf_upstreams sf)] ([], []))
      (w, s) = (out, (w', s'))"
    by (metis prod.exhaust)
  note facts = gather_routes [OF gather]
  have rs: "rs = fst out @ [source_map_resource]" and s1: "s1 = learn_routes (snd out) s"
    using run gather facts
    by (auto simp: list_resources_def get_state_def modify_state_def on_state_def State_Monad.bind_def State_Monad.return_def)
  have "uri_of source_map_resource = Some source_map_uri"
    by (simp add: uri_of_def vget_def source_map_resource_def jget_def)
  with r rs have "uri \<in> set (List.map_filter uri_of (fst out))"
    by (force simp: map_filter_def)
  with facts obtain idx where idx: "map_of (snd out) uri = Some idx"
    by (auto simp: map_filter_simps)
  with facts have seen: "idx < length (sf_upstreams sf)" "upstream_visible sf (ss_catalog s) caller idx"
    by auto
  have "map_of (ss_origin s1) uri = Some idx" "ss_catalog s1 = ss_catalog s"
    using facts idx by (simp_all add: s1 learn_routes_def map_of_learned)
  with seen r(3) have "run_state (read_resource lib ops sf caller uri) (w2, s1) =
      (case run_state (backend_read_resource ops sf idx uri) (w2, s1) of (a, ws) \<Rightarrow> (map_sum ReadFailed id a, ws))"
    by (simp add: read_resource_def route_of_def get_state_def on_state_def State_Monad.bind_def State_Monad.return_def)
  with seen show ?thesis by auto
qed

definition listing_ops :: "unit world_ops" where
  "listing_ops = (toy_ops TimedOut)\<lparr>wo_list := (\<lambda>idx meth key w. ([JObj [(''uri'', JStr ''doc:1'')]], w)),
     wo_read := (\<lambda>idx uri w. (Inr (JStr uri), w))\<rparr>"

theorem listed_resources_readable_witness:
  "\<exists>idx<2. upstream_visible dotted_surface (ss_catalog toy_state) toy_caller idx \<and>
    run_state (read_resource toy_lib listing_ops dotted_surface toy_caller ''doc:1'') ((), learn_routes [(''doc:1'', 1)] toy_state) =
      (case run_state (backend_read_resource listing_ops dotted_surface idx ''doc:1'') ((), learn_routes [(''doc:1'', 1)] toy_state) of
         (a, ws) \<Rightarrow> (map_sum ReadFailed id a, ws))"
proof -
  have vis: "upstream_visible dotted_surface cat toy_caller idx" for cat idx
    by (auto simp: upstream_visible_def visible_def allowed_def dotted_surface_def toy_surface_def config_of_upstreams_def
        filter_empty_conv list_ex_iff)
  have ups: "sf_upstreams dotted_surface = [toy_upstream\<lparr>us_name := ''corp''\<rparr>, toy_upstream\<lparr>us_name := ''corp.jira''\<rparr>]"
    by (simp add: dotted_surface_def)
  have "run_state (list_resources listing_ops dotted_surface toy_caller) ((), toy_state) =
      (JObj [(''resources'', JArr [JObj [(''uri'', JStr ''doc:1'')], JObj [(''uri'', JStr ''doc:1'')], source_map_resource])],
       ((), learn_routes [(''doc:1'', 1)] toy_state))"
    by (simp add: list_resources_def get_state_def modify_state_def on_state_def State_Monad.bind_def State_Monad.return_def
        vis ups list_passthrough_def ask_def listing_ops_def add_routes_def uri_of_def vget_def jget_def
        toy_upstream_def upt_rec numeral_2_eq_2)
  note listed_resources_readable [OF this, of "JObj [(''uri'', JStr ''doc:1'')]" "''doc:1''"]
  then show ?thesis
    by (simp add: uri_of_def vget_def jget_def source_map_uri_def ups numeral_2_eq_2)
qed

end
