(* ===== verification/Auth.thy ===== *)
theory Auth
  imports Names Gates
begin

text \<open>
  Caller tokens (\<open>src/src/auth.rs\<close>): the claim checks on top of a signature, the live JWKS set with its refresh
  rules, the scopes a token names, and revocation by introspection. The JWT library, the digest and the two endpoints
  are arguments; \<open>decode_sound\<close> states what the library documents. Times are nanoseconds, \<open>unix\<close> seconds.
\<close>

section \<open>Tokens\<close>

record claim_checks =
  cc_audience :: "string option"
  cc_issuer :: "string option"

datatype algorithm = HS256 | RS256

text \<open>The library's \<open>Validation\<close>, as far as it is set: \<open>exp\<close> is required and checked by default.\<close>

record validation =
  va_algorithm :: algorithm
  va_validate_aud :: bool
  va_aud :: "string list option"
  va_iss :: "string list option"
  va_required :: "string list"

definition new_validation :: "algorithm \<Rightarrow> validation" where
  "new_validation alg = \<lparr>va_algorithm = alg, va_validate_aud = True, va_aud = None, va_iss = None, va_required = [''exp'']\<rparr>"

record 'key jwt_lib =
  jl_decode :: "nat \<Rightarrow> string \<Rightarrow> 'key \<Rightarrow> validation \<Rightarrow> string + json"
  jl_kid :: "string \<Rightarrow> string + string option"
  jl_from_secret :: "string \<Rightarrow> 'key"
  jl_from_pem :: "string \<Rightarrow> string + 'key"
  jl_from_components :: "string \<Rightarrow> string \<Rightarrow> string + 'key"

definition validation_for :: "algorithm \<Rightarrow> claim_checks \<Rightarrow> validation" where
  "validation_for alg checks =
     (let v = new_validation alg;
          v = (case cc_audience checks of None \<Rightarrow> v\<lparr>va_validate_aud := False\<rparr>
            | Some aud \<Rightarrow> v\<lparr>va_aud := Some [aud], va_required := ''aud'' # va_required v\<rparr>)
      in case cc_issuer checks of None \<Rightarrow> v | Some iss \<Rightarrow> v\<lparr>va_iss := Some [iss], va_required := ''iss'' # va_required v\<rparr>)"

definition verify_token :: "'key jwt_lib \<Rightarrow> nat \<Rightarrow> string \<Rightarrow> algorithm \<Rightarrow> 'key \<Rightarrow> claim_checks \<Rightarrow> string + json" where
  "verify_token lib unix tok alg key checks =
     (case jl_decode lib unix tok key (validation_for alg checks) of
        Inl e \<Rightarrow> Inl (''JWT validation failed (signature, expiry, audience, or issuer): '' @ e)
      | Inr claims \<Rightarrow> Inr claims)"

definition extract_scopes :: "json \<Rightarrow> string \<Rightarrow> string list" where
  "extract_scopes claims claim = (case vget claims claim of
       Some (JStr s) \<Rightarrow> split_whitespace s
     | Some (JArr a) \<Rightarrow> List.map_filter as_str a
     | _ \<Rightarrow> [])"

section \<open>The JWKS set\<close>

definition jwks_min_refresh :: nat where
  "jwks_min_refresh = 60 * 10 ^ 9"

definition jwks_max_age :: nat where
  "jwks_max_age = 600 * 10 ^ 9"

text \<open>The keys, and the URL with the time of the last fetch attempt; a static set has none.\<close>

record 'key jwks =
  jk_keys :: "(string \<times> 'key) list"
  jk_source :: "(string \<times> nat) option"

record jwk =
  jw_kty :: string
  jw_kid :: "string option"
  jw_n :: "string option"
  jw_e :: "string option"

text \<open>The RSA keys of a document, in order; a later key of a \<open>kid\<close> replaces an earlier one.\<close>

fun add_keys :: "'key jwt_lib \<Rightarrow> jwk list \<Rightarrow> (string \<times> 'key) list \<Rightarrow> string + (string \<times> 'key) list" where
  "add_keys lib [] keys = Inr keys"
| "add_keys lib (k # ks) keys =
     (if jw_kty k \<noteq> ''RSA'' then add_keys lib ks keys
      else case (jw_kid k, jw_n k, jw_e k) of
          (Some kid, Some n, Some e) \<Rightarrow> (case jl_from_components lib n e of
              Inl err \<Rightarrow> Inl (''bad RSA JWK for kid '' @ debug_str kid @ '': '' @ err)
            | Inr key \<Rightarrow> add_keys lib ks (alist_put kid key keys))
        | _ \<Rightarrow> add_keys lib ks keys)"

text \<open>\<open>read_doc\<close> is the typed reading of the document's \<open>keys\<close>.\<close>

definition parse_jwks :: "'key jwt_lib \<Rightarrow> (string \<Rightarrow> string + jwk list) \<Rightarrow> string \<Rightarrow> string + (string \<times> 'key) list" where
  "parse_jwks lib read_doc doc =
     (case read_doc doc of
        Inl e \<Rightarrow> Inl (''invalid JWKS JSON: '' @ e)
      | Inr ks \<Rightarrow> (case add_keys lib ks [] of
          Inl e \<Rightarrow> Inl e
        | Inr keys \<Rightarrow> if keys = [] then Inl ''JWKS document had no usable RSA keys'' else Inr keys))"

definition fetch_jwks ::
  "'key jwt_lib \<Rightarrow> (string \<Rightarrow> string + jwk list) \<Rightarrow> (nat \<Rightarrow> string \<Rightarrow> 'w \<Rightarrow> (string + string) \<times> 'w) \<Rightarrow> nat \<Rightarrow> string \<Rightarrow> 'w \<Rightarrow>
   (string + (string \<times> 'key) list) \<times> 'w" where
  "fetch_jwks lib read_doc http_get now url w =
     (case http_get now url w of
        (Inl e, w) \<Rightarrow> (Inl e, w)
      | (Inr doc, w) \<Rightarrow> (parse_jwks lib read_doc doc, w))"

definition jwks_key :: "'key jwks \<Rightarrow> string \<Rightarrow> 'key option" where
  "jwks_key j kid = map_of (jk_keys j) kid"

definition jwks_age :: "nat \<Rightarrow> 'key jwks \<Rightarrow> nat option" where
  "jwks_age now j = map_option (\<lambda>(_, at). now - at) (jk_source j)"

text \<open>Whether an attempt may be made now; making it stamps the time, whatever the fetch then answers.\<close>

definition refresh_attempt :: "'key jwks \<Rightarrow> nat \<Rightarrow> bool \<times> 'key jwks" where
  "refresh_attempt j now = (case jk_source j of
       None \<Rightarrow> (False, j)
     | Some (url, at) \<Rightarrow> if now - at < jwks_min_refresh then (False, j) else (True, j\<lparr>jk_source := Some (url, now)\<rparr>))"

text \<open>\<open>fetch\<close> is what the endpoint gives at a time, as keys or an error; \<open>under_way\<close> says another task holds the flight.
  A task that waits goes on once that fetch is over.\<close>

definition refresh ::
  "(nat \<Rightarrow> string \<Rightarrow> 'w \<Rightarrow> (string + (string \<times> 'key) list) \<times> 'w) \<Rightarrow> nat \<Rightarrow> bool \<Rightarrow> bool \<Rightarrow> 'w \<times> 'key jwks \<Rightarrow> 'w \<times> 'key jwks" where
  "refresh fetch now under_way wait = (\<lambda>(w, j).
     (case jk_source j of
        None \<Rightarrow> (w, j)
      | Some (url, _) \<Rightarrow>
          if under_way \<and> \<not> wait then (w, j)
          else (case refresh_attempt j now of
              (False, j) \<Rightarrow> (w, j)
            | (True, j) \<Rightarrow> (case fetch now url w of
                (Inr keys, w) \<Rightarrow> (w, j\<lparr>jk_keys := keys\<rparr>)
              | (Inl _, w) \<Rightarrow> (w, j)))))"

datatype 'key verifier = VSecret string | VPublicKey 'key | VJwks "'key jwks"

text \<open>The set after the refreshes its age and a token's \<open>kid\<close> ask for.\<close>

definition age_refresh ::
  "(nat \<Rightarrow> string \<Rightarrow> 'w \<Rightarrow> (string + (string \<times> 'key) list) \<times> 'w) \<Rightarrow> nat \<Rightarrow> bool \<Rightarrow> 'w \<times> 'key jwks \<Rightarrow> 'w \<times> 'key jwks" where
  "age_refresh fetch now under_way s = (case jwks_age now (snd s) of
       Some a \<Rightarrow> if jwks_max_age < a then refresh fetch now under_way False s else s
     | None \<Rightarrow> s)"

definition current_set ::
  "(nat \<Rightarrow> string \<Rightarrow> 'w \<Rightarrow> (string + (string \<times> 'key) list) \<times> 'w) \<Rightarrow> nat \<Rightarrow> bool \<Rightarrow> string \<Rightarrow> 'w \<times> 'key jwks \<Rightarrow> 'w \<times> 'key jwks" where
  "current_set fetch now under_way kid s =
     (let s = age_refresh fetch now under_way s in
      if jwks_key (snd s) kid = None then refresh fetch now under_way True s else s)"

definition token_claims ::
  "'key jwt_lib \<Rightarrow> (nat \<Rightarrow> string \<Rightarrow> 'w \<Rightarrow> (string + (string \<times> 'key) list) \<times> 'w) \<Rightarrow> nat \<Rightarrow> nat \<Rightarrow> bool \<Rightarrow> claim_checks \<Rightarrow> string \<Rightarrow>
   'w \<times> 'key verifier \<Rightarrow> (string + json) \<times> 'w \<times> 'key verifier" where
  "token_claims lib fetch now unix under_way checks tok = (\<lambda>(w, v).
     (let tok = trim tok in
      case v of
        VSecret secret \<Rightarrow> (verify_token lib unix tok HS256 (jl_from_secret lib secret) checks, w, v)
      | VPublicKey key \<Rightarrow> (verify_token lib unix tok RS256 key checks, w, v)
      | VJwks j \<Rightarrow> (case jl_kid lib tok of
          Inl e \<Rightarrow> (Inl (''unreadable JWT header: '' @ e), w, v)
        | Inr None \<Rightarrow> (Inl (''JWT has no '' @ [CHR 0x27] @ ''kid'' @ [CHR 0x27] @ ''; JWKS validation needs one''), w, v)
        | Inr (Some kid) \<Rightarrow> (case current_set fetch now under_way kid (w, j) of
            (w, j) \<Rightarrow> (case jwks_key j kid of
                None \<Rightarrow> (Inl (''no JWKS key for kid '' @ debug_str kid), w, VJwks j)
              | Some key \<Rightarrow> (verify_token lib unix tok RS256 key checks, w, VJwks j))))))"

definition claims_caller :: "string \<Rightarrow> string \<Rightarrow> json \<Rightarrow> caller" where
  "claims_caller scope_claim subject_claim claims =
     new_caller (extract_scopes claims scope_claim) (Option.bind (vget claims subject_claim) as_str)"

definition token_caller ::
  "'key jwt_lib \<Rightarrow> (nat \<Rightarrow> string \<Rightarrow> 'w \<Rightarrow> (string + (string \<times> 'key) list) \<times> 'w) \<Rightarrow> nat \<Rightarrow> nat \<Rightarrow> bool \<Rightarrow> claim_checks \<Rightarrow> string \<Rightarrow> string \<Rightarrow>
   string \<Rightarrow> 'w \<times> 'key verifier \<Rightarrow> (string + caller) \<times> 'w \<times> 'key verifier" where
  "token_caller lib fetch now unix under_way checks scope_claim subject_claim tok s =
     (case token_claims lib fetch now unix under_way checks tok s of
        (r, s) \<Rightarrow> (map_sum id (claims_caller scope_claim subject_claim) r, s))"

definition jwks_from_url ::
  "(nat \<Rightarrow> string \<Rightarrow> 'w \<Rightarrow> (string + (string \<times> 'key) list) \<times> 'w) \<Rightarrow> nat \<Rightarrow> string \<Rightarrow> 'w \<Rightarrow> (string + 'key verifier) \<times> 'w" where
  "jwks_from_url fetch now url w =
     (case fetch now url w of (r, w) \<Rightarrow> (map_sum id (\<lambda>keys. VJwks \<lparr>jk_keys = keys, jk_source = Some (url, now)\<rparr>) r, w))"

definition rs256_from_pem :: "'key jwt_lib \<Rightarrow> string \<Rightarrow> string + 'key verifier" where
  "rs256_from_pem lib pem =
     (case jl_from_pem lib pem of Inl e \<Rightarrow> Inl (''invalid RSA public key PEM: '' @ e) | Inr key \<Rightarrow> Inr (VPublicKey key))"

section \<open>Revocation\<close>

type_synonym verdicts = "(string, nat \<times> bool) store"

record introspector =
  in_url :: string
  in_client_id :: string
  in_client_secret :: string
  in_ttl_s :: nat
  in_fail_open :: bool

definition introspection_cache_max :: nat where
  "introspection_cache_max = 4096"

text \<open>\<open>sha\<close> is SHA-256.\<close>

definition token_key :: "(string \<Rightarrow> string) \<Rightarrow> string \<Rightarrow> string" where
  "token_key sha tok = concat (map (\<lambda>b. [hex_digit (byte b div 16), hex_digit (byte b mod 16)]) (take 16 (sha tok)))"

definition verdict_fresh :: "introspector \<Rightarrow> nat \<Rightarrow> nat \<Rightarrow> bool" where
  "verdict_fresh i now at \<longleftrightarrow> now - at < in_ttl_s i * 10 ^ 9"

definition cached_verdict :: "introspector \<Rightarrow> nat \<Rightarrow> string \<Rightarrow> verdicts \<Rightarrow> bool option" where
  "cached_verdict i now k m = (case map_of m k of
       Some (at, active) \<Rightarrow> if verdict_fresh i now at then Some active else None
     | None \<Rightarrow> None)"

definition put_verdict :: "introspector \<Rightarrow> string \<Rightarrow> nat \<times> bool \<Rightarrow> verdicts \<Rightarrow> verdicts" where
  "put_verdict i k v m =
     (let m = (if introspection_cache_max \<le> length m then
          (let m = filter (\<lambda>(_, at, _). verdict_fresh i (fst v) at) m in if introspection_cache_max \<le> length m then [] else m)
        else m)
      in alist_put k v m)"

definition remember :: "introspector \<Rightarrow> nat \<Rightarrow> nat \<Rightarrow> string \<Rightarrow> bool \<Rightarrow> nat option \<Rightarrow> verdicts \<Rightarrow> verdicts" where
  "remember i now unix k active expiry m =
     (if (case expiry of Some e \<Rightarrow> e \<le> unix | None \<Rightarrow> False) then m else put_verdict i k (now, active) m)"

text \<open>The endpoint's answer: no response, or a status with the body read as JSON.\<close>

datatype reply = NoReply string | Reply nat "string + json"

definition introspection_form :: "introspector \<Rightarrow> string \<Rightarrow> (string \<times> string) list" where
  "introspection_form i tok =
     [(''token'', tok), (''token_type_hint'', ''access_token''), (''client_id'', in_client_id i), (''client_secret'', in_client_secret i)]"

definition unreachable :: "introspector \<Rightarrow> string \<Rightarrow> string + bool" where
  "unreachable i why =
     (if in_fail_open i then Inr True else Inl (''token introspection failed ('' @ why @ '') and fail_open is off''))"

definition http_success :: "nat \<Rightarrow> bool" where
  "http_success status \<longleftrightarrow> 200 \<le> status \<and> status < 300"

definition reply_active :: "json \<Rightarrow> bool" where
  "reply_active body \<longleftrightarrow> Option.bind (vget body ''active'') as_bool = Some True"

text \<open>One request, at \<open>asked\<close>; the endpoint's answer comes in at \<open>now\<close>. \<open>status_text\<close> prints a status.\<close>

definition token_active ::
  "(string \<Rightarrow> string) \<Rightarrow> (nat \<Rightarrow> string) \<Rightarrow> introspector \<Rightarrow> string \<Rightarrow> nat option \<Rightarrow> nat \<Rightarrow> nat \<Rightarrow> nat \<Rightarrow> ((string \<times> string) list \<Rightarrow> reply) \<Rightarrow>
   verdicts \<Rightarrow> (string + bool) \<times> verdicts" where
  "token_active sha status_text i tok expiry asked now unix post m =
     (case cached_verdict i asked (token_key sha tok) m of
        Some hit \<Rightarrow> (Inr hit, m)
      | None \<Rightarrow> (case post (introspection_form i tok) of
          NoReply e \<Rightarrow> (unreachable i e, m)
        | Reply status body \<Rightarrow>
            if \<not> http_success status then (unreachable i (''HTTP '' @ status_text status), m)
            else (case body of
                Inl e \<Rightarrow> (unreachable i (''unreadable response: '' @ e), m)
              | Inr body \<Rightarrow> (Inr (reply_active body), remember i now unix (token_key sha tok) (reply_active body) expiry m))))"

section \<open>How often the key endpoint is asked\<close>

interpretation jwks_gate: attempt_gate refresh_attempt "\<lambda>j. map_option snd (jk_source j)" jwks_min_refresh
  by unfold_locales (auto simp: refresh_attempt_def jwks_min_refresh_def split: option.splits prod.splits if_splits)

fun token_run ::
  "'key jwt_lib \<Rightarrow> (nat \<Rightarrow> string \<Rightarrow> 'w \<Rightarrow> (string + (string \<times> 'key) list) \<times> 'w) \<Rightarrow> claim_checks \<Rightarrow> (nat \<times> nat \<times> bool \<times> string) list \<Rightarrow>
   'w \<times> 'key verifier \<Rightarrow> (string + json) list \<times> 'w \<times> 'key verifier" where
  "token_run lib fetch checks [] s = ([], s)"
| "token_run lib fetch checks ((now, unix, under_way, tok) # reqs) s =
     (case token_claims lib fetch now unix under_way checks tok s of
        (r, s) \<Rightarrow> (case token_run lib fetch checks reqs s of (rs, s) \<Rightarrow> (r # rs, s)))"

text \<open>An endpoint that records when it is asked, and answers anything.\<close>

definition logged :: "(nat \<Rightarrow> nat list \<Rightarrow> string + (string \<times> 'key) list) \<Rightarrow> nat \<Rightarrow> string \<Rightarrow> nat list \<Rightarrow> (string + (string \<times> 'key) list) \<times> nat list" where
  "logged answer now url asked = (answer now asked, asked @ [now])"

definition asked_spaced :: "nat list \<times> 'key jwks \<Rightarrow> bool" where
  "asked_spaced = (\<lambda>(asked, j). asked \<noteq> [] \<and> map_option snd (jk_source j) = Some (last asked) \<and> spaced jwks_min_refresh asked)"

lemma spaced_snoc: "spaced gap (ts @ [t]) \<longleftrightarrow> spaced gap ts \<and> (ts = [] \<or> last ts + gap \<le> t)"
  by (induction gap ts rule: spaced.induct) auto

lemma refresh_spaced: "asked_spaced s \<Longrightarrow> asked_spaced (refresh (logged answer) now under_way wait s)"
  by (cases s) (auto simp: asked_spaced_def refresh_def logged_def spaced_snoc split: option.splits prod.splits bool.splits sum.splits
      dest: jwks_gate.passes_late jwks_gate.passes_stamp jwks_gate.refuses_keep)

lemma current_set_spaced: "asked_spaced s \<Longrightarrow> asked_spaced (current_set (logged answer) now under_way kid s)"
  by (auto simp: current_set_def age_refresh_def Let_def intro!: refresh_spaced split: option.splits)

definition log_spaced :: "nat list \<times> 'key verifier \<Rightarrow> bool" where
  "log_spaced = (\<lambda>(asked, v). case v of VJwks j \<Rightarrow> asked_spaced (asked, j) | _ \<Rightarrow> spaced jwks_min_refresh asked)"

lemma claims_spaced: "log_spaced s \<Longrightarrow> log_spaced (snd (token_claims lib (logged answer) now unix under_way checks tok s))"
proof (cases s)
  case (Pair asked v)
  assume ok: "log_spaced s"
  show ?thesis
  proof (cases v)
    case (VJwks j)
    have "asked_spaced (current_set (logged answer) now under_way kid (asked, j))" for kid
      using ok by (intro current_set_spaced) (simp add: log_spaced_def Pair VJwks)
    with ok show ?thesis
      by (auto simp: token_claims_def Let_def log_spaced_def Pair VJwks split: sum.splits option.splits prod.splits)
        (metis case_prodD)+
  qed (use ok in \<open>auto simp: token_claims_def Let_def log_spaced_def Pair\<close>)
qed

lemma token_run_spaced: "log_spaced s \<Longrightarrow> log_spaced (snd (token_run lib (logged answer) checks reqs s))"
proof (induction reqs arbitrary: s)
  case (Cons req reqs)
  obtain now unix under_way tok where req: "req = (now, unix, under_way, tok)" by (cases req)
  from Cons.IH [OF claims_spaced [OF Cons.prems, of lib answer now unix under_way checks tok]]
  show ?case by (simp add: req split_beta)
qed simp

text \<open>Whatever tokens arrive, with whatever key ids and answers, the key endpoint is asked at most once a minute from the
  first fetch on.\<close>

theorem jwks_fetches_spaced:
  "case jwks_from_url (logged answer) start url [] of
     (Inr v, asked) \<Rightarrow> spaced jwks_min_refresh (fst (snd (token_run lib (logged answer) checks reqs (asked, v))))
   | (Inl _, asked) \<Rightarrow> asked = [start]"
proof -
  have start: "log_spaced ([start], VJwks \<lparr>jk_keys = keys, jk_source = Some (url, start)\<rparr>)" for keys :: "(string \<times> 'b) list"
    by (simp add: log_spaced_def asked_spaced_def)
  have "spaced jwks_min_refresh (fst s)" if "log_spaced s" for s :: "nat list \<times> 'b verifier"
    using that by (cases s) (auto simp: log_spaced_def asked_spaced_def split: verifier.splits)
  note this [OF token_run_spaced [OF start]]
  then show ?thesis
    by (cases "answer start []") (simp_all add: jwks_from_url_def logged_def)
qed

section \<open>What an accepted token is\<close>

text \<open>What the JWT library documents of \<open>decode\<close>: claims it returns are signed under the key with the algorithm, name
  every required claim, are not expired (a minute of leeway), and name an expected audience or issuer if they name any.\<close>

definition aud_values :: "json \<Rightarrow> string list" where
  "aud_values v = (case v of JStr a \<Rightarrow> [a] | JArr l \<Rightarrow> List.map_filter as_str l | _ \<Rightarrow> [])"

definition names_one :: "string list \<Rightarrow> json option \<Rightarrow> bool" where
  "names_one expected v \<longleftrightarrow> (case v of None \<Rightarrow> True | Some v \<Rightarrow> \<exists>a \<in> set (aud_values v). a \<in> set expected)"

definition decode_sound :: "'key jwt_lib \<Rightarrow> (string \<Rightarrow> algorithm \<Rightarrow> 'key \<Rightarrow> json \<Rightarrow> bool) \<Rightarrow> bool" where
  "decode_sound lib signed \<longleftrightarrow> (\<forall>unix tok key va claims. jl_decode lib unix tok key va = Inr claims \<longrightarrow>
     signed tok (va_algorithm va) key claims \<and>
     (\<forall>r \<in> set (va_required va). vget claims r \<noteq> None) \<and>
     (\<forall>e. Option.bind (vget claims ''exp'') as_u64 = Some e \<longrightarrow> unix \<le> e + 60) \<and>
     (\<forall>auds. va_validate_aud va \<and> va_aud va = Some auds \<longrightarrow> names_one auds (vget claims ''aud'')) \<and>
     (\<forall>isss. va_iss va = Some isss \<longrightarrow> names_one isss (vget claims ''iss'')))"

definition claims_ok :: "claim_checks \<Rightarrow> nat \<Rightarrow> json \<Rightarrow> bool" where
  "claims_ok checks unix claims \<longleftrightarrow>
     vget claims ''exp'' \<noteq> None \<and> (\<forall>e. Option.bind (vget claims ''exp'') as_u64 = Some e \<longrightarrow> unix \<le> e + 60) \<and>
     (\<forall>aud. cc_audience checks = Some aud \<longrightarrow> (\<exists>v. vget claims ''aud'' = Some v \<and> aud \<in> set (aud_values v))) \<and>
     (\<forall>iss. cc_issuer checks = Some iss \<longrightarrow> (\<exists>v. vget claims ''iss'' = Some v \<and> iss \<in> set (aud_values v)))"

text \<open>The keys a token with a header may be verified under.\<close>

fun trusted_key :: "'key jwt_lib \<Rightarrow> 'key verifier \<Rightarrow> string \<Rightarrow> algorithm \<Rightarrow> 'key \<Rightarrow> bool" where
  "trusted_key lib (VSecret secret) tok alg key \<longleftrightarrow> alg = HS256 \<and> key = jl_from_secret lib secret"
| "trusted_key lib (VPublicKey k) tok alg key \<longleftrightarrow> alg = RS256 \<and> key = k"
| "trusted_key lib (VJwks j) tok alg key \<longleftrightarrow> alg = RS256 \<and> (\<exists>kid. jl_kid lib tok = Inr (Some kid) \<and> jwks_key j kid = Some key)"

lemma verify_token_sound:
  assumes "decode_sound lib signed" "verify_token lib unix tok alg key checks = Inr claims"
  shows "signed tok alg key claims \<and> claims_ok checks unix claims"
proof -
  let ?va = "validation_for alg checks"
  have d: "jl_decode lib unix tok key ?va = Inr claims"
    using assms(2) by (simp add: verify_token_def split: sum.splits)
  have va: "va_algorithm ?va = alg" "''exp'' \<in> set (va_required ?va)"
    by (auto simp: validation_for_def new_validation_def Let_def split: option.splits)
  have aud: "\<And>aud. cc_audience checks = Some aud \<Longrightarrow> va_validate_aud ?va \<and> va_aud ?va = Some [aud] \<and> ''aud'' \<in> set (va_required ?va)"
    by (auto simp: validation_for_def new_validation_def Let_def split: option.splits)
  have iss: "\<And>iss. cc_issuer checks = Some iss \<Longrightarrow> va_iss ?va = Some [iss] \<and> ''iss'' \<in> set (va_required ?va)"
    by (auto simp: validation_for_def new_validation_def Let_def split: option.splits)
  from assms(1) d have lib: "signed tok (va_algorithm ?va) key claims" "\<forall>r \<in> set (va_required ?va). vget claims r \<noteq> None"
    "\<forall>e. Option.bind (vget claims ''exp'') as_u64 = Some e \<longrightarrow> unix \<le> e + 60"
    "\<forall>auds. va_validate_aud ?va \<and> va_aud ?va = Some auds \<longrightarrow> names_one auds (vget claims ''aud'')"
    "\<forall>isss. va_iss ?va = Some isss \<longrightarrow> names_one isss (vget claims ''iss'')"
    unfolding decode_sound_def by blast+
  have "\<exists>v. vget claims ''aud'' = Some v \<and> a \<in> set (aud_values v)" if "cc_audience checks = Some a" for a
    using aud [OF that] lib(2,4) by (fastforce simp: names_one_def split: option.splits)
  moreover have "\<exists>v. vget claims ''iss'' = Some v \<and> a \<in> set (aud_values v)" if "cc_issuer checks = Some a" for a
    using iss [OF that] lib(2,5) by (fastforce simp: names_one_def split: option.splits)
  ultimately show ?thesis
    using lib(1-3) va by (simp add: claims_ok_def)
qed

text \<open>A token is accepted only if it is signed, with the algorithm of the configured verifier, under a key held for it
  at that moment, has not expired, and names the configured audience and issuer; leaving a claim out does not help.\<close>

lemma token_accepted_sound:
  assumes sound: "decode_sound lib signed"
    and run: "token_claims lib fetch now unix under_way checks tok (w, v) = (Inr claims, w', v')"
  shows "claims_ok checks unix claims \<and> (\<exists>alg key. trusted_key lib v' (trim tok) alg key \<and> signed (trim tok) alg key claims)"
proof (cases v)
  case (VJwks j)
  with run obtain kid where kid: "jl_kid lib (trim tok) = Inr (Some kid)"
    by (auto simp: token_claims_def Let_def split: sum.splits option.splits)
  obtain w1 j1 where j1: "current_set fetch now under_way kid (w, j) = (w1, j1)"
    by (metis prod.exhaust)
  with run VJwks kid obtain key where "jwks_key j1 kid = Some key" "v' = VJwks j1"
      "verify_token lib unix (trim tok) RS256 key checks = Inr claims"
    by (auto simp: token_claims_def Let_def split: option.splits)
  with kid verify_token_sound [OF sound] show ?thesis by fastforce
qed (use run verify_token_sound [OF sound] in \<open>fastforce simp: token_claims_def Let_def\<close>)+

definition toy_claims :: json where
  "toy_claims = JObj [(''exp'', jnat 100), (''aud'', JStr ''mcp'')]"

definition toy_jwt :: "string jwt_lib" where
  "toy_jwt = \<lparr>jl_decode = (\<lambda>unix tok key va.
       if tok = key \<and> va_algorithm va = RS256 \<and> set (va_required va) \<subseteq> {''exp'', ''aud''} \<and> unix \<le> 160 \<and>
         (va_validate_aud va \<longrightarrow> (\<forall>auds. va_aud va = Some auds \<longrightarrow> ''mcp'' \<in> set auds))
       then Inr toy_claims else Inl ''InvalidToken''),
     jl_kid = (\<lambda>_. Inr (Some ''k1'')), jl_from_secret = (\<lambda>s. s), jl_from_pem = Inr, jl_from_components = (\<lambda>n e. Inr n)\<rparr>"

lemma toy_decode_sound: "decode_sound toy_jwt (\<lambda>tok alg key claims. tok = key \<and> alg = RS256)"
  by (auto simp: decode_sound_def toy_jwt_def toy_claims_def names_one_def aud_values_def vget_def jget_def split: if_splits)

section \<open>Verdicts on revocation\<close>

interpretation verdict_store: bounded_store "put_verdict i" introspection_cache_max for i
proof
  fix m :: verdicts and k j :: string and v w :: "nat \<times> bool"
  assume d: "distinct (map fst m)"
  have f: "distinct (map fst (filter P m))" for P using d by (rule distinct_filter_keys)
  show "distinct (map fst (put_verdict i k v m))"
    using d f by (simp add: put_verdict_def Let_def)
  show "length (put_verdict i k v m) \<le> introspection_cache_max" if "length m \<le> introspection_cache_max"
    using that by (auto simp: put_verdict_def Let_def length_alist_put introspection_cache_max_def)
  show "(j = k \<and> w = v) \<or> map_of m j = Some w" if "map_of (put_verdict i k v m) j = Some w"
    using that d by (auto simp: put_verdict_def Let_def map_of_filter_distinct split: if_splits option.splits)
qed

record visit =
  vi_token :: string
  vi_expiry :: "nat option"
  vi_asked :: nat
  vi_now :: nat
  vi_unix :: nat
  vi_post :: "(string \<times> string) list \<Rightarrow> reply"

definition visit_active :: "(string \<Rightarrow> string) \<Rightarrow> (nat \<Rightarrow> string) \<Rightarrow> introspector \<Rightarrow> visit \<Rightarrow> verdicts \<Rightarrow> (string + bool) \<times> verdicts" where
  "visit_active sha status_text i v =
     token_active sha status_text i (vi_token v) (vi_expiry v) (vi_asked v) (vi_now v) (vi_unix v) (vi_post v)"

definition verdict_run :: "(string \<Rightarrow> string) \<Rightarrow> (nat \<Rightarrow> string) \<Rightarrow> introspector \<Rightarrow> visit list \<Rightarrow> verdicts" where
  "verdict_run sha status_text i vs = fold (\<lambda>v m. snd (visit_active sha status_text i v m)) vs []"

text \<open>The endpoint's verdict on a visit's token, when it gives one.\<close>

definition endpoint_verdict :: "introspector \<Rightarrow> visit \<Rightarrow> bool option" where
  "endpoint_verdict i v = (case vi_post v (introspection_form i (vi_token v)) of
       Reply status (Inr body) \<Rightarrow> if http_success status then Some (reply_active body) else None
     | _ \<Rightarrow> None)"

lemma visit_state:
  "snd (visit_active sha st i v m) =
     (case cached_verdict i (vi_asked v) (token_key sha (vi_token v)) m of
        Some _ \<Rightarrow> m
      | None \<Rightarrow> (case endpoint_verdict i v of
          Some active \<Rightarrow> remember i (vi_now v) (vi_unix v) (token_key sha (vi_token v)) active (vi_expiry v) m
        | None \<Rightarrow> m))"
  by (auto simp: visit_active_def token_active_def endpoint_verdict_def split: option.splits reply.splits sum.splits)

lemma kept_or_put:
  "snd (visit_active sha st i v m) = m \<or> (\<exists>active. endpoint_verdict i v = Some active \<and>
     snd (visit_active sha st i v m) = put_verdict i (token_key sha (vi_token v)) (vi_now v, active) m)"
  by (simp add: visit_state remember_def split: option.split)

lemma visit_answer:
  "fst (visit_active sha st i v m) = Inr b \<Longrightarrow>
     (case cached_verdict i (vi_asked v) (token_key sha (vi_token v)) m of
        Some hit \<Rightarrow> b = hit
      | None \<Rightarrow> (case endpoint_verdict i v of Some active \<Rightarrow> b = active | None \<Rightarrow> in_fail_open i \<and> b))"
  by (auto simp: visit_active_def token_active_def endpoint_verdict_def unreachable_def
      split: option.splits reply.splits sum.splits if_splits)

lemma verdict_run_snoc: "verdict_run sha st i (vs @ [v]) = snd (visit_active sha st i v (verdict_run sha st i vs))"
  by (simp add: verdict_run_def)

lemma remembered_genuine:
  "distinct (map fst (verdict_run sha st i vs)) \<and> length (verdict_run sha st i vs) \<le> introspection_cache_max \<and>
   (\<forall>k at active. map_of (verdict_run sha st i vs) k = Some (at, active) \<longrightarrow>
     (\<exists>v \<in> set vs. token_key sha (vi_token v) = k \<and> vi_now v = at \<and> endpoint_verdict i v = Some active))"
proof (induction vs rule: rev_induct)
  case Nil
  then show ?case by (simp add: verdict_run_def)
next
  case (snoc v vs)
  let ?m = "verdict_run sha st i vs"
  consider (kept) "verdict_run sha st i (vs @ [v]) = ?m"
    | (put) active where "endpoint_verdict i v = Some active"
        "verdict_run sha st i (vs @ [v]) = put_verdict i (token_key sha (vi_token v)) (vi_now v, active) ?m"
    using kept_or_put unfolding verdict_run_snoc by metis
  then show ?case
  proof cases
    case kept
    with snoc show ?thesis by (metis UnCI set_append)
  next
    case put
    have d: "distinct (map fst ?m)" and bound: "length ?m \<le> introspection_cache_max" using snoc by blast+
    have "\<exists>u \<in> set (vs @ [v]). token_key sha (vi_token u) = k \<and> vi_now u = at \<and> endpoint_verdict i u = Some b"
      if "map_of (verdict_run sha st i (vs @ [v])) k = Some (at, b)" for k at b
      using verdict_store.put_other [OF d that [unfolded put(2)]]
    proof
      assume "map_of ?m k = Some (at, b)"
      with snoc show ?thesis by (metis UnCI set_append)
    qed (use put(1) in auto)
    with put(2) verdict_store.put_distinct [OF d] verdict_store.put_bound [OF d bound] show ?thesis
      by metis
  qed
qed


definition toy_introspector :: introspector where
  "toy_introspector = \<lparr>in_url = ''u'', in_client_id = ''c'', in_client_secret = ''s'', in_ttl_s = 60, in_fail_open = False\<rparr>"

text \<open>The token expires at 100; the endpoint calls it active at 99.\<close>

definition toy_visit :: visit where
  "toy_visit = \<lparr>vi_token = ''tok'', vi_expiry = Some 100, vi_asked = 0, vi_now = 1, vi_unix = 99,
     vi_post = (\<lambda>_. Reply 200 (Inr (JObj [(''active'', JBool True)])))\<rparr>"

definition later_visit :: visit where
  "later_visit = toy_visit\<lparr>vi_asked := 30 * 10 ^ 9, vi_unix := 129, vi_post := (\<lambda>_. NoReply ''down'')\<rparr>"

lemma toy_verdicts:
  "verdict_run (\<lambda>s. s) show_nat toy_introspector [toy_visit] = [(token_key (\<lambda>s. s) ''tok'', 1, True)]"
  by (simp add: verdict_run_def visit_state cached_verdict_def endpoint_verdict_def toy_visit_def http_success_def reply_active_def vget_def
      jget_def remember_def put_verdict_def introspection_cache_max_def)

text \<open>The check on the expiry is made when a endpoint_verdict is stored, not when it is used: at 129 the token is still called live.\<close>

lemma verdict_outlives_token:
  "visit_active (\<lambda>s. s) show_nat toy_introspector later_visit (verdict_run (\<lambda>s. s) show_nat toy_introspector [toy_visit]) =
     (Inr True, [(token_key (\<lambda>s. s) ''tok'', 1, True)])"
  unfolding toy_verdicts
  by (simp add: visit_active_def token_active_def cached_verdict_def verdict_fresh_def later_visit_def toy_visit_def
      toy_introspector_def)


end
