(* ===== verification/Identity.thy ===== *)
theory Identity
  imports Auth
begin

text \<open>
  How a request over HTTP gets its caller (\<open>src/src/rmcp_serve.rs\<close>): identity from the \<open>auth\<close> section, the resource
  metadata, the bearer, gateway and fallback rules, the guard in front of the service with the rules on binding, and
  what a handler takes as its caller. A header map has lower-case names; \<open>parse_url\<close> gives a URL's origin and path.
\<close>

section \<open>Headers\<close>

type_synonym headers = "(string \<times> string) list"

definition header_get :: "headers \<Rightarrow> string \<Rightarrow> string option" where
  "header_get hs name = map_of hs (to_ascii_lowercase name)"

text \<open>\<open>HeaderValue::to_str\<close>: visible ASCII and tabs.\<close>

definition header_text :: "string \<Rightarrow> string option" where
  "header_text v = (if list_all (\<lambda>c. byte c = 9 \<or> (32 \<le> byte c \<and> byte c < 127)) v then Some v else None)"

definition bearer_of :: "headers \<Rightarrow> string option" where
  "bearer_of hs =
     (case Option.bind (Option.bind (header_get hs ''authorization'') header_text) (\<lambda>v. split_once (CHR '' '') (trim v)) of
        Some (scheme, tok) \<Rightarrow> if eq_ignore_ascii_case scheme ''bearer'' then Some (trim tok) else None
      | None \<Rightarrow> None)"

section \<open>Resource metadata\<close>

record resource_metadata =
  rm_doc :: string
  rm_url :: string
  rm_paths :: "string list"

definition well_known :: string where
  "well_known = ''/.well-known/oauth-protected-resource''"

definition trim_end_slashes :: "string \<Rightarrow> string" where
  "trim_end_slashes s = rev (dropWhile (\<lambda>c. c = CHR ''/'') (rev s))"

definition new_metadata :: "(json \<Rightarrow> string) \<Rightarrow> (string \<Rightarrow> (string \<times> string) option) \<Rightarrow> protected_resource \<Rightarrow> resource_metadata" where
  "new_metadata ser parse_url pr =
     (let doc = JObj ([(''resource'', JStr (pr_resource pr)),
            (''authorization_servers'', JArr (map JStr (pr_authorization_servers pr))),
            (''bearer_methods_supported'', JArr [JStr ''header''])] @
            (if pr_scopes_supported pr \<noteq> [] then [(''scopes_supported'', JArr (map JStr (pr_scopes_supported pr)))] else []));
          (origin, raw_path) = (case parse_url (pr_resource pr) of Some u \<Rightarrow> u | None \<Rightarrow> ([], []));
          path = trim_end_slashes raw_path;
          inserted = well_known @ path
      in \<lparr>rm_doc = ser doc, rm_url = origin @ inserted,
          rm_paths = [inserted] @
            (if 1 < length raw_path \<and> ends_with ''/'' raw_path then [well_known @ raw_path] else []) @
            (if path \<noteq> [] then [well_known] else [])\<rparr>)"

definition metadata_serves :: "resource_metadata \<Rightarrow> string \<Rightarrow> bool" where
  "metadata_serves m path \<longleftrightarrow> path \<in> set (rm_paths m)"

section \<open>Who a request is\<close>

record http_identity =
  hi_verified :: bool
  hi_introspector :: "introspector option"
  hi_checks :: claim_checks
  hi_scope_claim :: string
  hi_subject_claim :: string
  hi_trusted :: "trusted_headers option"
  hi_allow_anonymous :: bool
  hi_metadata :: "resource_metadata option"

text \<open>The verifier itself is part of the state; \<open>verified\<close> says whether there is one.\<close>

definition from_auth ::
  "(json \<Rightarrow> string) \<Rightarrow> (string \<Rightarrow> (string \<times> string) option) \<Rightarrow> auth \<Rightarrow> bool \<Rightarrow> introspector option \<Rightarrow> http_identity" where
  "from_auth ser parse_url a verified introspector =
     \<lparr>hi_verified = verified, hi_introspector = introspector,
      hi_checks = \<lparr>cc_audience = (case au_audience a of Some aud \<Rightarrow> Some aud | None \<Rightarrow> map_option pr_resource (au_protected_resource a)),
        cc_issuer = au_issuer a\<rparr>,
      hi_scope_claim = au_scope_claim a, hi_subject_claim = au_subject_claim a, hi_trusted = au_trusted_headers a,
      hi_allow_anonymous = au_allow_anonymous a,
      hi_metadata = map_option (new_metadata ser parse_url) (au_protected_resource a)\<rparr>"

record refusal =
  rf_challenge :: string
  rf_reason :: string

definition challenge :: "http_identity \<Rightarrow> string option \<Rightarrow> string" where
  "challenge hi err =
     (let parts = (case err of Some e \<Rightarrow> [''error='' @ [CHR 0x22] @ e @ [CHR 0x22]] | None \<Rightarrow> []) @
            (case hi_metadata hi of Some m \<Rightarrow> [''resource_metadata='' @ [CHR 0x22] @ rm_url m @ [CHR 0x22]] | None \<Rightarrow> [])
      in if parts = [] then ''Bearer'' else ''Bearer '' @ join_with '', '' parts)"

definition metadata_for :: "http_identity \<Rightarrow> string \<Rightarrow> string \<Rightarrow> string option" where
  "metadata_for hi meth path = (case hi_metadata hi of
       Some m \<Rightarrow> if meth = ''GET'' \<and> metadata_serves m path then Some (rm_doc m) else None
     | None \<Rightarrow> None)"

definition identity_required :: "http_identity \<Rightarrow> bool" where
  "identity_required hi \<longleftrightarrow> hi_verified hi \<or> hi_trusted hi \<noteq> None"

definition identity_enforced :: "http_identity \<Rightarrow> bool" where
  "identity_enforced hi \<longleftrightarrow> identity_required hi \<and> \<not> hi_allow_anonymous hi"

text \<open>What surrounds one request: the libraries, the endpoints and the clocks.\<close>

record ('key, 'w) moment =
  mo_jwt :: "'key jwt_lib"
  mo_fetch :: "nat \<Rightarrow> string \<Rightarrow> 'w \<Rightarrow> (string + (string \<times> 'key) list) \<times> 'w"
  mo_now :: nat
  mo_unix :: nat
  mo_under_way :: bool
  mo_sha :: "string \<Rightarrow> string"
  mo_status_text :: "nat \<Rightarrow> string"
  mo_asked :: nat
  mo_answered :: nat
  mo_answer_unix :: nat
  mo_post :: "(string \<times> string) list \<Rightarrow> reply"

record ('key, 'w) auth_state =
  as_world :: 'w
  as_verifier :: "'key verifier"
  as_verdicts :: verdicts

text \<open>Whether a token with these claims was revoked; without an introspector nothing is asked.\<close>

definition revocation :: "('key, 'w) moment \<Rightarrow> http_identity \<Rightarrow> string \<Rightarrow> json \<Rightarrow> verdicts \<Rightarrow> (string + bool) \<times> verdicts" where
  "revocation mo hi tok claims m = (case hi_introspector hi of
       None \<Rightarrow> (Inr True, m)
     | Some i \<Rightarrow> token_active (mo_sha mo) (mo_status_text mo) i tok (Option.bind (vget claims ''exp'') as_u64)
         (mo_asked mo) (mo_answered mo) (mo_answer_unix mo) (mo_post mo) m)"

definition bearer_caller ::
  "('key, 'w) moment \<Rightarrow> http_identity \<Rightarrow> string \<Rightarrow> ('key, 'w) auth_state \<Rightarrow> (refusal + caller) \<times> ('key, 'w) auth_state" where
  "bearer_caller mo hi tok s =
     (case token_claims (mo_jwt mo) (mo_fetch mo) (mo_now mo) (mo_unix mo) (mo_under_way mo) (hi_checks hi) tok (as_world s, as_verifier s) of
        (r, w, v) \<Rightarrow>
          (let s = s\<lparr>as_world := w, as_verifier := v\<rparr> in
           case r of
             Inl e \<Rightarrow> (Inl \<lparr>rf_challenge = challenge hi (Some ''invalid_token''), rf_reason = ''invalid bearer token: '' @ e\<rparr>, s)
           | Inr claims \<Rightarrow>
               (case revocation mo hi tok claims (as_verdicts s) of
                  (live, m) \<Rightarrow>
                    (let s = s\<lparr>as_verdicts := m\<rparr> in
                     case live of
                       Inr True \<Rightarrow> (Inr (claims_caller (hi_scope_claim hi) (hi_subject_claim hi) claims), s)
                     | Inr False \<Rightarrow> (Inl \<lparr>rf_challenge = challenge hi (Some ''invalid_token''),
                         rf_reason = ''bearer token has been revoked''\<rparr>, s)
                     | Inl e \<Rightarrow> (Inl \<lparr>rf_challenge = challenge hi (Some ''temporarily_unavailable''),
                         rf_reason = ''could not verify token status: '' @ e\<rparr>, s)))))"

fun split_scopes :: "string \<Rightarrow> string list \<Rightarrow> string list" where
  "split_scopes cur [] = (if cur = [] then [] else [cur])"
| "split_scopes cur (c # cs) =
     (if c = '','' \<or> is_whitespace c then (if cur = [] then split_scopes [] cs else cur # split_scopes [] cs)
      else split_scopes (cur @ c) cs)"

definition gateway_caller :: "trusted_headers \<Rightarrow> headers \<Rightarrow> caller option" where
  "gateway_caller t hs =
     (case Option.bind (header_get hs (th_scopes t)) header_text of
        None \<Rightarrow> None
      | Some raw \<Rightarrow> Some (new_caller (split_scopes [] (utf8_chars raw))
          (case Option.bind (Option.bind (Option.bind (th_subject t) (header_get hs)) header_text) (\<lambda>v. Some (trim v)) of
             Some s \<Rightarrow> if s \<noteq> [] then Some s else None | None \<Rightarrow> None)))"

definition authenticate ::
  "('key, 'w) moment \<Rightarrow> http_identity \<Rightarrow> headers \<Rightarrow> caller \<Rightarrow> ('key, 'w) auth_state \<Rightarrow> (refusal + caller) \<times> ('key, 'w) auth_state" where
  "authenticate mo hi hs process s =
     (case (bearer_of hs, hi_verified hi) of
        (Some tok, True) \<Rightarrow> bearer_caller mo hi tok s
      | _ \<Rightarrow> (case Option.bind (hi_trusted hi) (\<lambda>t. gateway_caller t hs) of
          Some c \<Rightarrow> (Inr c, s)
        | None \<Rightarrow>
            if \<not> identity_required hi \<or> hi_allow_anonymous hi then (Inr process, s)
            else (Inl \<lparr>rf_challenge = challenge hi None,
              rf_reason = ''unauthorized: this server requires an Authorization: Bearer token (or identity headers from the configured gateway)''\<rparr>, s)))"

section \<open>The guard\<close>

definition may_serve :: "bool \<Rightarrow> bool \<Rightarrow> http_identity \<Rightarrow> bool \<Rightarrow> bool" where
  "may_serve loopback allow_remote hi mutual_tls \<longleftrightarrow> \<not> (\<not> loopback \<and> \<not> allow_remote \<and> \<not> identity_enforced hi \<and> \<not> mutual_tls)"

definition loopback_origins :: "string list" where
  "loopback_origins =
     [''null'', ''http://localhost'', ''https://localhost'', ''http://localhost.'', ''https://localhost.'', ''http://127.0.0.1'',
      ''https://127.0.0.1'', ''http://[::1]'', ''https://[::1]'', ''http://[0:0:0:0:0:0:0:1]'', ''https://[0:0:0:0:0:0:0:1]'']"

text \<open>The settings the transport is given: whether it checks the host, the origins it allows (none listed: all), the body cap.\<close>

record transport =
  tr_check_host :: bool
  tr_origins :: "string list"
  tr_max_body :: nat

definition transport_for :: "bool \<Rightarrow> http_identity \<Rightarrow> http_limits \<Rightarrow> transport" where
  "transport_for loopback hi limits =
     (let check_origin = \<not> (\<not> loopback \<and> identity_enforced hi) in
      \<lparr>tr_check_host = loopback, tr_origins = (if check_origin then loopback_origins else []), tr_max_body = hl_max_body_bytes limits\<rparr>)"

text \<open>What the connection knows of its client: a certificate's fingerprint, else the peer's address.\<close>

definition client_fingerprint :: "(string \<Rightarrow> string) \<Rightarrow> string list \<Rightarrow> string option" where
  "client_fingerprint sha certs = (case certs of [] \<Rightarrow> None | leaf # _ \<Rightarrow> Some (''cert:'' @ token_key sha leaf))"

definition connection_origin :: "(string \<Rightarrow> string) \<Rightarrow> string list option \<Rightarrow> string \<Rightarrow> string" where
  "connection_origin sha tls_certs peer_ip = (case Option.bind tls_certs (client_fingerprint sha) of
       Some who \<Rightarrow> who | None \<Rightarrow> ''peer:'' @ peer_ip)"

datatype guarded = Document string | Unauthorized string string | Passed caller

definition guard_request ::
  "('key, 'w) moment \<Rightarrow> http_identity \<Rightarrow> caller \<Rightarrow> string option \<Rightarrow> string \<Rightarrow> string \<Rightarrow> headers \<Rightarrow> ('key, 'w) auth_state \<Rightarrow>
   guarded \<times> ('key, 'w) auth_state" where
  "guard_request mo hi process origin meth path hs s =
     (case metadata_for hi meth path of
        Some doc \<Rightarrow> (Document doc, s)
      | None \<Rightarrow> (case authenticate mo hi hs process s of
          (Inl r, s) \<Rightarrow> (Unauthorized (rf_challenge r) (rf_reason r), s)
        | (Inr c, s) \<Rightarrow> (Passed (if ca_subject c = None then with_origin origin c else c), s)))"

text \<open>The caller a handler serves: the one attached to the request, else the process, unless identity is enforced.\<close>

definition handler_caller :: "bool \<Rightarrow> caller \<Rightarrow> caller option \<Rightarrow> string + caller" where
  "handler_caller enforced process attached = (case attached of
       Some c \<Rightarrow> Inr c
     | None \<Rightarrow> if enforced then Inl ''unauthenticated: this request carried no caller identity'' else Inr process)"

section \<open>Who gets in\<close>

text \<open>A bearer identifies a caller when its claims are verified and the revocation check passes it.\<close>

definition bearer_identifies :: "('key, 'w) moment \<Rightarrow> http_identity \<Rightarrow> string \<Rightarrow> ('key, 'w) auth_state \<Rightarrow> json \<Rightarrow> bool" where
  "bearer_identifies mo hi tok s claims \<longleftrightarrow>
     fst (token_claims (mo_jwt mo) (mo_fetch mo) (mo_now mo) (mo_unix mo) (mo_under_way mo) (hi_checks hi) tok
       (as_world s, as_verifier s)) = Inr claims \<and>
     fst (revocation mo hi tok claims (as_verdicts s)) = Inr True"

lemma bearer_caller_iff:
  "fst (bearer_caller mo hi tok s) = Inr c \<longleftrightarrow>
   (\<exists>claims. bearer_identifies mo hi tok s claims \<and> c = claims_caller (hi_scope_claim hi) (hi_subject_claim hi) claims)"
  by (auto simp: bearer_caller_def bearer_identifies_def Let_def split: prod.splits sum.splits bool.splits)

lemma authenticate_cases:
  assumes "authenticate mo hi hs process s = (Inr c, s')"
  obtains (bearer) tok claims where "bearer_of hs = Some tok" "hi_verified hi" "bearer_identifies mo hi tok s claims"
      "c = claims_caller (hi_scope_claim hi) (hi_subject_claim hi) claims"
    | (gateway) t where "\<not> (hi_verified hi \<and> bearer_of hs \<noteq> None)" "hi_trusted hi = Some t" "gateway_caller t hs = Some c"
    | (process) "\<not> (hi_verified hi \<and> bearer_of hs \<noteq> None)" "\<not> identity_enforced hi" "c = process"
proof (cases "hi_verified hi \<and> bearer_of hs \<noteq> None")
  case True
  then obtain tok where tok: "bearer_of hs = Some tok" "hi_verified hi" by auto
  then have "fst (bearer_caller mo hi tok s) = Inr c"
    using assms by (simp add: authenticate_def)
  with tok bearer show ?thesis by (auto simp: bearer_caller_iff)
next
  case False
  show ?thesis
  proof (cases "Option.bind (hi_trusted hi) (\<lambda>t. gateway_caller t hs)")
    case None
    with False assms have "(\<not> identity_required hi \<or> hi_allow_anonymous hi) \<and> c = process"
      by (cases "\<not> identity_required hi \<or> hi_allow_anonymous hi"; cases "bearer_of hs"; cases "hi_verified hi")
        (simp_all add: authenticate_def)
    with False process show ?thesis by (auto simp: identity_enforced_def)
  next
    case (Some d)
    with False assms have "c = d"
      by (cases "bearer_of hs"; cases "hi_verified hi") (simp_all add: authenticate_def)
    with False Some gateway show ?thesis by (auto simp: bind_eq_Some_conv)
  qed
qed

text \<open>C6: A server that may be reached from other hosts, without \<open>--allow-remote\<close> and without client certificates, never serves
  a request as the process: whoever gets past the guard brought an unexpired token signed under a trusted key for the
  configured audience and issuer and not revoked, or, without a bearer to verify, the gateway's scope header; the scopes
  are the ones named there.\<close>

theorem remote_requests_identified:
  assumes serve: "may_serve False False hi False"
    and passed: "guard_request mo hi process origin meth path hs s = (Passed c, s')"
    and sound: "decode_sound (mo_jwt mo) signed"
  shows "((\<exists>tok claims alg key v. bearer_of hs = Some tok \<and> bearer_identifies mo hi tok s claims \<and>
        claims_ok (hi_checks hi) (mo_unix mo) claims \<and> signed (trim tok) alg key claims \<and> trusted_key (mo_jwt mo) v (trim tok) alg key \<and>
        v = snd (snd (token_claims (mo_jwt mo) (mo_fetch mo) (mo_now mo) (mo_unix mo) (mo_under_way mo) (hi_checks hi) tok
          (as_world s, as_verifier s))) \<and>
        ca_scopes c = extract_scopes claims (hi_scope_claim hi)) \<or>
      (\<exists>t raw. \<not> (hi_verified hi \<and> bearer_of hs \<noteq> None) \<and> hi_trusted hi = Some t \<and>
        Option.bind (header_get hs (th_scopes t)) header_text = Some raw \<and> ca_scopes c = split_scopes [] (utf8_chars raw))) \<and>
    handler_caller (identity_enforced hi) process (Some c) = Inr c \<and>
    (\<forall>d. handler_caller (identity_enforced hi) process None \<noteq> Inr d)"
proof -
  have enforced: "identity_enforced hi" using serve by (simp add: may_serve_def)
  from passed obtain c0 s0 where auth: "authenticate mo hi hs process s = (Inr c0, s0)"
      and c: "ca_scopes c = ca_scopes c0"
    by (auto simp: guard_request_def with_origin_def split: option.splits prod.splits sum.splits if_splits)
  from auth show ?thesis
  proof (cases rule: authenticate_cases)
    case (bearer tok claims)
    obtain w v where run: "token_claims (mo_jwt mo) (mo_fetch mo) (mo_now mo) (mo_unix mo) (mo_under_way mo) (hi_checks hi) tok
        (as_world s, as_verifier s) = (Inr claims, w, v)"
      using bearer(3) unfolding bearer_identifies_def by (metis prod.exhaust_sel)
    from token_accepted_sound [OF sound this] bearer c enforced run show ?thesis
      by (force simp: handler_caller_def claims_caller_def new_caller_def)
  next
    case (gateway t)
    with c enforced show ?thesis
      by (auto simp: handler_caller_def gateway_caller_def new_caller_def split: option.splits)
  qed (use enforced in simp)
qed

definition toy_identity :: http_identity where
  "toy_identity = \<lparr>hi_verified = True, hi_introspector = None, hi_checks = \<lparr>cc_audience = Some ''mcp'', cc_issuer = None\<rparr>,
     hi_scope_claim = ''scope'', hi_subject_claim = ''sub'', hi_trusted = None, hi_allow_anonymous = False, hi_metadata = None\<rparr>"

definition toy_moment :: "(string, nat list) moment" where
  "toy_moment = \<lparr>mo_jwt = toy_jwt, mo_fetch = logged (\<lambda>_ _. Inl []), mo_now = 5, mo_unix = 90, mo_under_way = False, mo_sha = (\<lambda>s. s),
     mo_status_text = show_nat, mo_asked = 5, mo_answered = 6, mo_answer_unix = 90, mo_post = (\<lambda>_. NoReply ''down'')\<rparr>"

definition toy_auth_state :: "(string, nat list) auth_state" where
  "toy_auth_state = \<lparr>as_world = [], as_verifier = VJwks \<lparr>jk_keys = [(''k1'', ''tok'')], jk_source = Some (''u'', 0)\<rparr>, as_verdicts = []\<rparr>"

lemma toy_passes:
  "guard_request toy_moment toy_identity (with_scopes [''admin'']) (Some ''peer:1'') ''POST'' ''/'' [(''authorization'', ''Bearer tok'')] toy_auth_state =
     (Passed \<lparr>ca_scopes = [], ca_subject = None, ca_origin = Some ''peer:1''\<rparr>, toy_auth_state)"
proof -
  have b: "bearer_of [(''authorization'', ''Bearer tok'')] = Some ''tok''" by code_simp
  have t: "trim ''tok'' = ''tok''" by code_simp
  have "token_claims toy_jwt (logged (\<lambda>_ _. Inl [])) 5 90 False \<lparr>cc_audience = Some ''mcp'', cc_issuer = None\<rparr> ''tok''
      ([], VJwks \<lparr>jk_keys = [(''k1'', ''tok'')], jk_source = Some (''u'', 0)\<rparr>) =
    (Inr toy_claims, [], VJwks \<lparr>jk_keys = [(''k1'', ''tok'')], jk_source = Some (''u'', 0)\<rparr>)"
    by (simp add: token_claims_def t toy_jwt_def current_set_def age_refresh_def jwks_age_def jwks_max_age_def jwks_key_def
        verify_token_def validation_for_def new_validation_def)
  then show ?thesis
    by (simp add: guard_request_def metadata_for_def authenticate_def b bearer_caller_def revocation_def claims_caller_def new_caller_def
        extract_scopes_def toy_claims_def vget_def jget_def with_origin_def toy_moment_def toy_identity_def toy_auth_state_def)
qed

theorem remote_requests_identified_witness:
  "\<exists>tok claims. bearer_of [(''authorization'', ''Bearer tok'')] = Some tok \<and> claims_ok (hi_checks toy_identity) 90 claims \<and>
     extract_scopes claims ''scope'' = []"
proof -
  have serve: "may_serve False False toy_identity False"
    by (simp add: may_serve_def identity_enforced_def identity_required_def toy_identity_def)
  have sound: "decode_sound (mo_jwt toy_moment) (\<lambda>tok alg key claims. tok = key \<and> alg = RS256)"
    using toy_decode_sound by (simp add: toy_moment_def)
  from remote_requests_identified [OF serve toy_passes sound] show ?thesis
    by (auto simp: toy_identity_def toy_moment_def)
qed

end
