(* ===== verification/Modern.thy ===== *)
theory Modern
  imports Backend
begin

text \<open>
  The stateless protocol revision (\<open>src/src/modern.rs\<close>) and the response envelope (\<open>src/src/jsonrpc.rs\<close>): telling the era
  of a server from its probe, the request metadata, complete results, values in headers, and the \<open>x-mcp-header\<close>
  annotations of a tool's schema. \<open>b64\<close> is the Base64 encoder, \<open>f64_int\<close> the cast of a number literal to \<open>i64\<close>
  through a float.
\<close>

section \<open>Envelopes\<close>

definition i64_of_text :: "string \<Rightarrow> int option" where
  "i64_of_text s = (let (neg, d) = (case s of c # r \<Rightarrow> if c = CHR ''-'' then (True, r) else if c = CHR ''+'' then (False, r) else (False, s)
       | [] \<Rightarrow> (False, s))
     in if d \<noteq> [] \<and> all_digits d then
          (let n = int (digits_value d) in
           if neg then (if n \<le> 9223372036854775808 then Some (- n) else None)
           else (if n < 9223372036854775808 then Some n else None))
        else None)"

definition as_i64 :: "json \<Rightarrow> int option" where
  "as_i64 v = (case v of JNum s \<Rightarrow> i64_of_text s | _ \<Rightarrow> None)"

definition jint :: "int \<Rightarrow> json" where
  "jint n = JNum (if n < 0 then ''-'' @ show_nat (nat (- n)) else show_nat (nat n))"

definition response_id :: "(string \<Rightarrow> int option) \<Rightarrow> json \<Rightarrow> int option" where
  "response_id f64_int v = (case vget v ''id'' of
       None \<Rightarrow> None
     | Some i \<Rightarrow> (case as_i64 i of
         Some n \<Rightarrow> Some n
       | None \<Rightarrow> (case i of JNum s \<Rightarrow> f64_int s | JStr s \<Rightarrow> i64_of_text s | _ \<Rightarrow> None)))"

definition method_not_found :: int where
  "method_not_found = -32601"

definition rpc_result :: "json \<Rightarrow> json \<Rightarrow> json" where
  "rpc_result i r = JObj [(''jsonrpc'', JStr ''2.0''), (''id'', i), (''result'', r)]"

definition rpc_error_reply :: "json \<Rightarrow> int \<Rightarrow> string \<Rightarrow> json" where
  "rpc_error_reply i code msg =
     JObj [(''jsonrpc'', JStr ''2.0''), (''id'', i), (''error'', JObj [(''code'', jint code), (''message'', JStr msg)])]"

section \<open>Eras\<close>

definition modern_version :: string where
  "modern_version = ''2026-07-28''"

definition unsupported_protocol_version :: int where
  "unsupported_protocol_version = -32022"

definition header_mismatch :: int where
  "header_mismatch = -32020"

definition missing_required_client_capability :: int where
  "missing_required_client_capability = -32021"

definition is_negotiation_error :: "int \<Rightarrow> bool" where
  "is_negotiation_error code \<longleftrightarrow>
     code = unsupported_protocol_version \<or> code = header_mismatch \<or> code = missing_required_client_capability"

datatype era = Legacy | Modern

text \<open>How a request fails: an error reply of the server, the caller's own deadline, or anything else with its text.\<close>

datatype rpc_failure = RpcReply json | DeadlinePassed nat | OtherFailure string

definition request_meta :: "string \<Rightarrow> json" where
  "request_meta version = JObj
     [(''io.modelcontextprotocol/protocolVersion'', JStr modern_version), (''io.modelcontextprotocol/clientCapabilities'', JObj []),
      (''io.modelcontextprotocol/clientInfo'', JObj [(''name'', JStr ''min-mcp''), (''version'', JStr version)])]"

definition with_meta :: "string \<Rightarrow> json \<Rightarrow> json" where
  "with_meta version params = (case params of JObj m \<Rightarrow> JObj (jput ''_meta'' (request_meta version) m) | _ \<Rightarrow> params)"

definition from_versions :: "string \<Rightarrow> json list \<Rightarrow> string + era" where
  "from_versions upstream versions =
     (let names = List.map_filter as_str versions in
      if modern_version \<in> set names then Inr Modern
      else if list_ex (\<lambda>v. v < modern_version) names then Inr Legacy
      else Inl (''upstream '' @ upstream @ '' supports only ['' @ join_with '', '' (map debug_str names) @ ''; min-mcp speaks '' @
        modern_version @ '' and earlier''))"

definition rpc_code :: "json \<Rightarrow> int option" where
  "rpc_code err = Option.bind (vget err ''code'') as_i64"

definition classify_probe :: "string \<Rightarrow> rpc_failure + json \<Rightarrow> string + era" where
  "classify_probe upstream probe = (case probe of
       Inr result \<Rightarrow> (case Option.bind (vget result ''supportedVersions'') as_array of
           Some versions \<Rightarrow> from_versions upstream versions
         | None \<Rightarrow> Inr Legacy)
     | Inl (RpcReply err) \<Rightarrow>
         (case rpc_code err of
            Some c \<Rightarrow>
              if c = unsupported_protocol_version then
                (case Option.bind (Option.bind (vget err ''data'') (\<lambda>d. vget d ''supported'')) as_array of
                   Some versions \<Rightarrow> from_versions upstream versions
                 | None \<Rightarrow> from_versions upstream [])
              else if c = header_mismatch \<or> c = missing_required_client_capability then Inr Modern
              else Inr Legacy
          | None \<Rightarrow> Inr Legacy)
     | Inl _ \<Rightarrow> Inr Legacy)"

definition ensure_complete :: "string \<Rightarrow> string \<Rightarrow> json \<Rightarrow> string + unit" where
  "ensure_complete upstream meth result = (case Option.bind (vget result ''resultType'') as_str of
       None \<Rightarrow> Inr ()
     | Some t \<Rightarrow>
         if t = ''complete'' then Inr ()
         else if t = ''input_required''
         then Inl (''upstream '' @ upstream @ '' needs interactive input for '' @ meth @ '', which min-mcp cannot provide'')
         else Inl (''upstream '' @ upstream @ '' returned unsupported resultType '' @ debug_str t @ '' for '' @ meth))"

section \<open>Values in headers\<close>

definition base64_prefix :: string where
  "base64_prefix = ''=?base64?''"

definition base64_suffix :: string where
  "base64_suffix = ''?=''"

definition header_edge :: "char \<Rightarrow> bool" where
  "header_edge c \<longleftrightarrow> byte c = 32 \<or> byte c = 9"

definition header_plain :: "char \<Rightarrow> bool" where
  "header_plain c \<longleftrightarrow> 32 \<le> byte c \<and> byte c \<le> 126"

definition unsafe_text :: "string \<Rightarrow> bool" where
  "unsafe_text v \<longleftrightarrow> (v \<noteq> [] \<and> (header_edge (hd v) \<or> header_edge (last v))) \<or> list_ex (\<lambda>c. \<not> header_plain c) v \<or>
     (starts_with base64_prefix v \<and> ends_with base64_suffix v)"

definition header_value :: "(string \<Rightarrow> string) \<Rightarrow> string \<Rightarrow> string" where
  "header_value b64 v = (if \<not> unsafe_text v then v else base64_prefix @ b64 v @ base64_suffix)"

definition request_name :: "string \<Rightarrow> json \<Rightarrow> string option" where
  "request_name meth params =
     (if meth = ''tools/call'' \<or> meth = ''prompts/get'' then Option.bind (vget params ''name'') as_str
      else if meth = ''resources/read'' then Option.bind (vget params ''uri'') as_str
      else None)"

section \<open>Parameters marked for headers\<close>

record param_header =
  ph_path :: "string list"
  ph_header :: string

definition is_tchar :: "char \<Rightarrow> bool" where
  "is_tchar c \<longleftrightarrow> is_ascii_alphanumeric c \<or> c \<in> set (''!#$%&*+-.^_|~'' @ [CHR 0x27, CHR 0x60])"

text \<open>The text of a value that is not a string is \<open>ser\<close>.\<close>

definition annotation :: "(json \<Rightarrow> string) \<Rightarrow> json \<Rightarrow> jmap \<Rightarrow> string list \<Rightarrow> string + param_header" where
  "annotation ser v m path =
     (case as_str v of
        Some h \<Rightarrow>
          if h \<noteq> [] \<and> list_all is_tchar h then
            (case Option.bind (jget m ''type'') as_str of
               Some ty \<Rightarrow> if ty \<in> {''string'', ''integer'', ''boolean''} then Inr \<lparr>ph_path = path, ph_header = h\<rparr>
                 else Inl (''x-mcp-header on non-primitive parameter '' @ join_with ''.'' path)
             | None \<Rightarrow> Inl (''x-mcp-header on non-primitive parameter '' @ join_with ''.'' path))
          else Inl (''invalid x-mcp-header '' @ ser v @ '' on '' @ join_with ''.'' path)
      | None \<Rightarrow> Inl (''invalid x-mcp-header '' @ ser v @ '' on '' @ join_with ''.'' path))"

text \<open>What the walk does at each field of an object: an annotation, or a visit to a value below.\<close>

datatype walk_step = Own "string + param_header" | Visit "string list option" json

definition field_steps :: "(json \<Rightarrow> string) \<Rightarrow> string list option \<Rightarrow> jmap \<Rightarrow> string \<times> json \<Rightarrow> walk_step list" where
  "field_steps ser path m kv = (case kv of (k, v) \<Rightarrow>
     if k = ''x-mcp-header'' then
       [Own (case path of
            Some p \<Rightarrow> if p \<noteq> [] then annotation ser v m p else Inl ''x-mcp-header outside a property reachable through `properties`''
          | None \<Rightarrow> Inl ''x-mcp-header outside a property reachable through `properties`'')]
     else if k = ''properties'' then
       (case v of JObj ps \<Rightarrow> map (\<lambda>(n, c). Visit (map_option (\<lambda>p. p @ [n]) path) c) ps | _ \<Rightarrow> [])
     else if k \<in> {''default'', ''const'', ''enum'', ''examples'', ''example''} then []
     else [Visit None v])"

fun collect :: "('e + 'a list) list \<Rightarrow> 'e + 'a list" where
  "collect [] = Inr []"
| "collect (Inl e # rs) = Inl e"
| "collect (Inr xs # rs) = map_sum id (\<lambda>ys. xs @ ys) (collect rs)"

lemma visit_size:
  assumes "Visit p c \<in> set (concat (map (field_steps ser path m) m))"
  shows "size c < size (JObj m)"
proof -
  obtain k v where kv: "(k, v) \<in> set m" "Visit p c \<in> set (field_steps ser path m (k, v))"
    using assms by auto
  have "size v < size (JObj m)" using json_obj_size [OF kv(1)] by simp
  moreover have "size c \<le> size v"
    using kv(2) by (auto simp: field_steps_def split: if_splits json.splits dest: json_obj_size)
  ultimately show ?thesis by simp
qed

function annotations :: "(json \<Rightarrow> string) \<Rightarrow> string list option \<Rightarrow> json \<Rightarrow> string + param_header list" where
  "annotations ser path (JObj m) = collect (map (\<lambda>s. case s of
       Own r \<Rightarrow> map_sum id (\<lambda>h. [h]) r | Visit p c \<Rightarrow> annotations ser p c)
     (concat (map (field_steps ser path m) m)))"
| "annotations ser path (JArr a) = collect (map (annotations ser None) a)"
| "annotations ser path JNull = Inr []"
| "annotations ser path (JBool b) = Inr []"
| "annotations ser path (JNum n) = Inr []"
| "annotations ser path (JStr s) = Inr []"
  by pat_completeness auto
termination
  by (relation "measure (\<lambda>(ser, path, v). size v)") (auto dest: visit_size json_arr_size simp del: set_concat set_map)

fun repeated_header :: "string list \<Rightarrow> param_header list \<Rightarrow> string option" where
  "repeated_header seen [] = None"
| "repeated_header seen (p # ps) =
     (if to_ascii_lowercase (ph_header p) \<in> set seen then Some (ph_header p)
      else repeated_header (to_ascii_lowercase (ph_header p) # seen) ps)"

definition param_headers :: "(json \<Rightarrow> string) \<Rightarrow> json \<Rightarrow> string + param_header list" where
  "param_headers ser schema = (case annotations ser (Some []) schema of
       Inl e \<Rightarrow> Inl e
     | Inr found \<Rightarrow> (case repeated_header [] found of
         Some h \<Rightarrow> Inl (''duplicate x-mcp-header '' @ debug_str h)
       | None \<Rightarrow> Inr found))"

fun value_at :: "string list \<Rightarrow> json \<Rightarrow> json option" where
  "value_at [] v = Some v"
| "value_at (k # ks) v = Option.bind (vget v k) (value_at ks)"

definition header_of :: "(string \<Rightarrow> string) \<Rightarrow> json \<Rightarrow> param_header \<Rightarrow> (string \<times> string) option" where
  "header_of b64 arguments p = (case value_at (ph_path p) arguments of
       Some (JStr s) \<Rightarrow> Some (''Mcp-Param-'' @ ph_header p, header_value b64 s)
     | Some (JBool b) \<Rightarrow> Some (''Mcp-Param-'' @ ph_header p, header_value b64 (if b then ''true'' else ''false''))
     | Some (JNum n) \<Rightarrow> Some (''Mcp-Param-'' @ ph_header p, header_value b64 n)
     | _ \<Rightarrow> None)"

definition param_values :: "(string \<Rightarrow> string) \<Rightarrow> param_header list \<Rightarrow> json \<Rightarrow> (string \<times> string) list" where
  "param_values b64 headers arguments = List.map_filter (header_of b64 arguments) headers"

definition tool_params :: "(json \<Rightarrow> string) \<Rightarrow> json \<Rightarrow> string + param_header list" where
  "tool_params ser t = (case vget t ''inputSchema'' of None \<Rightarrow> Inr [] | Some schema \<Rightarrow> param_headers ser schema)"

definition tool_admitted :: "(json \<Rightarrow> string) \<Rightarrow> json \<Rightarrow> bool" where
  "tool_admitted ser t \<longleftrightarrow> (case tool_params ser t of Inr _ \<Rightarrow> True | Inl _ \<Rightarrow> False)"

text \<open>The tools whose annotations are valid, and the marked parameters of those that have any.\<close>

definition admit_tools :: "(json \<Rightarrow> string) \<Rightarrow> json \<Rightarrow> (string \<times> param_header list) list \<times> json" where
  "admit_tools ser result = (case result of
       JObj m \<Rightarrow> (case jget m ''tools'' of
           Some (JArr ts) \<Rightarrow>
             (List.map_filter (\<lambda>t. case tool_params ser t of
                  Inr hs \<Rightarrow> if hs \<noteq> [] then Some (str_or_empty (vget t ''name''), hs) else None | Inl _ \<Rightarrow> None) ts,
              JObj (jput ''tools'' (JArr (filter (tool_admitted ser) ts)) m))
         | _ \<Rightarrow> ([], result))
     | _ \<Rightarrow> ([], result))"

section \<open>What reaches the wire\<close>

text \<open>How the receiver reads a field value: the sentinel's content is Base64, anything else is itself.\<close>

definition header_decode :: "(string \<Rightarrow> string) \<Rightarrow> string \<Rightarrow> string" where
  "header_decode unb64 v = (case Option.bind (strip_prefix base64_prefix v) (strip_suffix base64_suffix) of
       Some e \<Rightarrow> unb64 e | None \<Rightarrow> v)"

definition field_value :: "string \<Rightarrow> bool" where
  "field_value v \<longleftrightarrow> list_all header_plain v \<and> (v \<noteq> [] \<longrightarrow> \<not> header_edge (hd v) \<and> \<not> header_edge (last v))"

definition base64_codec :: "(string \<Rightarrow> string) \<Rightarrow> (string \<Rightarrow> string) \<Rightarrow> bool" where
  "base64_codec b64 unb64 \<longleftrightarrow> (\<forall>s. unb64 (b64 s) = s \<and> list_all (\<lambda>c. is_ascii_alphanumeric c \<or> c \<in> set ''+/='') (b64 s))"

lemma strip_suffix_append: "strip_suffix q (s @ q) = Some s"
  by (simp add: strip_suffix_def strip_prefix_Some)

lemma strip_prefix_append: "strip_prefix p (p @ s) = Some s"
  by (simp add: strip_prefix_Some)

lemma alnum_plain: "is_ascii_alphanumeric c \<or> c \<in> set ''+/='' \<Longrightarrow> header_plain c \<and> \<not> header_edge c"
  by (auto simp: is_ascii_alphanumeric_def is_ascii_digit_def is_ascii_upper_def is_ascii_lower_def header_plain_def header_edge_def)

lemma safe_text_decodes:
  assumes "\<not> unsafe_text v"
  shows "header_decode unb64 v = v" "field_value v"
proof -
  have "Option.bind (strip_prefix base64_prefix v) (strip_suffix base64_suffix) = None"
  proof (rule ccontr)
    assume "Option.bind (strip_prefix base64_prefix v) (strip_suffix base64_suffix) \<noteq> None"
    then obtain r e where "v = base64_prefix @ r" "r = e @ base64_suffix"
      by (auto simp: bind_eq_Some_conv strip_prefix_Some strip_suffix_def) (metis rev_append rev_rev_ident)
    with assms show False
      by (auto simp: unsafe_text_def starts_with_def ends_with_def strip_prefix_Some strip_suffix_def)
  qed
  then show "header_decode unb64 v = v" by (simp add: header_decode_def)
  show "field_value v" using assms by (auto simp: unsafe_text_def field_value_def list_all_iff list_ex_iff)
qed

lemma sentinel_decodes:
  assumes "base64_codec b64 unb64"
  shows "header_decode unb64 (base64_prefix @ b64 v @ base64_suffix) = v" "field_value (base64_prefix @ b64 v @ base64_suffix)"
proof -
  show "header_decode unb64 (base64_prefix @ b64 v @ base64_suffix) = v"
    using assms by (simp add: header_decode_def base64_codec_def strip_suffix_append strip_prefix_append)
  have "list_all header_plain base64_prefix" "list_all header_plain base64_suffix" "\<not> header_edge (hd base64_prefix)"
      "\<not> header_edge (last base64_suffix)" "base64_prefix \<noteq> []" "base64_suffix \<noteq> []"
    by code_simp+
  moreover have "list_all header_plain (b64 v)"
    using assms alnum_plain by (fastforce simp: base64_codec_def list_all_iff)
  ultimately show "field_value (base64_prefix @ b64 v @ base64_suffix)"
    by (simp add: field_value_def)
qed

lemma header_value_ok:
  assumes "base64_codec b64 unb64"
  shows "header_decode unb64 (header_value b64 v) = v \<and> field_value (header_value b64 v)"
  using safe_text_decodes sentinel_decodes [OF assms] by (simp add: header_value_def)

lemma collect_in: "collect rs = Inr xs \<Longrightarrow> x \<in> set xs \<Longrightarrow> \<exists>ys. Inr ys \<in> set rs \<and> x \<in> set ys"
proof (induction rs arbitrary: xs)
  case (Cons r rs)
  then show ?case
  proof (cases r)
    case (Inr ys)
    with Cons.prems obtain zs where zs: "collect rs = Inr zs" "xs = ys @ zs"
      by (cases "collect rs") auto
    show ?thesis
    proof (cases "x \<in> set ys")
      case False
      with Cons zs Inr show ?thesis by auto
    qed (use Inr in auto)
  qed auto
qed simp

definition marked_ok :: "param_header \<Rightarrow> bool" where
  "marked_ok p \<longleftrightarrow> ph_path p \<noteq> [] \<and> ph_header p \<noteq> [] \<and> list_all is_tchar (ph_header p)"

lemma annotation_ok: "annotation ser v m path = Inr p \<Longrightarrow> path \<noteq> [] \<Longrightarrow> marked_ok p"
  by (auto simp: annotation_def marked_ok_def split: option.splits if_splits)

lemma annotations_ok: "annotations ser path v = Inr ps \<Longrightarrow> p \<in> set ps \<Longrightarrow> marked_ok p"
proof (induction ser path v arbitrary: ps rule: annotations.induct)
  case (1 ser path m)
  define steps where "steps = concat (map (field_steps ser path m) m)"
  define run where "run = (\<lambda>s. case s of Own r \<Rightarrow> map_sum id (\<lambda>h. [h]) r | Visit q c \<Rightarrow> annotations ser q c)"
  have "collect (map run steps) = Inr ps" using 1(2) by (simp add: steps_def run_def)
  then obtain ys st where ys: "p \<in> set ys" "st \<in> set steps" "run st = Inr ys"
    using collect_in [OF _ 1(3)] by fastforce
  show ?case
  proof (cases st)
    case (Own r)
    with ys obtain h where h: "r = Inr h" "p = h" by (cases r) (auto simp: run_def)
    have "\<exists>k v. Own r \<in> set (field_steps ser path m (k, v))" using ys(2) Own by (auto simp: steps_def)
    with h show ?thesis
      by (auto simp: field_steps_def split: if_splits option.splits json.splits dest: annotation_ok annotation_ok [OF sym])
  next
    case (Visit q c)
    with ys show ?thesis by (intro 1(1) [of st]) (auto simp: steps_def run_def)
  qed
next
  case (2 ser path a)
  obtain ys v where "p \<in> set ys" "v \<in> set a" "annotations ser None v = Inr ys"
    using collect_in [OF 2(2) [unfolded annotations.simps(2)] 2(3)] by auto
  then show ?case using 2(1) by blast
qed simp_all

lemma repeated_header_None:
  "repeated_header seen ps = None \<Longrightarrow>
   distinct (map (to_ascii_lowercase \<circ> ph_header) ps) \<and> (\<forall>p \<in> set ps. to_ascii_lowercase (ph_header p) \<notin> set seen)"
  by (induction seen ps rule: repeated_header.induct) (auto split: if_splits)

lemma param_headers_ok:
  assumes "param_headers ser schema = Inr hs"
  shows "distinct (map (to_ascii_lowercase \<circ> ph_header) hs) \<and> (\<forall>p \<in> set hs. marked_ok p)"
proof -
  have "annotations ser (Some []) schema = Inr hs" "repeated_header [] hs = None"
    using assms by (auto simp: param_headers_def split: sum.splits option.splits)
  then show ?thesis using annotations_ok repeated_header_None by blast
qed

definition value_text :: "json \<Rightarrow> string option" where
  "value_text v = (case v of JStr s \<Rightarrow> Some s | JBool b \<Rightarrow> Some (if b then ''true'' else ''false'') | JNum n \<Rightarrow> Some n | _ \<Rightarrow> None)"

lemma header_of_Some:
  "header_of b64 arguments p = Some h \<longleftrightarrow>
   (\<exists>t. Option.bind (value_at (ph_path p) arguments) value_text = Some t \<and> h = (''Mcp-Param-'' @ ph_header p, header_value b64 t))"
  by (auto simp: header_of_def value_text_def bind_eq_Some_conv split: option.splits json.splits)

lemma param_values_names:
  "map fst (param_values b64 hs arguments) =
   map (\<lambda>p. ''Mcp-Param-'' @ ph_header p) (filter (\<lambda>p. header_of b64 arguments p \<noteq> None) hs)"
proof (induction hs)
  case (Cons p hs)
  have "fst h = ''Mcp-Param-'' @ ph_header p" if "header_of b64 arguments p = Some h" for h
    using that by (auto simp: header_of_Some)
  with Cons show ?case
    by (auto simp: param_values_def split: option.split)
qed (simp add: param_values_def)

lemma map_filter_in: "x \<in> set (List.map_filter f xs) \<longleftrightarrow> (\<exists>p \<in> set xs. f p = Some x)"
  by (induction xs) (auto split: option.splits)

text \<open>C24: Whatever the agent puts in the arguments, the headers mirrored from a tool's marked parameters are well formed:
  distinct names of token characters, values without control characters or edge blanks, and each value reads back as
  the argument it mirrors.\<close>

theorem mirrored_headers_well_formed:
  assumes hs: "param_headers ser schema = Inr hs" and codec: "base64_codec b64 unb64"
  shows "distinct (map (to_ascii_lowercase \<circ> fst) (param_values b64 hs arguments)) \<and>
    (\<forall>(name, v) \<in> set (param_values b64 hs arguments). list_all is_tchar name \<and> field_value v \<and>
       (\<exists>p \<in> set hs. name = ''Mcp-Param-'' @ ph_header p \<and>
          Option.bind (value_at (ph_path p) arguments) value_text = Some (header_decode unb64 v)))"
proof -
  note ok = param_headers_ok [OF hs]
  let ?kept = "filter (\<lambda>p. header_of b64 arguments p \<noteq> None) hs"
  have "map (to_ascii_lowercase \<circ> fst) (param_values b64 hs arguments) =
      map (\<lambda>h. to_ascii_lowercase ''Mcp-Param-'' @ h) (map (to_ascii_lowercase \<circ> ph_header) ?kept)"
    using arg_cong [OF param_values_names, of "map to_ascii_lowercase" b64 hs arguments]
    by (simp add: to_ascii_lowercase_def comp_def)
  moreover have "distinct (map (to_ascii_lowercase \<circ> ph_header) ?kept)"
    using ok by (blast intro: distinct_map_filter)
  ultimately have "distinct (map (to_ascii_lowercase \<circ> fst) (param_values b64 hs arguments))"
    by (simp add: distinct_map inj_on_def del: map_map)
  moreover have "list_all is_tchar name \<and> field_value v \<and> (\<exists>p \<in> set hs. name = ''Mcp-Param-'' @ ph_header p \<and>
      Option.bind (value_at (ph_path p) arguments) value_text = Some (header_decode unb64 v))"
    if nv: "(name, v) \<in> set (param_values b64 hs arguments)" for name v
  proof -
    obtain p where p: "p \<in> set hs" "header_of b64 arguments p = Some (name, v)"
      using nv by (auto simp: param_values_def map_filter_in)
    have "list_all is_tchar ''Mcp-Param-''" by code_simp
    with p ok header_value_ok [OF codec] show ?thesis
      by (auto simp: header_of_Some marked_ok_def)
  qed
  ultimately show ?thesis by auto
qed

definition hex_of :: "string \<Rightarrow> string" where
  "hex_of s = concat (map (\<lambda>c. [hex_digit (byte c div 16), hex_digit (byte c mod 16)]) s)"

fun of_hex :: "string \<Rightarrow> string" where
  "of_hex (a # b # s) = char_of (hex_value a * 16 + hex_value b) # of_hex s"
| "of_hex _ = []"

lemma hex_digit_ok: "n < 16 \<Longrightarrow> hex_value (hex_digit n) = n \<and> is_ascii_alphanumeric (hex_digit n)"
  by (simp add: hex_value_digit)
    (auto simp: hex_digit_def is_ascii_alphanumeric_def is_ascii_digit_def is_ascii_lower_def)

lemma hex_codec: "base64_codec hex_of of_hex"
proof -
  have "of_hex (hex_of s) = s" for s
    by (induction s) (simp_all add: hex_of_def hex_digit_ok div_mult_mod_eq less_mult_imp_div_less)
  moreover have "list_all is_ascii_alphanumeric (hex_of s)" for s
    by (induction s) (simp_all add: hex_of_def hex_digit_ok less_mult_imp_div_less)
  ultimately show ?thesis by (fastforce simp: base64_codec_def list_all_iff)
qed

theorem mirrored_headers_well_formed_witness:
  "distinct (map (to_ascii_lowercase \<circ> fst) (param_values hex_of [\<lparr>ph_path = [''q''], ph_header = ''Q''\<rparr>]
      (JObj [(''q'', JStr [CHR 0x0A])]))) \<and>
   list_all (\<lambda>(name, v). list_all is_tchar name \<and> field_value v \<and>
       (\<exists>p \<in> set [\<lparr>ph_path = [''q''], ph_header = ''Q''\<rparr>]. name = ''Mcp-Param-'' @ ph_header p \<and>
          Option.bind (value_at (ph_path p) (JObj [(''q'', JStr [CHR 0x0A])])) value_text = Some (header_decode of_hex v)))
     (param_values hex_of [\<lparr>ph_path = [''q''], ph_header = ''Q''\<rparr>] (JObj [(''q'', JStr [CHR 0x0A])]))"
  unfolding list_all_iff [of "\<lambda>(name, v). P name v" for P]
proof (rule mirrored_headers_well_formed [OF _ hex_codec])
  show "param_headers json_text (JObj [(''properties'', JObj [(''q'', JObj [(''type'', JStr ''string''), (''x-mcp-header'', JStr ''Q'')])])]) =
      Inr [\<lparr>ph_path = [''q''], ph_header = ''Q''\<rparr>]"
    by code_simp
qed

section \<open>Telling eras\<close>

text \<open>A server is taken for modern only on its own word; whatever else the probe meets leaves it legacy, except a modern
  server that lists versions and none min-mcp speaks.\<close>

lemma modern_on_its_word:
  "classify_probe upstream probe = Inr Modern \<longleftrightarrow>
   (\<exists>result versions. probe = Inr result \<and> vget result ''supportedVersions'' = Some (JArr versions) \<and> JStr modern_version \<in> set versions) \<or>
   (\<exists>err. probe = Inl (RpcReply err) \<and>
      (rpc_code err = Some header_mismatch \<or> rpc_code err = Some missing_required_client_capability \<or>
       (rpc_code err = Some unsupported_protocol_version \<and>
        (\<exists>d versions. vget err ''data'' = Some d \<and> vget d ''supported'' = Some (JArr versions) \<and> JStr modern_version \<in> set versions))))"
proof -
  have fv: "from_versions upstream versions = Inr Modern \<longleftrightarrow> JStr modern_version \<in> set versions" for versions
    by (auto simp: from_versions_def Let_def map_filter_in)
  consider (answer) r where "probe = Inr r" | (err) e where "probe = Inl (RpcReply e)"
    | (late) t where "probe = Inl (DeadlinePassed t)" | (other) t where "probe = Inl (OtherFailure t)"
    by (metis rpc_failure.exhaust sum.exhaust)
  then show ?thesis
  proof cases
    case (answer r)
    then show ?thesis
      by (cases "vget r ''supportedVersions''") (auto simp: classify_probe_def fv split: option.split)
  next
    case (err e)
    let ?data = "Option.bind (Option.bind (vget e ''data'') (\<lambda>d. vget d ''supported'')) as_array"
    have d: "?data = Some vs \<longleftrightarrow> (\<exists>d. vget e ''data'' = Some d \<and> vget d ''supported'' = Some (JArr vs))" for vs
      by (auto simp: bind_eq_Some_conv)
    have "classify_probe upstream (Inl (RpcReply e)) = Inr Modern \<longleftrightarrow>
        rpc_code e = Some header_mismatch \<or> rpc_code e = Some missing_required_client_capability \<or>
        rpc_code e = Some unsupported_protocol_version \<and> (\<exists>vs. ?data = Some vs \<and> JStr modern_version \<in> set vs)"
      by (cases "rpc_code e"; cases ?data)
        (auto simp: classify_probe_def fv header_mismatch_def missing_required_client_capability_def unsupported_protocol_version_def)
    with err show ?thesis unfolding d by blast
  qed (simp_all add: classify_probe_def)
qed

lemma admitted_only: "admit_tools ser result = (hs, JObj m) \<Longrightarrow> jget m ''tools'' = Some (JArr ts) \<Longrightarrow> t \<in> set ts \<Longrightarrow> tool_admitted ser t"
  by (auto simp: admit_tools_def split: json.splits option.splits if_splits)

end
