(* ===== verification/Stdio.thy ===== *)
theory Stdio
  imports Modern Gates
begin

text \<open>
  The client of a spawned MCP server (\<open>src/src/upstream.rs\<close>): requests multiplexed over one pipe, the reader task that
  routes responses by id, the respawn guard, and the paginated listings every MCP client shares. A request and the
  reader interleave step by step: \<open>stdio_reach\<close> is what any scheduling of them can reach.
\<close>

section \<open>A connection\<close>

text \<open>Where a request is: its slot made, its frame written, waiting for its response, or over.\<close>

datatype ending = Replied json | Closed | WriteFailed string | Expired

datatype phase = Begun json string | Sent string | Waiting string | Done ending

text \<open>Where the reader is: reading, past its loop, past marking the connection dead, past failing what was in flight.\<close>

datatype reader = Reading | Ended | Marked | Drained

record conn =
  cn_next :: int
  cn_phase :: "(int \<times> phase) list"
  cn_pending :: "int list"
  cn_mailbox :: "(int \<times> json) list"
  cn_reader :: reader
  cn_dead :: bool
  cn_stale :: bool
  cn_written :: "json list"

definition fresh_conn :: "bool \<Rightarrow> conn" where
  "fresh_conn stale = \<lparr>cn_next = 0, cn_phase = [], cn_pending = [], cn_mailbox = [], cn_reader = Reading, cn_dead = False,
     cn_stale = stale, cn_written = []\<rparr>"

definition phase_of :: "conn \<Rightarrow> int \<Rightarrow> phase option" where
  "phase_of c i = map_of (cn_phase c) i"

definition at_phase :: "int \<Rightarrow> phase \<Rightarrow> conn \<Rightarrow> conn" where
  "at_phase i p c = c\<lparr>cn_phase := alist_put i p (cn_phase c)\<rparr>"

definition forget :: "int \<Rightarrow> conn \<Rightarrow> conn" where
  "forget i c = c\<lparr>cn_pending := removeAll i (cn_pending c)\<rparr>"

definition request_frame :: "string \<Rightarrow> bool \<Rightarrow> int \<Rightarrow> string \<Rightarrow> json \<Rightarrow> json" where
  "request_frame version modern i meth params = JObj
     [(''jsonrpc'', JStr ''2.0''), (''id'', jint i), (''method'', JStr meth),
      (''params'', if modern then with_meta version params else params)]"

text \<open>A request takes the next id and a slot in \<open>pending\<close>.\<close>

definition begin_request :: "string \<Rightarrow> bool \<Rightarrow> string \<Rightarrow> json \<Rightarrow> conn \<Rightarrow> conn" where
  "begin_request version modern meth params c =
     (let i = cn_next c + 1 in
      at_phase i (Begun (request_frame version modern i meth params) meth)
        (c\<lparr>cn_next := i, cn_pending := i # cn_pending c\<rparr>))"

text \<open>Its frame is written, or not; \<open>failed\<close> is the error.\<close>

definition write_request :: "int \<Rightarrow> string option \<Rightarrow> conn \<Rightarrow> conn" where
  "write_request i failed c = (case phase_of c i of
       Some (Begun frame meth) \<Rightarrow> (case failed of
           None \<Rightarrow> at_phase i (Sent meth) (c\<lparr>cn_written := cn_written c @ [frame]\<rparr>)
         | Some e \<Rightarrow> at_phase i (Done (WriteFailed e)) (forget i (c\<lparr>cn_dead := True\<rparr>)))
     | _ \<Rightarrow> c)"

definition check_alive :: "int \<Rightarrow> conn \<Rightarrow> conn" where
  "check_alive i c = (case phase_of c i of
       Some (Sent meth) \<Rightarrow> if cn_dead c then at_phase i (Done Closed) (forget i c) else at_phase i (Waiting meth) c
     | _ \<Rightarrow> c)"

text \<open>The wait ends with what was sent to it, or when its sender is gone.\<close>

definition receive :: "int \<Rightarrow> conn \<Rightarrow> conn" where
  "receive i c = (case phase_of c i of
       Some (Waiting meth) \<Rightarrow> (case map_of (cn_mailbox c) i of
           Some v \<Rightarrow> at_phase i (Done (Replied v)) c
         | None \<Rightarrow> if i \<in> set (cn_pending c) then c else at_phase i (Done Closed) c)
     | _ \<Rightarrow> c)"

definition cancel_notice :: "int \<Rightarrow> json" where
  "cancel_notice i = JObj [(''jsonrpc'', JStr ''2.0''), (''method'', JStr ''notifications/cancelled''),
     (''params'', JObj [(''requestId'', jint i), (''reason'', JStr ''min-mcp: request timed out'')])]"

text \<open>The deadline passes: the slot goes, and the server is told to stop, unless the request may not be cancelled.\<close>

definition expire :: "int \<Rightarrow> bool \<Rightarrow> conn \<Rightarrow> conn" where
  "expire i told c = (case phase_of c i of
       Some (Waiting meth) \<Rightarrow>
         (let c = at_phase i (Done Expired) (forget i c) in
          if meth \<in> {''initialize'', ''server/discover''} \<or> \<not> told then c
          else c\<lparr>cn_written := cn_written c @ [cancel_notice i]\<rparr>)
     | _ \<Rightarrow> c)"

section \<open>The reader\<close>

definition from_server :: "json \<Rightarrow> bool" where
  "from_server v \<longleftrightarrow> Option.bind (vget v ''method'') as_str \<noteq> None"

text \<open>A request of the server: \<open>ping\<close> is answered, anything else refused. \<open>ok\<close>: the reply was written.\<close>

definition answer_server :: "string \<Rightarrow> json \<Rightarrow> bool \<Rightarrow> conn \<Rightarrow> conn" where
  "answer_server meth req_id ok c =
     (if ok then c\<lparr>cn_written := cn_written c @
          [if meth = ''ping'' then rpc_result req_id (JObj [])
           else rpc_error_reply req_id method_not_found (''min-mcp does not support '' @ meth)]\<rparr>
      else c\<lparr>cn_reader := Ended\<rparr>)"

definition route_message :: "(string \<Rightarrow> int option) \<Rightarrow> bool \<Rightarrow> json \<Rightarrow> conn \<Rightarrow> conn" where
  "route_message f64_int ok v c =
     (case Option.bind (vget v ''method'') as_str of
        Some meth \<Rightarrow> (case vget v ''id'' of
            Some req_id \<Rightarrow> answer_server meth req_id ok c
          | None \<Rightarrow> if meth = ''notifications/tools/list_changed'' then c\<lparr>cn_stale := True\<rparr> else c)
      | None \<Rightarrow> (case response_id f64_int v of
            None \<Rightarrow> c
          | Some i \<Rightarrow> if i \<in> set (cn_pending c) then forget i (c\<lparr>cn_mailbox := (i, v) # cn_mailbox c\<rparr>) else c))"

definition read_line :: "(string \<Rightarrow> json option) \<Rightarrow> (string \<Rightarrow> int option) \<Rightarrow> bool \<Rightarrow> string \<Rightarrow> conn \<Rightarrow> conn" where
  "read_line parse f64_int ok line c = (case parse line of None \<Rightarrow> c | Some v \<Rightarrow> route_message f64_int ok v c)"

text \<open>The end of the stream, the mark, and the drain, in this order.\<close>

definition end_reading :: "conn \<Rightarrow> conn" where
  "end_reading c = (case cn_reader c of
       Reading \<Rightarrow> c\<lparr>cn_reader := Ended\<rparr>
     | Ended \<Rightarrow> c\<lparr>cn_reader := Marked, cn_dead := True\<rparr>
     | Marked \<Rightarrow> c\<lparr>cn_reader := Drained, cn_pending := []\<rparr>
     | Drained \<Rightarrow> c)"

text \<open>What a waiting caller makes of a message: the error object, or the result.\<close>

definition message_outcome :: "json \<Rightarrow> json + json" where
  "message_outcome v = (case vget v ''error'' of Some e \<Rightarrow> Inl e
     | None \<Rightarrow> Inr (case vget v ''result'' of Some r \<Rightarrow> r | None \<Rightarrow> JNull))"

definition request_result :: "string \<Rightarrow> string \<Rightarrow> nat option \<Rightarrow> ending \<Rightarrow> rpc_failure + json" where
  "request_result name meth deadline out = (case out of
       Replied v \<Rightarrow> map_sum RpcReply id (message_outcome v)
     | Closed \<Rightarrow> Inl (OtherFailure (''upstream '' @ name @ '' closed its stdout''))
     | WriteFailed e \<Rightarrow> Inl (OtherFailure (''writing '' @ meth @ '' to upstream '' @ name @ '': '' @ e))
     | Expired \<Rightarrow> (case deadline of
         Some secs \<Rightarrow> Inl (DeadlinePassed secs)
       | None \<Rightarrow> Inl (OtherFailure (''upstream '' @ name @ '' timed out on '' @ meth))))"

inductive stdio_reach :: "(string \<Rightarrow> json option) \<Rightarrow> (string \<Rightarrow> int option) \<Rightarrow> string list \<Rightarrow> conn \<Rightarrow> bool"
  for parse :: "string \<Rightarrow> json option" and f64_int :: "string \<Rightarrow> int option" where
  start: "stdio_reach parse f64_int [] (fresh_conn stale)"
| begin_step: "stdio_reach parse f64_int ls c \<Longrightarrow> stdio_reach parse f64_int ls (begin_request version modern meth params c)"
| write_step: "stdio_reach parse f64_int ls c \<Longrightarrow> stdio_reach parse f64_int ls (write_request i failed c)"
| check_step: "stdio_reach parse f64_int ls c \<Longrightarrow> stdio_reach parse f64_int ls (check_alive i c)"
| receive_step: "stdio_reach parse f64_int ls c \<Longrightarrow> stdio_reach parse f64_int ls (receive i c)"
| expire_step: "stdio_reach parse f64_int ls c \<Longrightarrow> stdio_reach parse f64_int ls (expire i told c)"
| line_step: "stdio_reach parse f64_int ls c \<Longrightarrow> cn_reader c = Reading \<Longrightarrow> stdio_reach parse f64_int (ls @ [line]) (read_line parse f64_int ok line c)"
| end_step: "stdio_reach parse f64_int ls c \<Longrightarrow> stdio_reach parse f64_int ls (end_reading c)"

section \<open>What any schedule keeps\<close>

lemma phase_at [simp]: "phase_of (at_phase i p c) j = (if j = i then Some p else phase_of c j)"
  by (auto simp: phase_of_def at_phase_def)

lemma at_phase_simps [simp]:
  "cn_next (at_phase i p c) = cn_next c" "cn_pending (at_phase i p c) = cn_pending c" "cn_mailbox (at_phase i p c) = cn_mailbox c"
  "cn_reader (at_phase i p c) = cn_reader c" "cn_dead (at_phase i p c) = cn_dead c" "cn_written (at_phase i p c) = cn_written c"
  by (simp_all add: at_phase_def)

lemma forget_simps [simp]:
  "cn_next (forget i c) = cn_next c" "set (cn_pending (forget i c)) = set (cn_pending c) - {i}"
  "cn_mailbox (forget i c) = cn_mailbox c" "cn_reader (forget i c) = cn_reader c" "cn_dead (forget i c) = cn_dead c"
  "phase_of (forget i c) j = phase_of c j"
  by (simp_all add: forget_def phase_of_def)

lemma phase_of_updates [simp]:
  "phase_of (c\<lparr>cn_dead := d\<rparr>) j = phase_of c j" "phase_of (c\<lparr>cn_written := ws\<rparr>) j = phase_of c j"
  "phase_of (c\<lparr>cn_reader := r\<rparr>) j = phase_of c j" "phase_of (c\<lparr>cn_stale := st\<rparr>) j = phase_of c j"
  "phase_of (c\<lparr>cn_mailbox := mb\<rparr>) j = phase_of c j" "phase_of (c\<lparr>cn_pending := ps\<rparr>) j = phase_of c j"
  "phase_of (c\<lparr>cn_next := n\<rparr>) j = phase_of c j" "phase_of (c\<lparr>cn_next := n, cn_pending := ps\<rparr>) j = phase_of c j" "phase_of (c\<lparr>cn_reader := r, cn_dead := d\<rparr>) j = phase_of c j"
  "phase_of (c\<lparr>cn_reader := r, cn_pending := ps\<rparr>) j = phase_of c j"
  by (simp_all add: phase_of_def)

text \<open>The message is the response to the request: read from the child, with the request's id, and not a request of its own.\<close>

definition routed :: "(string \<Rightarrow> json option) \<Rightarrow> (string \<Rightarrow> int option) \<Rightarrow> string list \<Rightarrow> int \<Rightarrow> json \<Rightarrow> bool" where
  "routed parse f64_int ls i v \<longleftrightarrow> response_id f64_int v = Some i \<and> \<not> from_server v \<and> (\<exists>line \<in> set ls. parse line = Some v)"

definition conn_inv :: "(string \<Rightarrow> json option) \<Rightarrow> (string \<Rightarrow> int option) \<Rightarrow> string list \<Rightarrow> conn \<Rightarrow> bool" where
  "conn_inv parse f64_int ls c \<longleftrightarrow>
     (\<forall>i v. map_of (cn_mailbox c) i = Some v \<longrightarrow> routed parse f64_int ls i v) \<and>
     (\<forall>i v. phase_of c i = Some (Done (Replied v)) \<longrightarrow> routed parse f64_int ls i v) \<and>
     (cn_reader c = Marked \<or> cn_reader c = Drained \<longrightarrow> cn_dead c) \<and>
     (\<forall>i meth. cn_reader c = Drained \<and> phase_of c i = Some (Waiting meth) \<longrightarrow> i \<notin> set (cn_pending c)) \<and>
     (\<forall>i p. phase_of c i = Some p \<and> (\<forall>out. p \<noteq> Done out) \<longrightarrow>
        i \<in> set (cn_pending c) \<or> map_of (cn_mailbox c) i \<noteq> None \<or> cn_reader c = Drained) \<and>
     (\<forall>i. phase_of c i = Some (Done Closed) \<longrightarrow> cn_dead c)"

lemma routed_more: "routed parse f64_int ls i v \<Longrightarrow> routed parse f64_int (ls @ [line]) i v"
  by (auto simp: routed_def)

lemma inv_begin: "conn_inv parse f64_int ls c \<Longrightarrow> conn_inv parse f64_int ls (begin_request version modern meth params c)"
  unfolding conn_inv_def begin_request_def Let_def by auto

lemma inv_write: "conn_inv parse f64_int ls c \<Longrightarrow> conn_inv parse f64_int ls (write_request i failed c)"
  unfolding conn_inv_def write_request_def by (auto split: option.split phase.split)

lemma inv_check: "conn_inv parse f64_int ls c \<Longrightarrow> conn_inv parse f64_int ls (check_alive i c)"
  unfolding conn_inv_def check_alive_def by (auto split: option.split phase.split)

lemma inv_receive: "conn_inv parse f64_int ls c \<Longrightarrow> conn_inv parse f64_int ls (receive i c)"
  unfolding conn_inv_def receive_def by (auto split: option.split phase.split)

lemma inv_expire: "conn_inv parse f64_int ls c \<Longrightarrow> conn_inv parse f64_int ls (expire i told c)"
  unfolding conn_inv_def expire_def Let_def by (auto split: option.split phase.split)

lemma inv_end: "conn_inv parse f64_int ls c \<Longrightarrow> conn_inv parse f64_int ls (end_reading c)"
  unfolding conn_inv_def end_reading_def by (auto split: reader.split)

lemma inv_more: "conn_inv parse f64_int ls c \<Longrightarrow> conn_inv parse f64_int (ls @ [line]) c"
  unfolding conn_inv_def by (auto intro: routed_more)

lemma inv_route:
  assumes "conn_inv parse f64_int ls c" "parse line = Some v" "line \<in> set ls" and reading: "cn_reader c = Reading"
  shows "conn_inv parse f64_int ls (route_message f64_int ok v c)"
proof (cases "Option.bind (vget v ''method'') as_str")
  case None
  then have "\<not> from_server v" by (simp add: from_server_def)
  with assms have "response_id f64_int v = Some i \<Longrightarrow> routed parse f64_int ls i v" for i
    by (auto simp: routed_def)
  with None assms(1) show ?thesis
    unfolding conn_inv_def by (auto simp: route_message_def split: option.split)
next
  case (Some meth)
  with assms(1) reading show ?thesis
    unfolding conn_inv_def by (auto simp: route_message_def answer_server_def split: option.split)
qed

lemma inv_line: "conn_inv parse f64_int ls c \<Longrightarrow> cn_reader c = Reading \<Longrightarrow> conn_inv parse f64_int (ls @ [line]) (read_line parse f64_int ok line c)"
  by (auto simp: read_line_def inv_more split: option.split intro!: inv_route)

lemma stdio_inv: "stdio_reach parse f64_int ls c \<Longrightarrow> conn_inv parse f64_int ls c"
proof (induction rule: stdio_reach.induct)
  case (start stale)
  then show ?case by (simp add: conn_inv_def fresh_conn_def phase_of_def)
qed (simp_all add: inv_begin inv_write inv_check inv_receive inv_expire inv_line inv_end)

text \<open>C25: However requests and the reader interleave, a request only ever returns the response to its own id, one that is
  not a request of the server; it reports the child gone only when the child is; and once the child is gone, no request
  waits any longer.\<close>

theorem replies_reach_their_request:
  assumes "stdio_reach parse f64_int ls c"
  shows "(\<forall>i v. phase_of c i = Some (Done (Replied v)) \<longrightarrow> routed parse f64_int ls i v) \<and>
    (\<forall>i. phase_of c i = Some (Done Closed) \<longrightarrow> cn_dead c) \<and>
    (\<forall>i meth. cn_reader c = Drained \<and> phase_of c i = Some (Waiting meth) \<longrightarrow> (\<exists>out. phase_of (receive i c) i = Some (Done out)))"
proof -
  note inv = stdio_inv [OF assms, unfolded conn_inv_def]
  have "\<exists>out. phase_of (receive i c) i = Some (Done out)"
    if "cn_reader c = Drained" "phase_of c i = Some (Waiting meth)" for i meth
    using inv that by (auto simp: receive_def split: option.split)
  with inv show ?thesis by blast
qed

definition pong :: "string \<Rightarrow> json option" where
  "pong line = (if line = ''answer'' then Some (JObj [(''id'', jnat 1), (''result'', JBool True)]) else None)"

definition answered_conn :: conn where
  "answered_conn = receive 1 (check_alive 1 (read_line pong (\<lambda>_. None) True ''answer''
     (write_request 1 None (begin_request ''0'' False ''tools/list'' (JObj []) (fresh_conn False)))))"

lemma answered_reach: "stdio_reach pong (\<lambda>_. None) [''answer''] answered_conn"
  unfolding answered_conn_def
  by (intro receive_step check_step)
    (rule line_step [where ls = "[]", simplified], (intro write_step begin_step start),
      simp add: write_request_def begin_request_def fresh_conn_def phase_of_def at_phase_def)

theorem replies_reach_their_request_witness:
  "phase_of answered_conn 1 = Some (Done (Replied (JObj [(''id'', jnat 1), (''result'', JBool True)]))) \<and>
   routed pong (\<lambda>_. None) [''answer''] 1 (JObj [(''id'', jnat 1), (''result'', JBool True)])"
proof -
  have "phase_of answered_conn 1 = Some (Done (Replied (JObj [(''id'', jnat 1), (''result'', JBool True)])))"
    by code_simp
  with replies_reach_their_request [OF answered_reach] show ?thesis by blast
qed

text \<open>The check for a dead connection comes before the wait, so a response that arrived before the child left is lost.\<close>

definition lost_conn :: conn where
  "lost_conn = check_alive 1 (end_reading (end_reading (read_line pong (\<lambda>_. None) True ''answer''
     (write_request 1 None (begin_request ''0'' False ''tools/call'' (JObj []) (fresh_conn False))))))"

lemma answer_lost:
  "stdio_reach pong (\<lambda>_. None) [''answer''] lost_conn \<and> phase_of lost_conn 1 = Some (Done Closed) \<and>
   map_of (cn_mailbox lost_conn) 1 = Some (JObj [(''id'', jnat 1), (''result'', JBool True)])"
proof -
  have "stdio_reach pong (\<lambda>_. None) [''answer''] lost_conn"
    unfolding lost_conn_def
    by (intro check_step end_step)
      (rule line_step [where ls = "[]", simplified], (intro write_step begin_step start),
        simp add: write_request_def begin_request_def fresh_conn_def phase_of_def at_phase_def)
  moreover have "phase_of lost_conn 1 = Some (Done Closed) \<and>
      map_of (cn_mailbox lost_conn) 1 = Some (JObj [(''id'', jnat 1), (''result'', JBool True)])"
    by code_simp
  ultimately show ?thesis by blast
qed

section \<open>Starting and restarting\<close>

definition protocol_version :: string where
  "protocol_version = ''2025-11-25''"

definition negotiated_version :: "json \<Rightarrow> string" where
  "negotiated_version result = (case Option.bind (vget result ''protocolVersion'') as_str of Some v \<Rightarrow> v | None \<Rightarrow> protocol_version)"

definition initialize_params :: "string \<Rightarrow> json" where
  "initialize_params version = JObj
     [(''protocolVersion'', JStr protocol_version), (''capabilities'', JObj []),
      (''clientInfo'', JObj [(''name'', JStr ''min-mcp''), (''version'', JStr version)])]"

text \<open>What a start comes to: the era, whether a crashed child was started again, and whether the handshake follows.\<close>

definition spawn_plan :: "string \<Rightarrow> era option \<Rightarrow> rpc_failure + json \<Rightarrow> bool \<Rightarrow> string + era \<times> bool \<times> bool" where
  "spawn_plan name known probe dead =
     (case (case known of Some e \<Rightarrow> Inr e | None \<Rightarrow> classify_probe name probe) of
        Inl e \<Rightarrow> Inl e
      | Inr e \<Rightarrow> Inr (e, e = Legacy \<and> dead, e = Legacy))"

definition min_respawn_interval :: nat where
  "min_respawn_interval = 10 ^ 9"

definition respawn_attempt :: "nat \<Rightarrow> nat \<Rightarrow> bool \<times> nat" where
  "respawn_attempt last_spawn now = (if now - last_spawn < min_respawn_interval then (False, last_spawn) else (True, now))"

datatype connection = Live | Respawn | CrashLoop nat

definition connection_for :: "bool \<Rightarrow> nat \<Rightarrow> nat \<Rightarrow> connection \<times> nat" where
  "connection_for live last_spawn now =
     (if live then (Live, last_spawn)
      else case respawn_attempt last_spawn now of
          (True, t) \<Rightarrow> (Respawn, t)
        | (False, t) \<Rightarrow> (CrashLoop (now - last_spawn), t))"

interpretation respawns: attempt_gate respawn_attempt Some min_respawn_interval
  by unfold_locales (auto simp: respawn_attempt_def min_respawn_interval_def split: if_splits)

text \<open>However often a crashing child is called, starts are at least a second apart.\<close>

lemma no_fork_storm: "spaced min_respawn_interval (gate_run respawn_attempt last_spawn calls)"
  using respawns.run_spaced by blast

section \<open>Listings\<close>

definition cursor_params :: "string option \<Rightarrow> json" where
  "cursor_params cursor = (case cursor of Some c \<Rightarrow> JObj [(''cursor'', JStr c)] | None \<Rightarrow> JObj [])"

definition prompt_params :: "string \<Rightarrow> json \<Rightarrow> json" where
  "prompt_params name arguments =
     (if is_null arguments then JObj [(''name'', JStr name)] else JObj [(''name'', JStr name), (''arguments'', arguments)])"

definition call_params :: "string \<Rightarrow> json \<Rightarrow> json" where
  "call_params name arguments = JObj [(''name'', JStr name), (''arguments'', arguments)]"

definition list_max_pages :: nat where
  "list_max_pages = 1000"

text \<open>\<open>rpc\<close> sends one request; \<open>pages\<close> is how many more may be asked for.\<close>

fun tool_pages ::
  "(string \<Rightarrow> json \<Rightarrow> 'w \<Rightarrow> (rpc_failure + json) \<times> 'w) \<Rightarrow> string \<Rightarrow> nat \<Rightarrow> nat \<Rightarrow> string option \<Rightarrow> tool_def list \<Rightarrow> 'w \<Rightarrow>
   (rpc_failure + tool_def list) \<times> 'w" where
  "tool_pages rpc name idx 0 cursor acc w = (Inr acc, w)"
| "tool_pages rpc name idx (Suc pages) cursor acc w =
     (case rpc ''tools/list'' (cursor_params cursor) w of
        (Inl e, w) \<Rightarrow> (Inl e, w)
      | (Inr result, w) \<Rightarrow>
          (case push_tools_page result name idx acc of
             (acc, next) \<Rightarrow> if next = None \<or> next = cursor then (Inr acc, w) else tool_pages rpc name idx pages next acc w))"

definition list_tools_ttl ::
  "(string \<Rightarrow> json \<Rightarrow> 'w \<Rightarrow> (rpc_failure + json) \<times> 'w) \<Rightarrow> string \<Rightarrow> nat \<Rightarrow> 'w \<Rightarrow> (rpc_failure + tool_def list \<times> nat option) \<times> 'w" where
  "list_tools_ttl rpc name idx w =
     (case rpc ''tools/list'' (cursor_params None) w of
        (Inl e, w) \<Rightarrow> (Inl e, w)
      | (Inr result, w) \<Rightarrow>
          (let ttl = Option.bind (vget result ''ttlMs'') as_u64 in
           case push_tools_page result name idx [] of
             (acc, next) \<Rightarrow>
               if next = None then (Inr (acc, ttl), w)
               else (case tool_pages rpc name idx (list_max_pages - 1) next acc w of
                   (r, w) \<Rightarrow> (map_sum id (\<lambda>acc. (acc, ttl)) r, w))))"

fun passthrough_pages ::
  "(string \<Rightarrow> json \<Rightarrow> 'w \<Rightarrow> (rpc_failure + json) \<times> 'w) \<Rightarrow> string \<Rightarrow> string \<Rightarrow> nat \<Rightarrow> string option \<Rightarrow> json list \<Rightarrow> 'w \<Rightarrow> json list \<times> 'w" where
  "passthrough_pages rpc meth key 0 cursor out w = (out, w)"
| "passthrough_pages rpc meth key (Suc pages) cursor out w =
     (case rpc meth (cursor_params cursor) w of
        (Inl _, w) \<Rightarrow> (out, w)
      | (Inr r, w) \<Rightarrow>
          (let out = out @ (case Option.bind (vget r key) as_array of Some a \<Rightarrow> a | None \<Rightarrow> []);
               next = Option.bind (vget r ''nextCursor'') as_str
           in if next = None \<or> next = cursor then (out, w) else passthrough_pages rpc meth key pages next out w))"

definition mcp_list_passthrough :: "(string \<Rightarrow> json \<Rightarrow> 'w \<Rightarrow> (rpc_failure + json) \<times> 'w) \<Rightarrow> string \<Rightarrow> string \<Rightarrow> 'w \<Rightarrow> json list \<times> 'w" where
  "mcp_list_passthrough rpc meth key w = passthrough_pages rpc meth key list_max_pages None [] w"

text \<open>A server that records what it is asked, and answers anything.\<close>

definition recorded :: "(nat \<Rightarrow> rpc_failure + json) \<Rightarrow> string \<Rightarrow> json \<Rightarrow> json list \<Rightarrow> (rpc_failure + json) \<times> json list" where
  "recorded answer meth params asked = (answer (length asked), asked @ [params])"

lemma tool_pages_bounded:
  "length (snd (tool_pages (recorded answer) name idx pages cursor acc asked)) \<le> length asked + pages"
  by (induction "recorded answer" name idx pages cursor acc asked rule: tool_pages.induct)
    (auto simp: recorded_def split: prod.split sum.split)

lemma passthrough_pages_bounded:
  "length (snd (passthrough_pages (recorded answer) meth key pages cursor out asked)) \<le> length asked + pages"
  by (induction "recorded answer" meth key pages cursor out asked rule: passthrough_pages.induct)
    (auto simp: recorded_def Let_def split: prod.split sum.split)

text \<open>Whatever cursors a server returns, one listing asks it for at most 1000 pages and then returns.\<close>

theorem listing_bounded:
  "length (snd (list_tools_ttl (recorded answer) name idx [])) \<le> list_max_pages \<and>
   length (snd (mcp_list_passthrough (recorded answer) meth key [])) \<le> list_max_pages"
proof -
  have "length (snd (tool_pages (recorded answer) name idx (list_max_pages - 1) cursor acc [p])) \<le> list_max_pages" for cursor acc p
    using tool_pages_bounded [of answer name idx "list_max_pages - 1" cursor acc "[p]"] by (simp add: list_max_pages_def)
  then show ?thesis
    using passthrough_pages_bounded [of answer meth key list_max_pages None "[]" "[]"]
    by (auto simp: list_tools_ttl_def mcp_list_passthrough_def recorded_def Let_def list_max_pages_def split: sum.split prod.split)
      (metis snd_conv)+
qed

end
