(* ===== verification/HttpClient.thy ===== *)
theory HttpClient
  imports Stdio
begin

text \<open>
  The client of a remote MCP server (\<open>src/src/http_upstream.rs\<close>): the body cap, the response in an event stream, the
  headers of a request in either era, the session with its one re-handshake, and the headers learnt from a listing. What
  is sent goes through \<open>send\<close>; \<open>lossy\<close> is the lossy UTF-8 reading of bytes, \<open>token\<close> the OAuth bearer.
\<close>

section \<open>Bodies\<close>

definition max_response_bytes :: nat where
  "max_response_bytes = 32 * 1024 * 1024"

definition too_big :: "nat \<Rightarrow> string" where
  "too_big cap = ''response exceeds the '' @ show_nat (cap div (1024 * 1024)) @ '' MiB limit''"

fun read_chunks :: "nat \<Rightarrow> string \<Rightarrow> (string + string) list \<Rightarrow> string + string" where
  "read_chunks cap buf [] = Inr buf"
| "read_chunks cap buf (Inl e # cs) = Inl e"
| "read_chunks cap buf (Inr c # cs) = (if cap < length buf + length c then Inl (too_big cap) else read_chunks cap (buf @ c) cs)"

definition read_capped :: "(string \<Rightarrow> string) \<Rightarrow> nat \<Rightarrow> nat option \<Rightarrow> (string + string) list \<Rightarrow> string + string" where
  "read_capped lossy cap declared chunks =
     (if (case declared of Some n \<Rightarrow> cap < n | None \<Rightarrow> False) then Inl (too_big cap)
      else map_sum id lossy (read_chunks cap [] chunks))"

definition trim_start :: "string \<Rightarrow> string" where
  "trim_start s = concat (dropWhile is_whitespace (utf8_chars s))"

section \<open>Event streams\<close>

text \<open>A frame's message, if it is the response; the fallback is the first message with a result or an error.\<close>

definition frame_match :: "(string \<Rightarrow> json option) \<Rightarrow> (string \<Rightarrow> int option) \<Rightarrow> int \<Rightarrow> string \<Rightarrow> json option \<Rightarrow> json option \<times> json option" where
  "frame_match parse f64_int want payload fallback =
     (case parse payload of
        None \<Rightarrow> (None, fallback)
      | Some v \<Rightarrow>
          if response_id f64_int v = Some want then (Some v, fallback)
          else (None, if fallback = None \<and> (vget v ''result'' \<noteq> None \<or> vget v ''error'' \<noteq> None) then Some v else fallback))"

fun sse_scan :: "(string \<Rightarrow> json option) \<Rightarrow> (string \<Rightarrow> int option) \<Rightarrow> int \<Rightarrow> string \<Rightarrow> json option \<Rightarrow> string list \<Rightarrow> json option" where
  "sse_scan parse f64_int want payload fallback [] =
     (if payload = [] then fallback
      else case frame_match parse f64_int want payload fallback of (Some v, _) \<Rightarrow> Some v | (None, fallback) \<Rightarrow> fallback)"
| "sse_scan parse f64_int want payload fallback (line # lines) =
     (case strip_prefix ''data:'' line of
        Some rest \<Rightarrow> sse_scan parse f64_int want ((if payload = [] then [] else payload @ [CHR 0x0A]) @ trim_start rest) fallback lines
      | None \<Rightarrow>
          if trim line = [] \<and> payload \<noteq> [] then
            (case frame_match parse f64_int want payload fallback of
               (Some v, _) \<Rightarrow> Some v
             | (None, fallback) \<Rightarrow> sse_scan parse f64_int want [] fallback lines)
          else sse_scan parse f64_int want payload fallback lines)"

definition sse_response :: "(string \<Rightarrow> json option) \<Rightarrow> (string \<Rightarrow> int option) \<Rightarrow> string \<Rightarrow> int \<Rightarrow> string + json" where
  "sse_response parse f64_int body want = (case sse_scan parse f64_int want [] None (str_lines body) of
       Some v \<Rightarrow> Inr v | None \<Rightarrow> Inl ''no JSON-RPC response found in SSE stream'')"

section \<open>The client\<close>

text \<open>What is fixed at connect, and what changes.\<close>

record http_setup =
  hs_name :: string
  hs_url :: string
  hs_headers :: "(string \<times> string) list"
  hs_package :: string

record http_client =
  hu_session :: "string option"
  hu_version :: string
  hu_next :: int
  hu_stale :: bool
  hu_modern :: bool
  hu_params :: "(string \<times> param_header list) list"

definition new_client :: http_client where
  "new_client = \<lparr>hu_session = None, hu_version = protocol_version, hu_next = 0, hu_stale = False, hu_modern = True, hu_params = []\<rparr>"

text \<open>What the wire gives for a request: its deadline passing, an error, or a response with its status, its session header
  if readable, its content type if readable, and its body as read under the cap.\<close>

datatype wire = WireTimeout string | WireFailed string | WireResponse nat "string option" "string option" "string + string"

record 'w http_ops =
  ho_parse :: "string \<Rightarrow> json option"
  ho_f64 :: "string \<Rightarrow> int option"
  ho_b64 :: "string \<Rightarrow> string"
  ho_ser :: "json \<Rightarrow> string"
  ho_send :: "(string \<times> string) list \<Rightarrow> json \<Rightarrow> nat option \<Rightarrow> 'w \<Rightarrow> wire \<times> 'w"
  ho_token :: "'w \<Rightarrow> (string + string option) \<times> 'w"
  ho_status :: "nat \<Rightarrow> string"

definition post_headers :: "'w http_ops \<Rightarrow> http_setup \<Rightarrow> http_client \<Rightarrow> json \<Rightarrow> (string \<times> string) list" where
  "post_headers ops su c body =
     [(''accept'', ''application/json, text/event-stream'')] @ hs_headers su @
     (if \<not> hu_modern c then
        [(''MCP-Protocol-Version'', hu_version c)] @ (case hu_session c of Some sid \<Rightarrow> [(''Mcp-Session-Id'', sid)] | None \<Rightarrow> [])
      else
        (let meth = str_or_empty (vget body ''method'');
             params = (case vget body ''params'' of Some p \<Rightarrow> p | None \<Rightarrow> JNull)
         in [(''MCP-Protocol-Version'', modern_version), (''Mcp-Method'', meth)] @
            (case request_name meth params of
               None \<Rightarrow> []
             | Some name \<Rightarrow> [(''Mcp-Name'', header_value (ho_b64 ops) name)] @
                 (if meth = ''tools/call'' then
                    (case map_of (hu_params c) name of
                       Some marked \<Rightarrow> param_values (ho_b64 ops) marked (case vget params ''arguments'' of Some a \<Rightarrow> a | None \<Rightarrow> JNull)
                     | None \<Rightarrow> [])
                  else []))))"

definition bearer_header :: "string option \<Rightarrow> (string \<times> string) list" where
  "bearer_header b = (case b of Some t \<Rightarrow> [(''authorization'', ''Bearer '' @ t)] | None \<Rightarrow> [])"

text \<open>How a request can fail, the lost session kept apart.\<close>

datatype http_failure = SessionExpired | Failed rpc_failure

definition not_found_status :: nat where
  "not_found_status = 404"

definition http_ok :: "nat \<Rightarrow> bool" where
  "http_ok status \<longleftrightarrow> 200 \<le> status \<and> status < 300"

text \<open>What a response comes to, given its body as text.\<close>

definition reply_result :: "'w http_ops \<Rightarrow> http_setup \<Rightarrow> string \<Rightarrow> int \<Rightarrow> bool \<Rightarrow> bool \<Rightarrow> nat \<Rightarrow> string \<Rightarrow> http_failure + json" where
  "reply_result ops su meth i had_session is_sse status body =
     (if status = not_found_status \<and> had_session \<and> meth \<noteq> ''initialize'' then Inl SessionExpired
      else if \<not> http_ok status then
        (case Option.bind (ho_parse ops body) (\<lambda>v. vget v ''error'') of
           Some e \<Rightarrow> Inl (Failed (RpcReply e))
         | None \<Rightarrow> Inl (Failed (OtherFailure (''upstream '' @ hs_name su @ '' returned HTTP '' @ ho_status ops status @ '' on '' @ meth @ '': '' @ trim body))))
      else
        (case (if is_sse then sse_response (ho_parse ops) (ho_f64 ops) body i
               else (case ho_parse ops body of Some v \<Rightarrow> Inr v
                 | None \<Rightarrow> Inl (''upstream '' @ hs_name su @ '' sent non-JSON on '' @ meth))) of
           Inl e \<Rightarrow> Inl (Failed (OtherFailure e))
         | Inr msg \<Rightarrow> map_sum (Failed \<circ> RpcReply) id (message_outcome msg)))"

definition is_event_stream :: "string option \<Rightarrow> bool" where
  "is_event_stream ct \<longleftrightarrow> (case ct of Some ct \<Rightarrow> contains_str ''text/event-stream'' ct | None \<Rightarrow> False)"

definition stamp_frame :: "int \<Rightarrow> json \<Rightarrow> json" where
  "stamp_frame i frame = (case frame of JObj m \<Rightarrow> JObj (jput ''id'' (jint i) m) | _ \<Rightarrow> frame)"

definition learn_session :: "string option \<Rightarrow> http_client \<Rightarrow> http_client" where
  "learn_session sid c = (case sid of Some s \<Rightarrow> if hu_modern c then c else c\<lparr>hu_session := Some s\<rparr> | None \<Rightarrow> c)"

definition note_stale :: "bool \<Rightarrow> string \<Rightarrow> http_client \<Rightarrow> http_client" where
  "note_stale is_sse body c =
     (if is_sse \<and> contains_str ''notifications/tools/list_changed'' body then c\<lparr>hu_stale := True\<rparr> else c)"

definition request_once ::
  "'w http_ops \<Rightarrow> http_setup \<Rightarrow> string \<Rightarrow> json \<Rightarrow> nat option \<Rightarrow> 'w \<times> http_client \<Rightarrow> (http_failure + json) \<times> 'w \<times> http_client" where
  "request_once ops su meth frame deadline = (\<lambda>(w, c).
     (let i = hu_next c + 1; c = c\<lparr>hu_next := i\<rparr>; frame = stamp_frame i frame in
      case ho_token ops w of
        (Inl e, w) \<Rightarrow> (Inl (Failed (OtherFailure e)), w, c)
      | (Inr bearer, w) \<Rightarrow>
          (case ho_send ops (post_headers ops su c frame @ bearer_header bearer) frame deadline w of
             (WireTimeout e, w) \<Rightarrow> (case deadline of
                 Some secs \<Rightarrow> (Inl (Failed (DeadlinePassed secs)), w, c)
               | None \<Rightarrow> (Inl (Failed (OtherFailure (''POST '' @ meth @ '' to '' @ hs_url su @ '': '' @ e))), w, c))
           | (WireFailed e, w) \<Rightarrow> (Inl (Failed (OtherFailure (''POST '' @ meth @ '' to '' @ hs_url su @ '': '' @ e))), w, c)
           | (WireResponse status sid ct body, w) \<Rightarrow>
               (let had_session = hu_session c \<noteq> None; c = learn_session sid c; is_sse = is_event_stream ct in
                case body of
                  Inl e \<Rightarrow> (Inl (Failed (OtherFailure (''reading upstream '' @ hs_name su @ [CHR 0x27] @ ''s reply to '' @ meth @ '': '' @ e))), w, c)
                | Inr body \<Rightarrow>
                    (let r = reply_result ops su meth i had_session is_sse status body in
                     (r, w, if (status = not_found_status \<and> had_session \<and> meth \<noteq> ''initialize'') \<or> \<not> http_ok status then c
                       else note_stale is_sse body c))))))"

definition notify :: "'w http_ops \<Rightarrow> http_setup \<Rightarrow> string \<Rightarrow> json \<Rightarrow> 'w \<times> http_client \<Rightarrow> (http_failure + unit) \<times> 'w \<times> http_client" where
  "notify ops su meth params = (\<lambda>(w, c).
     (case ho_token ops w of
        (Inl e, w) \<Rightarrow> (Inl (Failed (OtherFailure e)), w, c)
      | (Inr bearer, w) \<Rightarrow>
          (let body = JObj [(''jsonrpc'', JStr ''2.0''), (''method'', JStr meth), (''params'', params)] in
           case ho_send ops (post_headers ops su c body @ bearer_header bearer) body None w of
             (WireResponse status _ _ _, w) \<Rightarrow>
               if http_ok status then (Inr (), w, c)
               else (Inl (Failed (OtherFailure (''upstream '' @ hs_name su @ '' rejected notification '' @ meth @ '': HTTP '' @ ho_status ops status))), w, c)
           | (WireTimeout e, w) \<Rightarrow> (Inl (Failed (OtherFailure (''POST notification '' @ meth @ '' to '' @ hs_url su @ '': '' @ e))), w, c)
           | (WireFailed e, w) \<Rightarrow> (Inl (Failed (OtherFailure (''POST notification '' @ meth @ '' to '' @ hs_url su @ '': '' @ e))), w, c))))"

definition frame_for :: "string \<Rightarrow> json \<Rightarrow> json" where
  "frame_for meth params = JObj [(''jsonrpc'', JStr ''2.0''), (''id'', jint 0), (''method'', JStr meth), (''params'', params)]"

definition forget_session :: "http_client \<Rightarrow> http_client" where
  "forget_session c = c\<lparr>hu_session := None, hu_version := protocol_version\<rparr>"

definition initialize :: "'w http_ops \<Rightarrow> http_setup \<Rightarrow> 'w \<times> http_client \<Rightarrow> (http_failure + unit) \<times> 'w \<times> http_client" where
  "initialize ops su = (\<lambda>(w, c).
     (case request_once ops su ''initialize'' (frame_for ''initialize'' (initialize_params (hs_package su))) None (w, forget_session c) of
        (Inl e, w, c) \<Rightarrow> (Inl e, w, c)
      | (Inr result, w, c) \<Rightarrow>
          notify ops su ''notifications/initialized'' (JObj []) (w, c\<lparr>hu_version := negotiated_version result\<rparr>)))"

text \<open>After a lost session; \<open>now_seen\<close> is what the session is once the flight is ours.\<close>

definition reinitialize :: "'w http_ops \<Rightarrow> http_setup \<Rightarrow> string option \<Rightarrow> 'w \<times> http_client \<Rightarrow> (http_failure + unit) \<times> 'w \<times> http_client" where
  "reinitialize ops su seen = (\<lambda>(w, c). if hu_session c \<noteq> seen then (Inr (), w, c) else initialize ops su (w, c))"

definition request_deadline ::
  "'w http_ops \<Rightarrow> http_setup \<Rightarrow> string \<Rightarrow> json \<Rightarrow> nat option \<Rightarrow> 'w \<times> http_client \<Rightarrow> (http_failure + json) \<times> 'w \<times> http_client" where
  "request_deadline ops su meth params deadline = (\<lambda>(w, c).
     (let frame = frame_for meth (if hu_modern c then with_meta (hs_package su) params else params); seen = hu_session c in
      case request_once ops su meth frame deadline (w, c) of
        (Inl SessionExpired, s) \<Rightarrow> (case reinitialize ops su seen s of
            (Inl e, s) \<Rightarrow> (Inl e, s)
          | (Inr _, s) \<Rightarrow> request_once ops su meth frame deadline s)
      | r \<Rightarrow> r))"

definition learn_params :: "(string \<times> param_header list) list \<Rightarrow> http_client \<Rightarrow> http_client" where
  "learn_params hs c = c\<lparr>hu_params := fold (\<lambda>(n, ps). alist_put n ps) hs (hu_params c)\<rparr>"

definition http_rpc ::
  "'w http_ops \<Rightarrow> http_setup \<Rightarrow> string \<Rightarrow> json \<Rightarrow> nat option \<Rightarrow> 'w \<times> http_client \<Rightarrow> (http_failure + json) \<times> 'w \<times> http_client" where
  "http_rpc ops su meth params deadline s =
     (case request_deadline ops su meth params deadline s of
        (Inl e, s) \<Rightarrow> (Inl e, s)
      | (Inr result, w, c) \<Rightarrow>
          if \<not> hu_modern c then (Inr result, w, c)
          else (case ensure_complete (hs_name su) meth result of
              Inl e \<Rightarrow> (Inl (Failed (OtherFailure e)), w, c)
            | Inr _ \<Rightarrow>
                if meth = ''tools/list'' then
                  (case admit_tools (ho_ser ops) result of (hs, result) \<Rightarrow> (Inr result, w, learn_params hs c))
                else (Inr result, w, c)))"

definition plain_failure :: "http_failure \<Rightarrow> rpc_failure" where
  "plain_failure e = (case e of Failed f \<Rightarrow> f | SessionExpired \<Rightarrow> OtherFailure ''MCP session expired upstream (HTTP 404)'')"

definition probe_timeout_s :: nat where
  "probe_timeout_s = 10"

datatype connect_error = UnknownVersions string | NotInitialized http_failure

definition http_connect :: "'w http_ops \<Rightarrow> http_setup \<Rightarrow> 'w \<Rightarrow> (connect_error + http_client) \<times> 'w" where
  "http_connect ops su w =
     (case request_deadline ops su ''server/discover'' (JObj []) (Some probe_timeout_s) (w, new_client) of
        (probe, w, c) \<Rightarrow>
          (case classify_probe (hs_name su) (map_sum plain_failure id probe) of
             Inl e \<Rightarrow> (Inl (UnknownVersions e), w)
           | Inr e \<Rightarrow>
               (let c = c\<lparr>hu_modern := (e = Modern)\<rparr> in
                if e = Legacy then
                  (case initialize ops su (w, c) of
                     (Inl e, w, c) \<Rightarrow> (Inl (NotInitialized e), w)
                   | (Inr _, w, c) \<Rightarrow> (Inr c, w))
                else (Inr c, w))))"

section \<open>Bounds on what is read\<close>

lemma read_chunks_bound: "length buf \<le> cap \<Longrightarrow> read_chunks cap buf cs = Inr out \<Longrightarrow>
    length out \<le> cap \<and> (\<exists>parts. cs = map Inr parts \<and> out = buf @ concat parts)"
proof (induction cap buf cs rule: read_chunks.induct)
  case (3 cap buf c cs)
  then have small: "length buf + length c \<le> cap" and more: "read_chunks cap (buf @ c) cs = Inr out"
    by (auto split: if_splits)
  then obtain parts where "length out \<le> cap" "cs = map Inr parts" "out = (buf @ c) @ concat parts"
    using 3 by auto
  then show ?case by (intro conjI exI [of _ "c # parts"]) auto
qed auto

text \<open>Reading the whole of a body within the cap, or refusing.\<close>

lemma read_capped_whole:
  "read_capped lossy cap declared chunks = Inr body \<Longrightarrow>
   \<exists>parts. chunks = map Inr parts \<and> body = lossy (concat parts) \<and> length (concat parts) \<le> cap"
  using read_chunks_bound [of "[]" cap chunks]
  by (cases "read_chunks cap [] chunks") (auto simp: read_capped_def split: if_splits)

section \<open>One recovery of a session\<close>

text \<open>A wire that records the method of every request, and answers anything.\<close>

definition wire_ops :: "'w http_ops \<Rightarrow> (nat \<Rightarrow> wire) \<Rightarrow> (nat \<Rightarrow> string + string option) \<Rightarrow> string list http_ops" where
  "wire_ops ops answer token =
     \<lparr>ho_parse = ho_parse ops, ho_f64 = ho_f64 ops, ho_b64 = ho_b64 ops, ho_ser = ho_ser ops,
      ho_send = (\<lambda>_ body _ sent. (answer (length sent), sent @ [str_or_empty (vget body ''method'')])),
      ho_token = (\<lambda>sent. (token (length sent), sent)), ho_status = ho_status ops\<rparr>"

lemma frame_method: "str_or_empty (vget (stamp_frame i (frame_for meth params)) ''method'') = meth"
  by (simp add: stamp_frame_def frame_for_def str_or_empty_def) (simp add: jget_def)

lemma message_not_expired: "map_sum (Failed \<circ> RpcReply) id (message_outcome msg) \<noteq> Inl SessionExpired"
  by (cases "message_outcome msg") simp_all

lemma reply_not_expired:
  "reply_result ops su meth i had is_sse status body = Inl SessionExpired \<Longrightarrow> status = not_found_status \<and> had"
  by (auto simp: reply_result_def message_not_expired split: if_splits option.splits sum.splits)

lemma once_sends:
  assumes "request_once (wire_ops ops answer token) su meth (frame_for meth params) deadline (sent, c) = (r, sent', c')"
  shows "(sent' = sent \<or> sent' = sent @ [meth]) \<and>
    (r = Inl SessionExpired \<longrightarrow> sent' = sent @ [meth] \<and> hu_session c \<noteq> None \<and>
       (\<exists>sid ct body. answer (length sent) = WireResponse not_found_status sid ct body))"
proof (cases "token (length sent)")
  case (Inl e)
  with assms show ?thesis by (auto simp: request_once_def wire_ops_def Let_def)
next
  case (Inr bearer)
  with assms show ?thesis
    by (cases "answer (length sent)")
      (auto simp: request_once_def wire_ops_def Let_def frame_method split: option.splits sum.splits dest: reply_not_expired)
qed

lemma notify_sends:
  assumes "notify (wire_ops ops answer token) su meth params (sent, c) = (r, sent', c')"
  shows "sent' = sent \<or> sent' = sent @ [meth]"
proof (cases "token (length sent)")
  case (Inl e)
  with assms show ?thesis by (auto simp: notify_def wire_ops_def Let_def)
next
  case (Inr bearer)
  with assms show ?thesis
    by (cases "answer (length sent)") (auto simp: notify_def wire_ops_def Let_def str_or_empty_def jget_def split: if_splits)
qed

lemma initialize_sends:
  assumes "initialize (wire_ops ops answer token) su (sent, c) = (r, sent', c')"
  shows "\<exists>extra \<in> {[], [''initialize''], [''notifications/initialized''], [''initialize'', ''notifications/initialized'']}. sent' = sent @ extra"
proof -
  obtain r1 sent1 c1 where once: "request_once (wire_ops ops answer token) su ''initialize''
      (frame_for ''initialize'' (initialize_params (hs_package su))) None (sent, forget_session c) = (r1, sent1, c1)"
    by (metis prod.exhaust)
  note first = once_sends [OF once]
  show ?thesis
  proof (cases r1)
    case (Inl e)
    with assms once first show ?thesis by (auto simp: initialize_def)
  next
    case (Inr result)
    then have "notify (wire_ops ops answer token) su ''notifications/initialized'' (JObj [])
        (sent1, c1\<lparr>hu_version := negotiated_version result\<rparr>) = (r, sent', c')"
      using assms once by (simp add: initialize_def)
    from notify_sends [OF this] first show ?thesis by auto
  qed
qed

text \<open>C26: A request is put on the wire a second time only when the server answered the first one with 404 while a session was
  in use, never a third time, and with at most one re-handshake in between.\<close>

theorem resent_only_without_session:
  assumes run: "request_deadline (wire_ops ops answer token) su meth params deadline ([], c) = (r, sent, c')"
    and meth: "meth \<noteq> ''initialize''" "meth \<noteq> ''notifications/initialized''"
  shows "length sent \<le> 4 \<and> count_list sent meth \<le> 2 \<and> count_list sent ''initialize'' \<le> 1 \<and>
    (count_list sent meth = 2 \<longrightarrow> hu_session c \<noteq> None \<and> (\<exists>sid ct body. answer 0 = WireResponse not_found_status sid ct body))"
proof -
  define params' where "params' = (if hu_modern c then with_meta (hs_package su) params else params)"
  obtain r1 sent1 c1 where once: "request_once (wire_ops ops answer token) su meth (frame_for meth params') deadline ([], c) = (r1, sent1, c1)"
    by (metis prod.exhaust)
  note first = once_sends [OF once, simplified]
  show ?thesis
  proof (cases "r1 = Inl SessionExpired")
    case False
    with run once have "sent = sent1"
      by (auto simp: request_deadline_def params'_def Let_def split: sum.splits http_failure.splits)
    with first False meth show ?thesis by auto
  next
    case True
    with first have sent1: "sent1 = [meth]" and lost: "hu_session c \<noteq> None"
        "\<exists>sid ct body. answer 0 = WireResponse not_found_status sid ct body" by auto
    obtain r2 sent2 c2 where re: "reinitialize (wire_ops ops answer token) su (hu_session c) (sent1, c1) = (r2, sent2, c2)"
      by (metis prod.exhaust)
    have "\<exists>extra \<in> {[], [''initialize''], [''notifications/initialized''], [''initialize'', ''notifications/initialized'']}. sent2 = sent1 @ extra"
      using re initialize_sends [of ops answer token su sent1 c1] by (auto simp: reinitialize_def split: if_splits)
    with sent1 meth have sent2: "length sent2 \<le> 3" "count_list sent2 meth = 1" "count_list sent2 ''initialize'' \<le> 1"
      by auto
    show ?thesis
    proof (cases r2)
      case (Inl e)
      with run once True re have "sent = sent2"
        by (simp add: request_deadline_def params'_def Let_def)
      with sent2 lost show ?thesis by simp
    next
      case (Inr u)
      with run once True re have "request_once (wire_ops ops answer token) su meth (frame_for meth params') deadline (sent2, c2) = (r, sent, c')"
        by (simp add: request_deadline_def params'_def Let_def)
      from once_sends [OF this] sent2 lost meth show ?thesis by auto
    qed
  qed
qed

definition toy_http :: "unit http_ops" where
  "toy_http = \<lparr>ho_parse = (\<lambda>_. Some (JObj [(''result'', JNull)])), ho_f64 = (\<lambda>_. None), ho_b64 = (\<lambda>s. s), ho_ser = json_text,
     ho_send = (\<lambda>_ _ _ w. (WireFailed [], w)), ho_token = (\<lambda>w. (Inr None, w)), ho_status = show_nat\<rparr>"

definition toy_setup :: http_setup where
  "toy_setup = \<lparr>hs_name = ''r'', hs_url = ''u'', hs_headers = [], hs_package = ''0''\<rparr>"

definition toy_client :: http_client where
  "toy_client = new_client\<lparr>hu_modern := False, hu_session := Some ''s''\<rparr>"

definition toy_wire :: "nat \<Rightarrow> wire" where
  "toy_wire n = WireResponse (if n = 0 then 404 else 200) None None (Inr [])"

theorem resent_only_without_session_witness:
  "\<exists>sent r c. request_deadline (wire_ops toy_http toy_wire (\<lambda>_. Inr None)) toy_setup ''tools/call'' (JObj []) None ([], toy_client) = (r, sent, c) \<and>
     sent = [''tools/call'', ''initialize'', ''notifications/initialized'', ''tools/call''] \<and> count_list sent ''tools/call'' \<le> 2"
proof -
  obtain r sent c where run: "request_deadline (wire_ops toy_http toy_wire (\<lambda>_. Inr None)) toy_setup ''tools/call'' (JObj []) None
      ([], toy_client) = (r, sent, c)"
    by (metis prod.exhaust)
  moreover have "fst (snd (request_deadline (wire_ops toy_http toy_wire (\<lambda>_. Inr None)) toy_setup ''tools/call'' (JObj []) None ([], toy_client))) =
      [''tools/call'', ''initialize'', ''notifications/initialized'', ''tools/call'']"
    by code_simp
  ultimately show ?thesis
    using resent_only_without_session [OF run] by auto
qed

section \<open>What goes wrong\<close>

text \<open>A request of the server with the same id is taken for the response; the reader of the other client skips those.\<close>

definition ping_line :: "string \<Rightarrow> json option" where
  "ping_line s = (if s = ''ping'' then Some (JObj [(''id'', jnat 3), (''method'', JStr ''ping'')])
     else if s = ''answer'' then Some (JObj [(''id'', jnat 3), (''result'', JStr ''done'')]) else None)"

lemma sse_request_taken_for_reply:
  "sse_response ping_line (\<lambda>_. None) (''data: ping'' @ [CHR 0x0A, CHR 0x0A] @ ''data: answer'' @ [CHR 0x0A, CHR 0x0A]) 3 =
     Inr (JObj [(''id'', jnat 3), (''method'', JStr ''ping'')])"
  by code_simp

text \<open>A deadline that passes while the body is read is not reported as one.\<close>

lemma late_body_not_a_timeout:
  assumes "ho_token ops w = (Inr bearer, w1)"
    and "ho_send ops (post_headers ops su (c\<lparr>hu_next := hu_next c + 1\<rparr>) (stamp_frame (hu_next c + 1) frame) @ bearer_header bearer)
      (stamp_frame (hu_next c + 1) frame) (Some secs) w1 = (WireResponse 200 sid ct (Inl e), w2)"
  shows "\<exists>t. fst (request_once ops su meth frame (Some secs) (w, c)) = Inl (Failed (OtherFailure t))"
  using assms by (simp add: request_once_def Let_def)

text \<open>Parameters learnt from a listing outlive it: a later listing of the same tool without marks leaves them.\<close>

lemma marks_never_forgotten:
  "map_of (hu_params c) name = Some ps \<Longrightarrow> name \<notin> fst ` set hs \<Longrightarrow> map_of (hu_params (learn_params hs c)) name = Some ps"
proof -
  have "name \<notin> fst ` set hs \<Longrightarrow> map_of (fold (\<lambda>(n, ps). alist_put n ps) hs m) name = map_of m name" for m
    by (induction hs arbitrary: m) auto
  then show "map_of (hu_params c) name = Some ps \<Longrightarrow> name \<notin> fst ` set hs \<Longrightarrow> ?thesis"
    by (simp add: learn_params_def)
qed

end
