(* ===== verification/Secrets.thy ===== *)
theory Secrets
  imports Config JsonText Names Gates
begin

text \<open>
  Secret references (\<open>src/src/secrets.rs\<close>): templates and their pieces, the three schemes, the Vault client with its lazy
  connection and its one re-login, and the cache of Vault values. The environment, the files and Vault are operations on
  the world (\<open>secret_ops\<close>); an error is its chain of contexts, outermost first.
\<close>

section \<open>Templates\<close>

datatype piece = Lit string | Ref string

definition open_mark :: string where
  "open_mark = [CHR 0x24, CHR 0x7B]"

definition close_mark :: string where
  "close_mark = [CHR 0x7D]"

text \<open>\<open>rest\<close> shrinks with every reference taken off it.\<close>

function pieces_of :: "string \<Rightarrow> string \<Rightarrow> string + piece list" where
  "pieces_of template rest =
     (case find_str open_mark rest of
        None \<Rightarrow> Inr (if rest = [] then [] else [Lit rest])
      | Some start \<Rightarrow>
          (let after = drop (start + 2) rest in
           case find_str close_mark after of
             None \<Rightarrow> Inl (''unterminated '' @ open_mark @ ''...'' @ close_mark @ '' in '' @ debug_str template)
           | Some stop \<Rightarrow>
               map_sum id (\<lambda>ps. (if 0 < start then [Lit (take start rest)] else []) @ Ref (take stop after) # ps)
                 (pieces_of template (drop (stop + 1) after))))"
  by pat_completeness auto
termination
proof (relation "measure (\<lambda>(template, rest). length rest)")
  fix template rest start after stop
  assume found: "find_str open_mark rest = Some start" and after: "after = drop (start + 2) rest"
  from find_str_Some [OF found] have "2 \<le> length rest" by (simp add: open_mark_def)
  then show "((template, drop (stop + 1) after), template, rest) \<in> measure (\<lambda>(template, rest). length rest)"
    by (simp add: after)
qed simp

declare pieces_of.simps [simp del]

definition pieces :: "string \<Rightarrow> string + piece list" where
  "pieces template = pieces_of template template"

definition scheme_and_arg :: "string \<Rightarrow> string \<times> string" where
  "scheme_and_arg reference = (case split_once (CHR 0x3A) reference of Some (s, a) \<Rightarrow> (s, a) | None \<Rightarrow> (''env'', reference))"

section \<open>The environment and files\<close>

text \<open>A reference as the messages print it.\<close>

definition quoted_ref :: "string \<Rightarrow> string" where
  "quoted_ref reference = open_mark @ reference @ close_mark"

definition env_ref :: "(string \<Rightarrow> string option) \<Rightarrow> string \<Rightarrow> string \<Rightarrow> string + string" where
  "env_ref environ reference name = (case environ name of
       Some v \<Rightarrow> Inr v
     | None \<Rightarrow> Inl (''env var '' @ name @ '' referenced as '' @ quoted_ref reference @ '' in the config is not set''))"

definition trim_line_end :: "string \<Rightarrow> string" where
  "trim_line_end s = rev (dropWhile (\<lambda>c. c = CHR 0x0A \<or> c = CHR 0x0D) (rev s))"

definition file_ref :: "(string \<Rightarrow> string + string) \<Rightarrow> string \<Rightarrow> string \<Rightarrow> string + string" where
  "file_ref read_file reference path = (case read_file path of
       Inl e \<Rightarrow> Inl (''reading secret file '' @ path @ '' ('' @ quoted_ref reference @ ''): '' @ e)
     | Inr text_read \<Rightarrow> Inr (trim_line_end text_read))"

fun expand_env_pieces :: "(string \<Rightarrow> string option) \<Rightarrow> piece list \<Rightarrow> string + string" where
  "expand_env_pieces environ [] = Inr []"
| "expand_env_pieces environ (Lit s # ps) = map_sum id (\<lambda>out. s @ out) (expand_env_pieces environ ps)"
| "expand_env_pieces environ (Ref r # ps) =
     (let (scheme, name) = scheme_and_arg r in
      if scheme = ''env'' then
        (case env_ref environ r name of
           Inl e \<Rightarrow> Inl e
         | Inr v \<Rightarrow> map_sum id (\<lambda>out. v @ out) (expand_env_pieces environ ps))
      else Inl (quoted_ref r @ '': the '' @ scheme @ '' secret scheme is not available here (only env is)''))"

definition expand_env :: "(string \<Rightarrow> string option) \<Rightarrow> string \<Rightarrow> string + string" where
  "expand_env environ template = (case pieces template of Inl e \<Rightarrow> Inl e | Inr ps \<Rightarrow> expand_env_pieces environ ps)"

section \<open>Vault\<close>

datatype vault_login = AppRole string string string | Kubernetes string string string

text \<open>What the client library is set up with. Building it settles the token in effect, which may be empty; \<open>so_client\<close> gives
  the error of making a client, if any.\<close>

record vault_settings =
  vs_address :: "string option"
  vs_namespace :: "string option"
  vs_ca_certs :: "string list option"
  vs_token :: "string option"
  vs_timeout_s :: nat

record vault_client =
  vl_settings :: vault_settings
  vl_token :: string

record vault =
  vt_client :: vault_client
  vt_mount :: string
  vt_login :: "vault_login option"

text \<open>The library's errors: an answer with a status, or another failure.\<close>

datatype vault_error = ApiError nat string | VaultFailure string

fun vault_error_text :: "vault_error \<Rightarrow> string" where
  "vault_error_text (ApiError code e) = e"
| "vault_error_text (VaultFailure e) = e"

record 'w secret_ops =
  so_environ :: "string \<Rightarrow> string option"
  so_now :: "'w \<Rightarrow> nat"
  so_file :: "string \<Rightarrow> 'w \<Rightarrow> string + string"
  so_url :: "string \<Rightarrow> string option"
  so_build :: "vault_settings \<Rightarrow> string + string"
  so_client :: "vault_settings \<Rightarrow> string \<Rightarrow> string option"
  so_read :: "vault_client \<Rightarrow> string \<Rightarrow> string \<Rightarrow> 'w \<Rightarrow> (vault_error + (string \<times> json) list) \<times> 'w"
  so_approle :: "vault_client \<Rightarrow> string \<Rightarrow> string \<Rightarrow> string \<Rightarrow> 'w \<Rightarrow> (string + string) \<times> 'w"
  so_kubernetes :: "vault_client \<Rightarrow> string \<Rightarrow> string \<Rightarrow> string \<Rightarrow> 'w \<Rightarrow> (string + string) \<times> 'w"

text \<open>A login takes the place of the client's token, or leaves the client as it is.\<close>

definition logged_in :: "string \<Rightarrow> vault_client \<Rightarrow> (string + string) \<times> 'w \<Rightarrow> (string + vault_client) \<times> 'w" where
  "logged_in context_of client = (\<lambda>(r, w). case r of
       Inl e \<Rightarrow> (Inl (context_of @ '': '' @ e), w)
     | Inr token \<Rightarrow> (Inr (client\<lparr>vl_token := token\<rparr>), w))"

fun apply_login :: "'w secret_ops \<Rightarrow> vault_login \<Rightarrow> vault_client \<Rightarrow> 'w \<Rightarrow> (string + vault_client) \<times> 'w" where
  "apply_login ops (AppRole mount role_id secret_id) client w =
     logged_in ''Vault AppRole login'' client (so_approle ops client mount role_id secret_id w)"
| "apply_login ops (Kubernetes mount role jwt_path) client w =
     (case so_file ops jwt_path w of
        Inl e \<Rightarrow> (Inl (''reading the service-account JWT at '' @ jwt_path @ '': '' @ e), w)
      | Inr jwt \<Rightarrow> logged_in ''Vault Kubernetes login'' client (so_kubernetes ops client mount role (trim jwt) w))"

definition login_of :: "(string \<Rightarrow> string option) \<Rightarrow> vault_auth \<Rightarrow> string + vault_login option" where
  "login_of environ a = (case (va_approle a, va_kubernetes a) of
       (Some r, _) \<Rightarrow> (case expand_env environ (var_role_id r) of
           Inl e \<Rightarrow> Inl e
         | Inr role_id \<Rightarrow> (case expand_env environ (var_secret_id r) of
             Inl e \<Rightarrow> Inl e
           | Inr secret_id \<Rightarrow> Inr (Some (AppRole (var_mount r) role_id secret_id))))
     | (None, Some k) \<Rightarrow> Inr (Some (Kubernetes (vk_mount k) (vk_role k) (vk_jwt_path k)))
     | (None, None) \<Rightarrow> Inr None)"

definition settings_of :: "'w secret_ops \<Rightarrow> vault_config \<Rightarrow> string + vault_settings" where
  "settings_of ops cfg = (case Option.bind (vc_address cfg) (so_url ops) of
       Some e \<Rightarrow> Inl (''secrets.vault.address '' @ (case vc_address cfg of Some a \<Rightarrow> debug_str a | None \<Rightarrow> []) @ '': '' @ e)
     | None \<Rightarrow> Inr \<lparr>vs_address = vc_address cfg, vs_namespace = vc_namespace cfg,
         vs_ca_certs = map_option (\<lambda>ca. [ca]) (vc_ca_cert cfg), vs_token = None, vs_timeout_s = 30\<rparr>)"

definition static_token :: "(string \<Rightarrow> string option) \<Rightarrow> vault_auth \<Rightarrow> vault_settings \<Rightarrow> string + vault_settings" where
  "static_token environ a v = (case va_token_env a of
       None \<Rightarrow> Inr v
     | Some var \<Rightarrow> (case environ var of
         Some tok \<Rightarrow> Inr (v\<lparr>vs_token := Some tok\<rparr>)
       | None \<Rightarrow> Inl (''secrets.vault.auth.token_env names '' @ var @ '', which is not set'')))"

definition vault_connect :: "'w secret_ops \<Rightarrow> vault_config \<Rightarrow> 'w \<Rightarrow> (string + vault) \<times> 'w" where
  "vault_connect ops cfg w =
     (case settings_of ops cfg of Inl e \<Rightarrow> (Inl e, w) | Inr v \<Rightarrow>
     (case login_of (so_environ ops) (vc_auth cfg) of Inl e \<Rightarrow> (Inl e, w) | Inr login \<Rightarrow>
     (case static_token (so_environ ops) (vc_auth cfg) v of Inl e \<Rightarrow> (Inl e, w) | Inr v \<Rightarrow>
     (case so_build ops v of Inl e \<Rightarrow> (Inl (''secrets.vault settings: '' @ e), w) | Inr token \<Rightarrow>
     (case so_client ops v token of Some e \<Rightarrow> (Inl (''building the Vault client: '' @ e), w) | None \<Rightarrow>
     (let client = \<lparr>vl_settings = v, vl_token = token\<rparr> in
      case login of
        Some l \<Rightarrow> (case apply_login ops l client w of
            (Inl e, w) \<Rightarrow> (Inl e, w)
          | (Inr client, w) \<Rightarrow> (Inr \<lparr>vt_client = client, vt_mount = vc_mount cfg, vt_login = login\<rparr>, w))
      | None \<Rightarrow>
          if vl_token client = [] then
            (Inl ''secrets.vault: no token (set VAULT_TOKEN or auth.token_env) and no auth.approle / auth.kubernetes login configured'', w)
          else (Inr \<lparr>vt_client = client, vt_mount = vc_mount cfg, vt_login = None\<rparr>, w)))))))"

definition secret_field :: "string \<Rightarrow> string \<Rightarrow> string \<Rightarrow> (string \<times> json) list \<Rightarrow> string + string" where
  "secret_field mount path field fields_read = (case map_of fields_read field of
       None \<Rightarrow> Inl (''Vault secret '' @ mount @ ''/'' @ path @ '' has no field '' @ debug_str field @ '' (fields: '' @
         [CHR 0x5B] @ join_with '', '' (map debug_str (sort (map fst fields_read))) @ [CHR 0x5D] @ '')'')
     | Some (JStr s) \<Rightarrow> Inr s
     | Some other \<Rightarrow> Inr (json_text other))"

definition vault_read :: "'w secret_ops \<Rightarrow> vault \<Rightarrow> string \<Rightarrow> string \<Rightarrow> 'w \<Rightarrow> (string + string) \<times> vault \<times> 'w" where
  "vault_read ops v path field w =
     (let at_path = ''reading Vault secret '' @ vt_mount v @ ''/'' @ path in
      case so_read ops (vt_client v) (vt_mount v) path w of
        (Inr d, w) \<Rightarrow> (secret_field (vt_mount v) path field d, v, w)
      | (Inl e, w) \<Rightarrow>
          (case (e, vt_login v) of
             (ApiError code e, Some l) \<Rightarrow>
               if code = 403 then
                 (case apply_login ops l (vt_client v) w of
                    (Inl e, w) \<Rightarrow> (Inl e, v, w)
                  | (Inr client, w) \<Rightarrow>
                      (case so_read ops client (vt_mount v) path w of
                         (Inl e, w) \<Rightarrow> (Inl (at_path @ '' after re-login: '' @ vault_error_text e), v\<lparr>vt_client := client\<rparr>, w)
                       | (Inr d, w) \<Rightarrow> (secret_field (vt_mount v) path field d, v\<lparr>vt_client := client\<rparr>, w)))
               else (Inl (at_path @ '': '' @ e), v, w)
           | (e, _) \<Rightarrow> (Inl (at_path @ '': '' @ vault_error_text e), v, w)))"

section \<open>The resolver\<close>

record secrets =
  se_vault_cfg :: "vault_config option"
  se_vault :: "vault option"
  se_cache :: "(string, nat \<times> string) store"
  se_ttl :: nat

definition secrets_from_config :: "secrets_config \<Rightarrow> secrets" where
  "secrets_from_config cfg =
     \<lparr>se_vault_cfg = sc_vault cfg, se_vault = None, se_cache = [], se_ttl = sc_cache_ttl_s cfg * 10 ^ 9\<rparr>"

definition secrets_vault :: "'w secret_ops \<Rightarrow> string \<Rightarrow> 'w \<times> secrets \<Rightarrow> (string + vault) \<times> 'w \<times> secrets" where
  "secrets_vault ops reference = (\<lambda>(w, s).
     (case se_vault_cfg s of
        None \<Rightarrow> (Inl (quoted_ref reference @ '' used but no `secrets.vault` is configured''), w, s)
      | Some cfg \<Rightarrow> (case se_vault s of
          Some v \<Rightarrow> (Inr v, w, s)
        | None \<Rightarrow> (case vault_connect ops cfg w of
            (Inl e, w) \<Rightarrow> (Inl e, w, s)
          | (Inr v, w) \<Rightarrow> (Inr v, w, s\<lparr>se_vault := Some v\<rparr>)))))"

definition cached_secret :: "nat \<Rightarrow> string \<Rightarrow> secrets \<Rightarrow> string option" where
  "cached_secret now k s = (case map_of (se_cache s) k of
       None \<Rightarrow> None
     | Some (at, v) \<Rightarrow> if now - at < se_ttl s then Some v else None)"

definition vault_key :: "string \<Rightarrow> string" where
  "vault_key arg = ''vault:'' @ arg"

definition vault_ref :: "'w secret_ops \<Rightarrow> string \<Rightarrow> 'w \<times> secrets \<Rightarrow> (string + string) \<times> 'w \<times> secrets" where
  "vault_ref ops arg st =
     (case split_once (CHR 0x23) arg of
        None \<Rightarrow> (Inl (''vault reference '' @ debug_str arg @ '' must be `path#field` (KV v2)''), st)
      | Some (path, field) \<Rightarrow>
          (let k = vault_key arg in
           case cached_secret (so_now ops (fst st)) k (snd st) of
             Some hit \<Rightarrow> (Inr hit, st)
           | None \<Rightarrow> (case secrets_vault ops k st of
               (Inl e, st) \<Rightarrow> (Inl e, st)
             | (Inr v, w, s) \<Rightarrow> (case vault_read ops v path field w of
                 (Inl e, v, w) \<Rightarrow> (Inl e, w, s\<lparr>se_vault := Some v\<rparr>)
               | (Inr x, v, w) \<Rightarrow> (Inr x, w, s\<lparr>se_vault := Some v, se_cache := alist_put k (so_now ops w, x) (se_cache s)\<rparr>)))))"

definition secret_ref :: "'w secret_ops \<Rightarrow> string \<Rightarrow> 'w \<times> secrets \<Rightarrow> (string + string) \<times> 'w \<times> secrets" where
  "secret_ref ops reference st =
     (let (scheme, arg) = scheme_and_arg reference in
      if scheme = ''env'' then (env_ref (so_environ ops) reference arg, st)
      else if scheme = ''file'' then (file_ref (\<lambda>p. so_file ops p (fst st)) reference arg, st)
      else if scheme = ''vault'' then vault_ref ops arg st
      else (Inl (''unknown secret scheme '' @ debug_str scheme @ '' in '' @ quoted_ref reference @ '' (env, file, or vault)''), st))"

fun expand_pieces :: "'w secret_ops \<Rightarrow> piece list \<Rightarrow> string \<Rightarrow> 'w \<times> secrets \<Rightarrow> (string + string) \<times> 'w \<times> secrets" where
  "expand_pieces ops [] out st = (Inr out, st)"
| "expand_pieces ops (Lit s # ps) out st = expand_pieces ops ps (out @ s) st"
| "expand_pieces ops (Ref r # ps) out st =
     (case secret_ref ops r st of
        (Inl e, st) \<Rightarrow> (Inl e, st)
      | (Inr v, st) \<Rightarrow> expand_pieces ops ps (out @ v) st)"

definition expand_template :: "'w secret_ops \<Rightarrow> string \<Rightarrow> 'w \<times> secrets \<Rightarrow> (string + string) \<times> 'w \<times> secrets" where
  "expand_template ops template st = (case pieces template of
       Inl e \<Rightarrow> (Inl e, st)
     | Inr ps \<Rightarrow> expand_pieces ops ps [] st)"

definition resolve_source :: "'w secret_ops \<Rightarrow> string \<Rightarrow> 'w \<times> secrets \<Rightarrow> string option \<times> 'w \<times> secrets" where
  "resolve_source ops source st = (case secret_ref ops source st of
       (Inr v, st) \<Rightarrow> (if v \<noteq> [] then Some v else None, st)
     | (Inl _, st) \<Rightarrow> (None, st))"

section \<open>A template is its pieces\<close>

fun piece_text :: "piece \<Rightarrow> string" where
  "piece_text (Lit s) = s"
| "piece_text (Ref r) = quoted_ref r"

text \<open>Literals that are not empty, hold no opening mark and do not touch; references without a closing brace.\<close>

definition literal_ok :: "string \<Rightarrow> bool" where
  "literal_ok s \<longleftrightarrow> s \<noteq> [] \<and> \<not> contains_str s open_mark"

fun normal_pieces :: "piece list \<Rightarrow> bool" where
  "normal_pieces [] = True"
| "normal_pieces (Ref r # ps) = (CHR 0x7D \<notin> set r \<and> normal_pieces ps)"
| "normal_pieces [Lit s] = literal_ok s"
| "normal_pieces (Lit s # Ref r # ps) = (literal_ok s \<and> CHR 0x7D \<notin> set r \<and> normal_pieces ps)"
| "normal_pieces (Lit s # Lit t # ps) = False"

lemma find_str_first: "find_str pat s = Some i \<Longrightarrow> j < i \<Longrightarrow> \<not> starts_with pat (drop j s)"
proof (induction s arbitrary: i j)
  case (Cons c s)
  show ?case
  proof (cases j)
    case 0
    with Cons.prems show ?thesis by (auto split: if_splits)
  next
    case (Suc j')
    with Cons.prems obtain i' where "find_str pat s = Some i'" "i = Suc i'" by (auto split: if_splits)
    with Cons.IH [of i' j'] Cons.prems(2) Suc show ?thesis by simp
  qed
qed (auto split: if_splits)

lemma find_open_take: "find_str open_mark s = Some i \<Longrightarrow> \<not> contains_str (take i s) open_mark"
proof
  assume found: "find_str open_mark s = Some i" and "contains_str (take i s) open_mark"
  then obtain a b where a: "take i s = a @ open_mark @ b" by (auto simp: contains_str_iff)
  then have s: "s = a @ open_mark @ b @ drop i s" by (metis append_assoc append_take_drop_id)
  have "length (take i s) \<le> i" by simp
  with a have "length a < i" by (simp add: open_mark_def)
  from find_str_first [OF found this] show False by (subst (asm) s) (auto simp: starts_with_append)
qed

lemma find_open: "\<not> contains_str s open_mark \<Longrightarrow> find_str open_mark (s @ open_mark @ r) = Some (length s)"
proof (induction s)
  case (Cons c s)
  then have s: "\<not> contains_str s open_mark" by (metis contains_str_iff append_Cons)
  have "\<not> starts_with open_mark (c # s @ open_mark @ r)"
  proof (cases s)
    case (Cons d s')
    have "c # s \<noteq> open_mark @ s'" using Cons.prems by (metis contains_str_iff append_Nil)
    then show ?thesis by (auto simp: starts_with_append open_mark_def Cons)
  qed (auto simp: starts_with_append open_mark_def)
  with Cons.IH [OF s] show ?case by simp
qed (simp add: open_mark_def starts_with_def)

lemma find_close: "CHR 0x7D \<notin> set r \<Longrightarrow> find_str close_mark (r @ close_mark @ t) = Some (length r)"
  by (induction r) (auto simp: close_mark_def starts_with_append)

lemma find_close_take: "find_str close_mark s = Some i \<Longrightarrow> CHR 0x7D \<notin> set (take i s)"
proof
  assume found: "find_str close_mark s = Some i" and "CHR 0x7D \<in> set (take i s)"
  then obtain j where j: "j < i" "j < length s" "s ! j = CHR 0x7D" by (auto simp: in_set_conv_nth)
  then have "drop j s = close_mark @ drop (Suc j) s" using Cons_nth_drop_Suc [OF j(2)] by (simp add: close_mark_def)
  with find_str_first [OF found j(1)] show False by (auto simp: starts_with_append)
qed

lemma pieces_of_text: "normal_pieces ps \<Longrightarrow> pieces_of template (concat (map piece_text ps)) = Inr ps"
proof (induction ps rule: normal_pieces.induct)
  case 1
  then show ?case by (simp add: pieces_of.simps [of _ "[]"] open_mark_def)
next
  case (2 r ps)
  have "find_str open_mark (open_mark @ t) = Some 0" for t by (simp add: open_mark_def starts_with_def)
  with 2 find_close [of r "concat (map piece_text ps)"] show ?case
    by (subst pieces_of.simps) (simp add: quoted_ref_def open_mark_def close_mark_def)
next
  case (3 s)
  then show ?case
    by (subst pieces_of.simps) (auto simp: literal_ok_def contains_str_def)
next
  case (4 s r ps)
  then have "find_str open_mark (concat (map piece_text (Lit s # Ref r # ps))) = Some (length s)"
    using find_open [of s] by (simp add: literal_ok_def quoted_ref_def)
  with 4 find_close [of r "concat (map piece_text ps)"] show ?case
    by (subst pieces_of.simps) (simp add: quoted_ref_def open_mark_def close_mark_def literal_ok_def)
qed simp

lemma pieces_of_normal: "pieces_of template rest = Inr ps \<Longrightarrow> normal_pieces ps \<and> concat (map piece_text ps) = rest"
proof (induction template rest arbitrary: ps rule: pieces_of.induct)
  case (1 template rest)
  show ?case
  proof (cases "find_str open_mark rest")
    case None
    with 1 show ?thesis by (auto simp: pieces_of.simps [of template rest] literal_ok_def contains_str_def split: if_splits)
  next
    case (Some start)
    define after where "after = drop (start + 2) rest"
    note unfolded = "1.prems" [unfolded pieces_of.simps [of template rest] Some option.case Let_def, folded after_def]
    from unfolded obtain stop where stop: "find_str close_mark after = Some stop"
      by (cases "find_str close_mark after") simp_all
    from unfolded stop obtain qs where qs: "pieces_of template (drop (stop + 1) after) = Inr qs"
      and ps: "ps = (if 0 < start then [Lit (take start rest)] else []) @ Ref (take stop after) # qs"
      by (cases "pieces_of template (drop (stop + 1) after)") simp_all
    from "1.IH" [OF Some after_def stop qs] have qs_ok: "normal_pieces qs" "concat (map piece_text qs) = drop (stop + 1) after"
      by simp_all
    from find_str_Some [OF Some] obtain r where r: "rest = take start rest @ open_mark @ r" and "start \<le> length rest" by auto
    have "drop (start + 2) (take start rest @ open_mark @ r) = r" using \<open>start \<le> length rest\<close> by (simp add: open_mark_def)
    then have "after = r" unfolding after_def by (simp only: r [symmetric])
    with r have rest: "rest = take start rest @ open_mark @ after" by simp
    from find_str_Some [OF stop] obtain t where t: "after = take stop after @ close_mark @ t" and "stop \<le> length after" by auto
    have "drop (stop + 1) (take stop after @ close_mark @ t) = t" using \<open>stop \<le> length after\<close> by (simp add: close_mark_def)
    then have "drop (stop + 1) after = t" by (simp only: t [symmetric])
    with t have after: "after = take stop after @ close_mark @ drop (stop + 1) after" by simp
    have "concat (map piece_text ps) = take start rest @ open_mark @ take stop after @ close_mark @ drop (stop + 1) after"
      by (simp add: ps qs_ok quoted_ref_def)
    also have "\<dots> = rest" by (simp only: rest [symmetric] after [symmetric])
    finally have "concat (map piece_text ps) = rest" .
    moreover have "normal_pieces ps"
      using find_open_take [OF Some] find_close_take [OF stop] qs_ok(1) \<open>start \<le> length rest\<close>
      by (auto simp: ps literal_ok_def)
    ultimately show ?thesis by simp
  qed
qed

text \<open>A template splits into one list of pieces only, the one in normal form that prints as the template.\<close>

lemma pieces_iff: "pieces template = Inr ps \<longleftrightarrow> normal_pieces ps \<and> concat (map piece_text ps) = template"
  using pieces_of_normal pieces_of_text by (auto simp: pieces_def)

section \<open>What Vault is asked\<close>

text \<open>The world with a record of the reads (token, mount, path, answer, time) and of the logins that reached Vault.\<close>

datatype vault_event = SecretRead string string string "vault_error + (string \<times> json) list" nat | LoginDone "string + string"

definition recording :: "'w secret_ops \<Rightarrow> ('w \<times> vault_event list) secret_ops" where
  "recording ops = \<lparr>so_environ = so_environ ops, so_now = (\<lambda>(w, _). so_now ops w), so_file = (\<lambda>p (w, _). so_file ops p w),
     so_url = so_url ops, so_build = so_build ops, so_client = so_client ops,
     so_read = (\<lambda>c m p (w, log). case so_read ops c m p w of (r, w) \<Rightarrow> (r, w, log @ [SecretRead (vl_token c) m p r (so_now ops w)])),
     so_approle = (\<lambda>c m a b (w, log). case so_approle ops c m a b w of (r, w) \<Rightarrow> (r, w, log @ [LoginDone r])),
     so_kubernetes = (\<lambda>c m a b (w, log). case so_kubernetes ops c m a b w of (r, w) \<Rightarrow> (r, w, log @ [LoginDone r]))\<rparr>"

lemma recording_read:
  "so_read (recording ops) c m p (w, log) =
     (fst (so_read ops c m p w), snd (so_read ops c m p w),
      log @ [SecretRead (vl_token c) m p (fst (so_read ops c m p w)) (so_now ops (snd (so_read ops c m p w)))])"
  by (simp add: recording_def split: prod.split)

lemma apply_login_events:
  assumes "apply_login (recording ops) l c (w, log) = (r, w', log')"
  shows "(\<exists>tok. r = Inr (c\<lparr>vl_token := tok\<rparr>) \<and> log' = log @ [LoginDone (Inr tok)]) \<or>
    (\<not> is_ok r \<and> (log' = log \<or> (\<exists>e. log' = log @ [LoginDone (Inl e)])))"
  using assms by (cases l) (auto simp: recording_def logged_in_def split: prod.splits sum.splits)

definition rejected :: "vault_error + 'a \<Rightarrow> bool" where
  "rejected x \<longleftrightarrow> (case x of Inl (ApiError code _) \<Rightarrow> code = 403 | _ \<Rightarrow> False)"

definition has_field :: "string \<Rightarrow> vault_error + (string \<times> json) list \<Rightarrow> bool" where
  "has_field field x \<longleftrightarrow> (case x of Inr d \<Rightarrow> map_of d field \<noteq> None | Inl _ \<Rightarrow> False)"

lemma secret_field_ok: "is_ok (secret_field mount path field d) \<longleftrightarrow> map_of d field \<noteq> None"
  by (auto simp: secret_field_def split: option.split json.split)

lemma rejected_Inr [simp]: "\<not> rejected (Inr d)"
  by (simp add: rejected_def)

lemma has_field_simps [simp]: "has_field field (Inr d) \<longleftrightarrow> map_of d field \<noteq> None" "\<not> has_field field (Inl e)"
  by (simp_all add: has_field_def)

text \<open>A first answer that is taken as it is.\<close>

lemma vault_read_once:
  assumes "\<not> (rejected (fst (so_read ops (vt_client v) (vt_mount v) path w)) \<and> vt_login v \<noteq> None)"
  shows "\<exists>r. vault_read ops v path field w = (r, v, snd (so_read ops (vt_client v) (vt_mount v) path w)) \<and>
    (is_ok r \<longleftrightarrow> has_field field (fst (so_read ops (vt_client v) (vt_mount v) path w)))"
  using assms
  by (cases "so_read ops (vt_client v) (vt_mount v) path w"; cases "fst (so_read ops (vt_client v) (vt_mount v) path w)";
      cases "vt_login v")
    (auto simp: vault_read_def Let_def rejected_def secret_field_ok split: vault_error.splits)

text \<open>A rejected token, with a login to go by.\<close>

lemma vault_read_again:
  assumes "so_read ops (vt_client v) (vt_mount v) path w = (x, w1)" "rejected x" "vt_login v = Some l"
  shows "vault_read ops v path field w =
    (case apply_login ops l (vt_client v) w1 of
       (Inl e, w2) \<Rightarrow> (Inl e, v, w2)
     | (Inr client, w2) \<Rightarrow> (case so_read ops client (vt_mount v) path w2 of
         (Inl e, w3) \<Rightarrow> (Inl (''reading Vault secret '' @ vt_mount v @ ''/'' @ path @ '' after re-login: '' @ vault_error_text e), v\<lparr>vt_client := client\<rparr>, w3)
       | (Inr d, w3) \<Rightarrow> (secret_field (vt_mount v) path field d, v\<lparr>vt_client := client\<rparr>, w3)))"
proof -
  obtain e where "x = Inl (ApiError 403 e)" using assms(2) by (auto simp: rejected_def split: sum.splits vault_error.splits)
  with assms(1, 3) show ?thesis by (simp add: vault_read_def split: sum.split prod.split)
qed

text \<open>What follows a rejection: a login and a second read with its token, or a login that failed.\<close>

definition relogin_once :: "vault \<Rightarrow> string \<Rightarrow> string \<Rightarrow> vault_event list \<Rightarrow> vault \<Rightarrow> string + string \<Rightarrow> bool" where
  "relogin_once v path field evs v' r \<longleftrightarrow>
     (\<exists>tok y at2. evs = [LoginDone (Inr tok), SecretRead tok (vt_mount v) path y at2] \<and>
        v' = v\<lparr>vt_client := (vt_client v)\<lparr>vl_token := tok\<rparr>\<rparr> \<and> (is_ok r \<longleftrightarrow> has_field field y)) \<or>
     (v' = v \<and> \<not> is_ok r \<and> (evs = [] \<or> (\<exists>e. evs = [LoginDone (Inl e)])))"

text \<open>A Vault read asks once; only when the token is rejected and a login is configured does it log in, once, and ask once
  more, with the new token, which it keeps whatever that read gives.\<close>

theorem vault_read_relogin:
  assumes read: "vault_read (recording ops) v path field (w, log) = (r, v', w', log')"
  shows "\<exists>x at evs. log' = log @ SecretRead (vl_token (vt_client v)) (vt_mount v) path x at # evs \<and>
    (if rejected x \<and> vt_login v \<noteq> None
     then relogin_once v path field evs v' r
     else evs = [] \<and> v' = v \<and> (is_ok r \<longleftrightarrow> has_field field x))"
proof -
  obtain x w1 where x: "so_read ops (vt_client v) (vt_mount v) path w = (x, w1)" by fastforce
  note first = recording_read [of ops "vt_client v" "vt_mount v" path w log, unfolded x fst_conv snd_conv]
  show ?thesis
  proof (cases "rejected x \<and> vt_login v \<noteq> None")
    case False
    with vault_read_once [of "recording ops" v path "(w, log)" field] read show ?thesis
      by (auto simp: first)
  next
    case True
    then obtain l where l: "vt_login v = Some l" by auto
    obtain q w2 log2 where q: "apply_login (recording ops) l (vt_client v)
        (w1, log @ [SecretRead (vl_token (vt_client v)) (vt_mount v) path x (so_now ops w1)]) = (q, w2, log2)"
      by (metis prod_cases3)
    note again = read [unfolded vault_read_again [OF first conjunct1 [OF True] l] q]
    from apply_login_events [OF q] again
    have "\<exists>evs. log' = log @ SecretRead (vl_token (vt_client v)) (vt_mount v) path x (so_now ops w1) # evs \<and>
      relogin_once v path field evs v' r"
      by (auto simp: relogin_once_def recording_read secret_field_ok split: sum.splits prod.splits)
    then obtain evs where "log' = log @ SecretRead (vl_token (vt_client v)) (vt_mount v) path x (so_now ops w1) # evs"
      "relogin_once v path field evs v' r" by blast
    with True show ?thesis by (intro exI [of _ x] exI [of _ "so_now ops w1"] exI [of _ evs]) simp
  qed
qed

section \<open>How old a Vault value can be\<close>

text \<open>A value read off Vault under the name \<open>arg\<close>, at a time.\<close>

definition was_read :: "vault_event list \<Rightarrow> string \<Rightarrow> string \<Rightarrow> nat \<Rightarrow> string \<Rightarrow> bool" where
  "was_read log mount arg at x \<longleftrightarrow> (\<exists>path field tok d. split_once (CHR 0x23) arg = Some (path, field) \<and>
     SecretRead tok mount path (Inr d) at \<in> set log \<and> secret_field mount path field d = Inr x)"

lemma vault_key_inj [simp]: "vault_key a = vault_key b \<longleftrightarrow> a = b"
  by (simp add: vault_key_def)

lemma was_read_mono: "was_read log mount arg at x \<Longrightarrow> set log \<subseteq> set log' \<Longrightarrow> was_read log' mount arg at x"
  unfolding was_read_def by blast

definition secrets_ok :: "vault_config option \<Rightarrow> nat \<Rightarrow> vault_event list \<Rightarrow> secrets \<Rightarrow> bool" where
  "secrets_ok vc ttl log s \<longleftrightarrow> se_vault_cfg s = vc \<and> se_ttl s = ttl \<and>
     (\<forall>cfg v. vc = Some cfg \<and> se_vault s = Some v \<longrightarrow> vt_mount v = vc_mount cfg) \<and>
     (\<forall>arg at x. map_of (se_cache s) (vault_key arg) = Some (at, x) \<longrightarrow>
        (\<exists>cfg. vc = Some cfg \<and> was_read log (vc_mount cfg) arg at x))"

lemma secrets_ok_mono: "secrets_ok vc ttl log s \<Longrightarrow> set log \<subseteq> set log' \<Longrightarrow> secrets_ok vc ttl log' s"
  unfolding secrets_ok_def using was_read_mono by metis

lemma vault_connect_events:
  assumes "vault_connect (recording ops) cfg (w, log) = (r, w', log')"
  shows "set log \<subseteq> set log' \<and> (\<forall>v. r = Inr v \<longrightarrow> vt_mount v = vc_mount cfg)"
  using assms
  by (auto simp: vault_connect_def Let_def dest!: apply_login_events split: sum.splits option.splits prod.splits if_splits)

lemma vault_read_value:
  assumes "vault_read (recording ops) v path field (w, log) = (r, v', w', log')"
  shows "set log \<subseteq> set log' \<and> vt_mount v' = vt_mount v \<and> (\<forall>x. r = Inr x \<longrightarrow>
    (\<exists>tok d. SecretRead tok (vt_mount v) path (Inr d) (so_now ops w') \<in> set log' \<and> secret_field (vt_mount v) path field d = Inr x))"
  using assms
  by (auto simp: vault_read_def Let_def recording_read dest!: apply_login_events
      split: sum.splits option.splits prod.splits if_splits vault_error.splits)
    blast+

lemma recording_now [simp]: "so_now (recording ops) (w, log) = so_now ops w"
  by (simp add: recording_def)

lemma secrets_vault_ok:
  assumes "secrets_ok vc ttl log s" "secrets_vault (recording ops) reference ((w, log), s) = (r, (w', log'), s')"
  shows "secrets_ok vc ttl log' s' \<and> set log \<subseteq> set log' \<and> (\<forall>v. r = Inr v \<longrightarrow> (\<exists>cfg. vc = Some cfg \<and> vt_mount v = vc_mount cfg))"
  using assms
  by (auto simp: secrets_vault_def secrets_ok_def dest!: vault_connect_events split: sum.splits option.splits prod.splits)
    (blast intro: was_read_mono)+

text \<open>What a reference gives: a value read within the time to live, or right now.\<close>

definition fresh_value :: "vault_config option \<Rightarrow> nat \<Rightarrow> vault_event list \<Rightarrow> string \<Rightarrow> nat \<Rightarrow> string \<Rightarrow> bool" where
  "fresh_value vc ttl log arg now x \<longleftrightarrow>
     (\<exists>cfg at. vc = Some cfg \<and> was_read log (vc_mount cfg) arg at x \<and> (now - at < ttl \<or> at = now))"

lemma fresh_value_mono: "fresh_value vc ttl log arg now x \<Longrightarrow> set log \<subseteq> set log' \<Longrightarrow> fresh_value vc ttl log' arg now x"
  unfolding fresh_value_def using was_read_mono by metis

lemma vault_ref_ok:
  assumes ok: "secrets_ok vc ttl log s" and ref: "vault_ref (recording ops) arg ((w, log), s) = (r, (w', log'), s')"
  shows "secrets_ok vc ttl log' s' \<and> set log \<subseteq> set log' \<and> (\<forall>x. r = Inr x \<longrightarrow> fresh_value vc ttl log' arg (so_now ops w') x)"
proof (cases "split_once (CHR 0x23) arg")
  case None
  with ref ok show ?thesis by (auto simp: vault_ref_def)
next
  case (Some pf)
  then obtain path field where arg: "split_once (CHR 0x23) arg = Some (path, field)" by (cases pf) simp
  show ?thesis
  proof (cases "cached_secret (so_now ops w) (vault_key arg) s")
    case (Some hit)
    then obtain at where "map_of (se_cache s) (vault_key arg) = Some (at, hit)" "so_now ops w - at < se_ttl s"
      by (auto simp: cached_secret_def split: option.splits if_splits)
    moreover from this(1) ok obtain cfg where "vc = Some cfg" "was_read log (vc_mount cfg) arg at hit"
      unfolding secrets_ok_def by blast
    ultimately have "fresh_value vc ttl log arg (so_now ops w) hit" using ok unfolding secrets_ok_def fresh_value_def by blast
    moreover from ref arg Some have "r = Inr hit" "w' = w" "log' = log" "s' = s" by (simp_all add: vault_ref_def)
    ultimately show ?thesis using ok by simp
  next
    case None
    obtain q w1 log1 s1 where q: "secrets_vault (recording ops) (vault_key arg) ((w, log), s) = (q, (w1, log1), s1)"
      by (metis prod_cases3 surj_pair)
    note ok1 = secrets_vault_ok [OF ok q]
    note ref1 = ref [unfolded vault_ref_def arg option.case prod.case Let_def fst_conv snd_conv recording_now None q]
    show ?thesis
    proof (cases q)
      case (Inl e)
      with ref1 ok1 show ?thesis by auto
    next
      case (Inr v)
      with ok1 obtain cfg where cfg: "vc = Some cfg" "vt_mount v = vc_mount cfg" by auto
      obtain y v2 w2 log2 where y: "vault_read (recording ops) v path field (w1, log1) = (y, v2, w2, log2)"
        by (metis prod_cases4)
      note got = vault_read_value [OF y]
      have kept: "secrets_ok vc ttl log2 (s1\<lparr>se_vault := Some v2\<rparr>)"
        using secrets_ok_mono [OF conjunct1 [OF ok1] conjunct1 [OF got]] got cfg by (simp add: secrets_ok_def)
      show ?thesis
      proof (cases y)
        case (Inl e)
        with ref1 Inr y got ok1 kept show ?thesis by auto
      next
        case (Inr x)
        with got cfg arg have "was_read log2 (vc_mount cfg) arg (so_now ops w2) x" by (auto simp: was_read_def)
        with kept cfg ref1 \<open>q = Inr v\<close> y got ok1 Inr show ?thesis
          by (auto simp: secrets_ok_def fresh_value_def map_of_alist_put split: if_splits)
      qed
    qed
  qed
qed

text \<open>A run of references, each with its answer and the time of it.\<close>

fun resolve_run :: "'w secret_ops \<Rightarrow> string list \<Rightarrow> 'w \<times> secrets \<Rightarrow> (string \<times> nat \<times> (string + string)) list \<times> 'w \<times> secrets" where
  "resolve_run ops [] st = ([], st)"
| "resolve_run ops (reference # rs) st =
     (case secret_ref ops reference st of
        (r, st) \<Rightarrow> (case resolve_run ops rs st of (answers, st') \<Rightarrow> ((reference, so_now ops (fst st), r) # answers, st')))"

lemma vault_scheme: "scheme_and_arg (vault_key arg) = (''vault'', arg)"
  by (simp add: scheme_and_arg_def vault_key_def)

lemma secret_ref_ok:
  assumes "secrets_ok vc ttl log s" "secret_ref (recording ops) reference ((w, log), s) = (r, (w', log'), s')"
  shows "secrets_ok vc ttl log' s' \<and> set log \<subseteq> set log' \<and>
    (\<forall>arg x. reference = vault_key arg \<longrightarrow> r = Inr x \<longrightarrow> fresh_value vc ttl log' arg (so_now ops w') x)"
proof (cases "fst (scheme_and_arg reference) = ''vault''")
  case True
  with assms(2) have "vault_ref (recording ops) (snd (scheme_and_arg reference)) ((w, log), s) = (r, (w', log'), s')"
    by (simp add: secret_ref_def split_beta)
  from vault_ref_ok [OF assms(1) this] show ?thesis by (auto simp: vault_scheme)
next
  case False
  with assms show ?thesis by (auto simp: secret_ref_def vault_scheme split_beta split: if_splits)
qed

lemma resolve_run_ok:
  assumes "secrets_ok vc ttl log s" "resolve_run (recording ops) refs ((w, log), s) = (answers, (w', log'), s')"
  shows "set log \<subseteq> set log' \<and> (\<forall>arg now x. (vault_key arg, now, Inr x) \<in> set answers \<longrightarrow> fresh_value vc ttl log' arg now x)"
  using assms
proof (induction refs arbitrary: w log s answers)
  case (Cons reference rs)
  obtain r w1 log1 s1 where r: "secret_ref (recording ops) reference ((w, log), s) = (r, (w1, log1), s1)"
    by (metis prod_cases3 surj_pair)
  obtain as st2 where rest: "resolve_run (recording ops) rs ((w1, log1), s1) = (as, st2)" by (metis surj_pair)
  from Cons.prems(2) have st2: "st2 = ((w', log'), s')" and answers: "answers = (reference, so_now ops w1, r) # as"
    by (simp_all add: r rest)
  note here = secret_ref_ok [OF Cons.prems(1) r]
  from Cons.IH [OF conjunct1 [OF here] rest [unfolded st2]] here show ?case
    by (auto simp: answers intro: fresh_value_mono)
qed simp

text \<open>C27: Every value a Vault reference gives was read from Vault at that path and field, less than the cache's time to live
  before it is given out or for this very reference, whatever was resolved before and whatever Vault answered.\<close>

theorem vault_values_fresh:
  assumes "resolve_run (recording ops) refs ((w, []), secrets_from_config cfg) = (answers, (w', log), s')"
    and "(vault_key arg, now, Inr x) \<in> set answers"
  shows "\<exists>vc path field tok d at. sc_vault cfg = Some vc \<and> split_once (CHR 0x23) arg = Some (path, field) \<and>
    SecretRead tok (vc_mount vc) path (Inr d) at \<in> set log \<and> secret_field (vc_mount vc) path field d = Inr x \<and>
    (now - at < sc_cache_ttl_s cfg * 10 ^ 9 \<or> at = now)"
proof -
  have "secrets_ok (sc_vault cfg) (sc_cache_ttl_s cfg * 10 ^ 9) [] (secrets_from_config cfg)"
    by (simp add: secrets_ok_def secrets_from_config_def)
  from resolve_run_ok [OF this assms(1)] assms(2)
  have "fresh_value (sc_vault cfg) (sc_cache_ttl_s cfg * 10 ^ 9) log arg now x" by blast
  then show ?thesis unfolding fresh_value_def was_read_def by blast
qed

section \<open>A Vault to try it on\<close>

text \<open>A world that is its clock: reads take a second, the token \<open>old\<close> is rejected, a login gives \<open>new\<close>.\<close>

definition toy_vault :: "nat secret_ops" where
  "toy_vault = \<lparr>so_environ = (\<lambda>_. Some ''id''), so_now = id, so_file = (\<lambda>_ _. Inl ''no file''), so_url = (\<lambda>_. None),
     so_build = (\<lambda>_. Inr ''good''), so_client = (\<lambda>_ _. None),
     so_read = (\<lambda>c m p w. (if vl_token c = ''old'' then Inl (ApiError 403 ''denied'') else Inr [(''k'', JStr ''s3cr3t'')], w + 10 ^ 9)),
     so_approle = (\<lambda>_ _ _ _ w. (Inr ''new'', w)), so_kubernetes = (\<lambda>_ _ _ _ w. (Inl ''no role'', w))\<rparr>"

definition toy_vault_config :: vault_config where
  "toy_vault_config = \<lparr>vc_address = None, vc_namespace = None, vc_mount = ''kv'', vc_ca_cert = None,
     vc_auth = \<lparr>va_token_env = None, va_approle = None, va_kubernetes = None\<rparr>\<rparr>"

definition toy_old_vault :: vault where
  "toy_old_vault = \<lparr>vt_client = \<lparr>vl_settings = \<lparr>vs_address = None, vs_namespace = None, vs_ca_certs = None, vs_token = None, vs_timeout_s = 30\<rparr>,
     vl_token = ''old''\<rparr>, vt_mount = ''kv'', vt_login = Some (AppRole ''approle'' ''r'' ''s'')\<rparr>"

theorem vault_read_relogin_witness:
  "\<exists>r v' w log x at evs. vault_read (recording toy_vault) toy_old_vault ''p'' ''k'' (0, []) = (r, v', w, log) \<and>
     log = SecretRead ''old'' ''kv'' ''p'' x at # evs \<and> rejected x \<and> relogin_once toy_old_vault ''p'' ''k'' evs v' r \<and> r = Inr ''s3cr3t''"
proof -
  obtain r v' w log where run: "vault_read (recording toy_vault) toy_old_vault ''p'' ''k'' (0, []) = (r, v', w, log)"
    by (metis prod_cases4)
  have "r = Inr ''s3cr3t'' \<and> (\<exists>at evs. log = SecretRead ''old'' ''kv'' ''p'' (Inl (ApiError 403 ''denied'')) at # evs)"
    using run by (auto simp: vault_read_def recording_def toy_vault_def toy_old_vault_def secret_field_def logged_in_def)
  moreover have "vt_mount toy_old_vault = ''kv''" "vl_token (vt_client toy_old_vault) = ''old''" "vt_login toy_old_vault \<noteq> None"
    by (simp_all add: toy_old_vault_def)
  ultimately show ?thesis
    using vault_read_relogin [OF run] run by (auto simp: rejected_def)
qed

definition toy_secrets :: secrets_config where
  "toy_secrets = \<lparr>sc_vault = Some toy_vault_config, sc_cache_ttl_s = 300\<rparr>"

definition toy_read_log :: "vault_event list" where
  "toy_read_log = [SecretRead ''good'' ''kv'' ''p'' (Inr [(''k'', JStr ''s3cr3t'')]) (10 ^ 9)]"

text \<open>The first reference connects and reads, the second is answered from the cache.\<close>

lemma toy_first:
  "\<exists>s. secret_ref (recording toy_vault) (vault_key ''p#k'') ((0, []), secrets_from_config toy_secrets) = (Inr ''s3cr3t'', (10 ^ 9, toy_read_log), s) \<and>
     se_cache s = [(vault_key ''p#k'', 10 ^ 9, ''s3cr3t'')] \<and> se_ttl s = 300 * 10 ^ 9"
  by (simp add: secret_ref_def vault_scheme vault_ref_def cached_secret_def secrets_from_config_def toy_secrets_def secrets_vault_def
      vault_connect_def settings_of_def login_of_def static_token_def toy_vault_config_def vault_read_def recording_def toy_vault_def
      secret_field_def toy_read_log_def)

lemma toy_second:
  assumes "se_cache s = [(vault_key ''p#k'', 10 ^ 9, ''s3cr3t'')]" "se_ttl s = 300 * 10 ^ 9"
  shows "secret_ref (recording toy_vault) (vault_key ''p#k'') ((10 ^ 9, log), s) = (Inr ''s3cr3t'', (10 ^ 9, log), s)"
  using assms by (simp add: secret_ref_def vault_scheme vault_ref_def cached_secret_def recording_def toy_vault_def)

theorem vault_values_fresh_witness:
  "\<exists>vc path field tok d at. sc_vault toy_secrets = Some vc \<and> split_once (CHR 0x23) ''p#k'' = Some (path, field) \<and>
    SecretRead tok (vc_mount vc) path (Inr d) at \<in> set toy_read_log \<and>
    secret_field (vc_mount vc) path field d = Inr ''s3cr3t'' \<and> ((10 ^ 9 :: nat) - at < sc_cache_ttl_s toy_secrets * 10 ^ 9 \<or> at = 10 ^ 9)"
proof -
  from toy_first toy_second obtain s where "resolve_run (recording toy_vault) [vault_key ''p#k'', vault_key ''p#k''] ((0, []), secrets_from_config toy_secrets) =
      ([(vault_key ''p#k'', 10 ^ 9, Inr ''s3cr3t''), (vault_key ''p#k'', 10 ^ 9, Inr ''s3cr3t'')], (10 ^ 9, toy_read_log), s)"
    by (auto simp: recording_def toy_vault_def)
  from vault_values_fresh [OF this] show ?thesis by (simp only: list.set) blast
qed

end
