(* ===== verification/OAuth.thy ===== *)
theory OAuth
  imports Secrets
begin

text \<open>
  Bearer tokens for upstreams (\<open>src/src/oauth.rs\<close>): the client-credentials form, the token response, and \<open>bearer\<close> as the
  steps of its callers in any interleaving: a look at the cache, the wait for the single flight with a second look, and
  the fetch. The token endpoint's answer is a parameter of the step; times are nanoseconds, and a point in time past
  \<open>inst_max\<close> cannot be represented, where the addition of the standard library panics.
\<close>

section \<open>The client\<close>

record oauth_setup =
  os_token_url :: string
  os_client_id :: string
  os_client_secret :: string
  os_scope :: "string option"
  os_resource :: "string option"

definition resource_of :: "oauth_config \<Rightarrow> string \<Rightarrow> string option" where
  "resource_of cfg upstream_url = (case oa_resource cfg of
       Some r \<Rightarrow> if r = [] then None else Some r
     | None \<Rightarrow> Some upstream_url)"

definition oauth_new :: "'w secret_ops \<Rightarrow> oauth_config \<Rightarrow> string \<Rightarrow> 'w \<times> secrets \<Rightarrow> (string + oauth_setup) \<times> 'w \<times> secrets" where
  "oauth_new ops cfg upstream_url st = (case expand_template ops (oa_client_secret cfg) st of
       (Inl e, st) \<Rightarrow> (Inl e, st)
     | (Inr secret, st) \<Rightarrow> (Inr \<lparr>os_token_url = oa_token_url cfg, os_client_id = oa_client_id cfg, os_client_secret = secret,
         os_scope = oa_scope cfg, os_resource = resource_of cfg upstream_url\<rparr>, st))"

definition token_form :: "oauth_setup \<Rightarrow> (string \<times> string) list" where
  "token_form su =
     [(''grant_type'', ''client_credentials''), (''client_id'', os_client_id su), (''client_secret'', os_client_secret su)] @
     (case os_scope su of Some s \<Rightarrow> [(''scope'', s)] | None \<Rightarrow> []) @
     (case os_resource su of Some r \<Rightarrow> [(''resource'', r)] | None \<Rightarrow> [])"

definition parse_token_response :: "json \<Rightarrow> string + string \<times> nat" where
  "parse_token_response body = (case Option.bind (vget body ''access_token'') as_str of
       None \<Rightarrow> Inl (''OAuth token response missing '' @ [CHR 0x27] @ ''access_token'' @ [CHR 0x27])
     | Some token \<Rightarrow> Inr (token, case Option.bind (vget body ''expires_in'') as_u64 of Some ttl \<Rightarrow> ttl | None \<Rightarrow> 3600))"

text \<open>No answer, or a status with the body read as JSON.\<close>

datatype token_reply = NoToken string | TokenReply nat "string + json"

definition token_of_reply :: "(nat \<Rightarrow> string) \<Rightarrow> oauth_setup \<Rightarrow> token_reply \<Rightarrow> string + string \<times> nat" where
  "token_of_reply status_text su reply = (case reply of
       NoToken e \<Rightarrow> Inl (''requesting OAuth token from '' @ os_token_url su @ '': '' @ e)
     | TokenReply status body \<Rightarrow>
         if \<not> (200 \<le> status \<and> status < 300) then
           Inl (''OAuth token endpoint '' @ os_token_url su @ '' returned '' @ status_text status)
         else (case body of
             Inl e \<Rightarrow> Inl (''OAuth token response was not JSON: '' @ e)
           | Inr body \<Rightarrow> parse_token_response body))"

text \<open>The time a token is used for: a minute less than its lifetime, and a second at least.\<close>

definition lifetime :: "nat \<Rightarrow> nat" where
  "lifetime ttl = max (ttl - 60) 1 * 10 ^ 9"

section \<open>Callers\<close>

datatype bearer_outcome = Token string | NoBearer string | Panicked

datatype caller_phase = Queued | Posting | Ended bearer_outcome nat

text \<open>The cache, who holds the flight, where each caller is; and on record, the tokens issued (with their lifetime in seconds
  and the time) and the times the endpoint was asked.\<close>

record bearers =
  br_cached :: "(string \<times> nat) option"
  br_flight :: "nat option"
  br_callers :: "(nat \<times> caller_phase) list"
  br_issued :: "(string \<times> nat \<times> nat) list"
  br_posts :: "nat list"

definition no_bearers :: bearers where
  "no_bearers = \<lparr>br_cached = None, br_flight = None, br_callers = [], br_issued = [], br_posts = []\<rparr>"

abbreviation caller_at :: "bearers \<Rightarrow> nat \<Rightarrow> caller_phase option" where
  "caller_at st i \<equiv> map_of (br_callers st) i"

abbreviation put_caller :: "nat \<Rightarrow> caller_phase \<Rightarrow> bearers \<Rightarrow> bearers" where
  "put_caller i p st \<equiv> st\<lparr>br_callers := alist_put i p (br_callers st)\<rparr>"

definition current_token :: "nat \<Rightarrow> bearers \<Rightarrow> string option" where
  "current_token now st = (case br_cached st of
       None \<Rightarrow> None
     | Some (token, expiry) \<Rightarrow> if now < expiry then Some token else None)"

definition ask_bearer :: "nat \<Rightarrow> nat \<Rightarrow> bearers \<Rightarrow> bearers" where
  "ask_bearer i now st = (if caller_at st i \<noteq> None then st else
     (case current_token now st of
        Some t \<Rightarrow> put_caller i (Ended (Token t) now) st
      | None \<Rightarrow> put_caller i Queued st))"

definition take_flight :: "nat \<Rightarrow> nat \<Rightarrow> bearers \<Rightarrow> bearers" where
  "take_flight i now st = (if caller_at st i \<noteq> Some Queued \<or> br_flight st \<noteq> None then st else
     (case current_token now st of
        Some t \<Rightarrow> put_caller i (Ended (Token t) now) st
      | None \<Rightarrow> (put_caller i Posting st)\<lparr>br_flight := Some i, br_posts := br_posts st @ [now]\<rparr>))"

definition token_answer :: "nat \<Rightarrow> (nat \<Rightarrow> string) \<Rightarrow> oauth_setup \<Rightarrow> nat \<Rightarrow> token_reply \<Rightarrow> nat \<Rightarrow> bearers \<Rightarrow> bearers" where
  "token_answer inst_max status_text su i reply now st = (if caller_at st i \<noteq> Some Posting then st else
     (case token_of_reply status_text su reply of
        Inl e \<Rightarrow> (put_caller i (Ended (NoBearer e) now) st)\<lparr>br_flight := None\<rparr>
      | Inr (token, ttl) \<Rightarrow>
          if inst_max < now + lifetime ttl then (put_caller i (Ended Panicked now) st)\<lparr>br_flight := None\<rparr>
          else (put_caller i (Ended (Token token) now) st)
            \<lparr>br_cached := Some (token, now + lifetime ttl), br_flight := None, br_issued := br_issued st @ [(token, ttl, now)]\<rparr>))"

text \<open>A caller that is dropped while it waits or fetches; its flight ends with it.\<close>

definition drop_caller :: "nat \<Rightarrow> bearers \<Rightarrow> bearers" where
  "drop_caller i st = st\<lparr>br_callers := filter (\<lambda>(j, _). j \<noteq> i) (br_callers st),
     br_flight := (if br_flight st = Some i then None else br_flight st)\<rparr>"

inductive bearer_reach :: "nat \<Rightarrow> (nat \<Rightarrow> string) \<Rightarrow> oauth_setup \<Rightarrow> nat \<Rightarrow> bearers \<Rightarrow> bool"
  for inst_max :: nat and status_text :: "nat \<Rightarrow> string" and su :: oauth_setup where
  start: "bearer_reach inst_max status_text su now no_bearers"
| time: "bearer_reach inst_max status_text su now st \<Longrightarrow> now \<le> later \<Longrightarrow> bearer_reach inst_max status_text su later st"
| ask: "bearer_reach inst_max status_text su now st \<Longrightarrow> bearer_reach inst_max status_text su now (ask_bearer i now st)"
| flight: "bearer_reach inst_max status_text su now st \<Longrightarrow> bearer_reach inst_max status_text su now (take_flight i now st)"
| answer: "bearer_reach inst_max status_text su now st \<Longrightarrow>
    bearer_reach inst_max status_text su now (token_answer inst_max status_text su i reply now st)"
| dropped: "bearer_reach inst_max status_text su now st \<Longrightarrow> bearer_reach inst_max status_text su now (drop_caller i st)"

section \<open>What any schedule keeps\<close>

definition expired_by :: "nat \<Rightarrow> (string \<times> nat \<times> nat) list \<Rightarrow> bool" where
  "expired_by t issued \<longleftrightarrow> (\<forall>(_, ttl, at) \<in> set issued. at + lifetime ttl \<le> t)"

text \<open>A token that was issued and had not run out at a time.\<close>

definition live_token :: "(string \<times> nat \<times> nat) list \<Rightarrow> string \<Rightarrow> nat \<Rightarrow> bool" where
  "live_token issued token t \<longleftrightarrow> (\<exists>ttl at. (token, ttl, at) \<in> set issued \<and> at \<le> t \<and> t < at + lifetime ttl)"

text \<open>No request goes out while a token is good.\<close>

definition asked_apart :: "nat list \<Rightarrow> (string \<times> nat \<times> nat) list \<Rightarrow> bool" where
  "asked_apart posts issued \<longleftrightarrow> (\<forall>(_, ttl, at) \<in> set issued. \<forall>p \<in> set posts. p \<le> at \<or> at + lifetime ttl \<le> p)"

definition past :: "nat \<Rightarrow> nat list \<Rightarrow> (string \<times> nat \<times> nat) list \<Rightarrow> bool" where
  "past now posts issued \<longleftrightarrow> (\<forall>p \<in> set posts. p \<le> now) \<and> (\<forall>(_, _, at) \<in> set issued. at \<le> now)"

definition cache_backed :: "(string \<times> nat) option \<Rightarrow> (string \<times> nat \<times> nat) list \<Rightarrow> bool" where
  "cache_backed cached issued \<longleftrightarrow> (case cached of
       None \<Rightarrow> issued = []
     | Some (token, expiry) \<Rightarrow> expired_by expiry issued \<and> (\<exists>ttl at. (token, ttl, at) \<in> set issued \<and> expiry = at + lifetime ttl))"

definition given_live :: "nat \<Rightarrow> bearers \<Rightarrow> bool" where
  "given_live now st \<longleftrightarrow>
     (\<forall>i token t. caller_at st i = Some (Ended (Token token) t) \<longrightarrow> t \<le> now \<and> live_token (br_issued st) token t)"

definition one_flight :: "bearers \<Rightarrow> bool" where
  "one_flight st \<longleftrightarrow> (\<forall>i. (caller_at st i = Some Posting) = (br_flight st = Some i))"

definition bearer_inv :: "nat \<Rightarrow> bearers \<Rightarrow> bool" where
  "bearer_inv now st \<longleftrightarrow> one_flight st \<and> given_live now st \<and> cache_backed (br_cached st) (br_issued st) \<and>
     past now (br_posts st) (br_issued st) \<and> asked_apart (br_posts st) (br_issued st) \<and>
     (br_flight st \<noteq> None \<longrightarrow> expired_by now (br_issued st))"

lemma lifetime_pos: "0 < lifetime ttl"
  by (simp add: lifetime_def)

lemma expired_by_later: "expired_by t issued \<Longrightarrow> t \<le> u \<Longrightarrow> expired_by u issued"
  unfolding expired_by_def by force

lemma current_live:
  assumes "bearer_inv now st" "current_token now st = Some t"
  shows "live_token (br_issued st) t now"
  using assms
  by (fastforce simp: bearer_inv_def current_token_def live_token_def cache_backed_def past_def split: option.splits if_splits)

lemma no_current_expired:
  assumes "bearer_inv now st" "current_token now st = None"
  shows "expired_by now (br_issued st)"
proof (cases "br_cached st")
  case None
  with assms show ?thesis by (simp add: bearer_inv_def cache_backed_def expired_by_def)
next
  case (Some c)
  obtain token expiry where c: "c = (token, expiry)" by (cases c)
  with assms Some have "expired_by expiry (br_issued st)" "expiry \<le> now"
    by (auto simp: bearer_inv_def cache_backed_def current_token_def split: if_splits)
  then show ?thesis by (rule expired_by_later)
qed

lemma one_flight_other:
  "one_flight st \<Longrightarrow> caller_at st i \<noteq> Some Posting \<Longrightarrow> p \<noteq> Posting \<Longrightarrow> one_flight (put_caller i p st)"
  by (auto simp: one_flight_def map_of_alist_put)

lemma one_flight_end:
  "one_flight st \<Longrightarrow> caller_at st i = Some Posting \<Longrightarrow> p \<noteq> Posting \<Longrightarrow> one_flight ((put_caller i p st)\<lparr>br_flight := None\<rparr>)"
  by (auto simp: one_flight_def map_of_alist_put)

lemma given_live_put:
  "given_live now st \<Longrightarrow> (\<And>token t. p = Ended (Token token) t \<Longrightarrow> t \<le> now \<and> live_token (br_issued st) token t) \<Longrightarrow>
   given_live now (put_caller i p st)"
  by (auto simp: given_live_def map_of_alist_put)

lemma given_live_cong:
  "br_callers st' = br_callers st \<Longrightarrow> set (br_issued st) \<subseteq> set (br_issued st') \<Longrightarrow> given_live now st \<Longrightarrow> given_live now st'"
  unfolding given_live_def live_token_def by (metis subsetD)

lemma inv_ask: "bearer_inv now st \<Longrightarrow> bearer_inv now (ask_bearer i now st)"
  using current_live [of now st]
  by (auto simp: bearer_inv_def ask_bearer_def intro!: one_flight_other given_live_put split: option.split)

lemma inv_flight:
  assumes inv: "bearer_inv now st"
  shows "bearer_inv now (take_flight i now st)"
proof (cases "caller_at st i \<noteq> Some Queued \<or> br_flight st \<noteq> None")
  case True
  with inv show ?thesis by (auto simp: take_flight_def)
next
  case False
  show ?thesis
  proof (cases "current_token now st")
    case (Some t)
    with current_live [OF inv] inv False show ?thesis
      by (auto simp: bearer_inv_def take_flight_def intro!: one_flight_other given_live_put)
  next
    case None
    note expired = no_current_expired [OF inv this]
    from inv have "one_flight ((put_caller i Posting st)\<lparr>br_flight := Some i, br_posts := br_posts st @ [now]\<rparr>)"
      using False by (auto simp: bearer_inv_def one_flight_def map_of_alist_put)
    moreover have "given_live now ((put_caller i Posting st)\<lparr>br_flight := Some i, br_posts := br_posts st @ [now]\<rparr>)"
      using inv by (auto simp: bearer_inv_def intro: given_live_cong [OF _ _ given_live_put])
    moreover have "asked_apart (br_posts st @ [now]) (br_issued st)"
      using inv expired by (auto simp: bearer_inv_def asked_apart_def expired_by_def)
    ultimately show ?thesis
      using inv expired False None by (simp add: bearer_inv_def take_flight_def past_def)
  qed
qed

lemma inv_answer:
  assumes inv: "bearer_inv now st"
  shows "bearer_inv now (token_answer inst_max status_text su i reply now st)"
proof (cases "caller_at st i = Some Posting")
  case False
  with inv show ?thesis by (simp add: token_answer_def)
next
  case True
  then have flight: "br_flight st = Some i" and expired: "expired_by now (br_issued st)"
    using inv by (auto simp: bearer_inv_def one_flight_def)
  have refused: "bearer_inv now ((put_caller i (Ended out now) st)\<lparr>br_flight := None\<rparr>)" if "\<And>t. out \<noteq> Token t" for out
  proof -
    have "given_live now (put_caller i (Ended out now) st)"
      using inv that by (auto simp: bearer_inv_def intro: given_live_put)
    then have "given_live now ((put_caller i (Ended out now) st)\<lparr>br_flight := None\<rparr>)" by (simp add: given_live_def)
    with inv True show ?thesis by (simp add: bearer_inv_def one_flight_end)
  qed
  have issued: "bearer_inv now ((put_caller i (Ended (Token token) now) st)
      \<lparr>br_cached := Some (token, now + lifetime ttl), br_flight := None, br_issued := br_issued st @ [(token, ttl, now)]\<rparr>)" for token ttl
  proof -
    let ?issued = "br_issued st @ [(token, ttl, now)]"
    have "live_token ?issued token now"
      unfolding live_token_def by (intro exI [of _ ttl] exI [of _ now]) (simp add: lifetime_pos)
    moreover have "asked_apart (br_posts st) ?issued" "past now (br_posts st) ?issued"
      using inv by (auto simp: bearer_inv_def asked_apart_def past_def)
    moreover have "cache_backed (Some (token, now + lifetime ttl)) ?issued"
      using expired_by_later [OF expired, of "now + lifetime ttl"] by (auto simp: cache_backed_def expired_by_def)
    moreover have "one_flight ((put_caller i (Ended (Token token) now) st)
        \<lparr>br_cached := Some (token, now + lifetime ttl), br_flight := None, br_issued := ?issued\<rparr>)"
      using inv True by (auto simp: bearer_inv_def one_flight_def map_of_alist_put)
    moreover have "given_live now (st\<lparr>br_issued := ?issued\<rparr>)"
      using inv by (auto simp: bearer_inv_def intro: given_live_cong [of _ st])
    ultimately show ?thesis
      by (auto simp: bearer_inv_def given_live_def map_of_alist_put)
  qed
  show ?thesis using True refused issued by (simp add: token_answer_def split: sum.split)
qed

lemma caller_dropped: "map_of (filter (\<lambda>(j, _). j \<noteq> i) m) k = (if k = i then None else map_of m k)"
  by (induction m) auto

lemma inv_drop: "bearer_inv now st \<Longrightarrow> bearer_inv now (drop_caller i st)"
  by (auto simp: bearer_inv_def drop_caller_def caller_dropped one_flight_def given_live_def)

lemma inv_time: "bearer_inv now st \<Longrightarrow> now \<le> later \<Longrightarrow> bearer_inv later st"
  using expired_by_later [of now "br_issued st" later] by (fastforce simp: bearer_inv_def given_live_def past_def)

lemma inv_start: "bearer_inv now no_bearers"
  by (simp add: bearer_inv_def no_bearers_def one_flight_def given_live_def cache_backed_def past_def asked_apart_def)

lemma bearer_reach_inv: "bearer_reach inst_max status_text su now st \<Longrightarrow> bearer_inv now st"
  by (induction rule: bearer_reach.induct) (simp_all add: inv_start inv_time inv_ask inv_flight inv_answer inv_drop)


text \<open>Two callers: the first fetches, the second asks while it does, and is then given the same token.\<close>

definition toy_oauth :: oauth_setup where
  "toy_oauth = \<lparr>os_token_url = ''u'', os_client_id = ''i'', os_client_secret = ''s'', os_scope = None, os_resource = None\<rparr>"

definition toy_bearers :: bearers where
  "toy_bearers = take_flight 2 0 (token_answer (10 ^ 20) (\<lambda>_. []) toy_oauth 1 (TokenReply 200 (Inr (JObj [(''access_token'', JStr ''t'')]))) 0
     (ask_bearer 2 0 (take_flight 1 0 (ask_bearer 1 0 no_bearers))))"


text \<open>A lifetime the clock cannot hold, which the endpoint is free to send, panics the caller; the cache stays as it was.\<close>

lemma huge_lifetime_panics:
  assumes "caller_at st i = Some Posting" "inst_max < 18446744073709551555 * 10 ^ 9"
  shows "let st' = token_answer inst_max status_text su i
      (TokenReply 200 (Inr (JObj [(''access_token'', JStr ''t''), (''expires_in'', JNum ''18446744073709551615'')]))) now st
    in caller_at st' i = Some (Ended Panicked now) \<and> br_cached st' = br_cached st"
proof -
  have "as_u64 (JNum ''18446744073709551615'') = Some 18446744073709551615"
    by (simp add: all_digits_def digits_value_def is_ascii_digit_def)
  then show ?thesis
    using assms(2) by (simp add: token_answer_def assms(1) token_of_reply_def parse_token_response_def vget_def jget_def lifetime_def map_of_alist_put)
qed

end
