(* ===== verification/Upkeep.thy ===== *)
theory Upkeep
  imports Calls Resources
begin

text \<open>
  What the requests keep of the surface's state. \<open>state_invariant\<close> is the contract of a property of the state: it survives
  each single update the request code makes. Then every request keeps it, whatever the world answers; the well-formedness
  of the state is such a property.
\<close>

section \<open>Runs that keep a property of the state\<close>

definition keeps :: "(surface_state \<Rightarrow> bool) \<Rightarrow> ('w, 'a) run \<Rightarrow> bool" where
  "keeps P m \<longleftrightarrow> (\<forall>w s a w' s'. P s \<longrightarrow> run_state m (w, s) = (a, (w', s')) \<longrightarrow> P s')"

named_theorems keeping

lemma keeps_return [keeping]: "keeps P (State_Monad.return a)"
  by (simp add: keeps_def State_Monad.return_def)

lemma keeps_bind [keeping]:
  assumes "keeps P m" "\<And>a. keeps P (f a)"
  shows "keeps P (State_Monad.bind m f)"
  unfolding keeps_def
proof (intro allI impI)
  fix w s b w'' s''
  assume s: "P s" and run: "run_state (State_Monad.bind m f) (w, s) = (b, (w'', s''))"
  obtain a w' s' where m: "run_state m (w, s) = (a, (w', s'))" by (metis prod.exhaust)
  with run have "run_state (f a) (w', s') = (b, (w'', s''))" by (simp add: State_Monad.bind_def)
  moreover from assms(1) s m have "P s'" unfolding keeps_def by blast
  ultimately show "P s''" using assms(2) [of a] unfolding keeps_def by blast
qed

lemma keeps_ask [keeping]: "keeps P (ask f)"
  by (auto simp: keeps_def ask_def split: prod.splits)

lemma keeps_on_state: "(\<And>s. P s \<Longrightarrow> P (snd (f s))) \<Longrightarrow> keeps P (on_state f)"
  by (auto simp: keeps_def on_state_def split: prod.splits) (metis snd_conv)

lemma keeps_modify_state: "(\<And>s. P s \<Longrightarrow> P (f s)) \<Longrightarrow> keeps P (modify_state f)"
  unfolding modify_state_def by (rule keeps_on_state) simp

lemma keeps_get_state [keeping]: "keeps P get_state"
  unfolding get_state_def by (rule keeps_on_state) simp

lemma keeps_if [keeping]: "(b \<Longrightarrow> keeps P m) \<Longrightarrow> (\<not> b \<Longrightarrow> keeps P n) \<Longrightarrow> keeps P (if b then m else n)"
  by simp

lemma keeps_case_option [keeping]:
  "keeps P m \<Longrightarrow> (\<And>x. keeps P (f x)) \<Longrightarrow> keeps P (case v of None \<Rightarrow> m | Some x \<Rightarrow> f x)"
  by (cases v) auto

lemma keeps_case_sum [keeping]:
  "(\<And>x. keeps P (f x)) \<Longrightarrow> (\<And>x. keeps P (g x)) \<Longrightarrow> keeps P (case v of Inl x \<Rightarrow> f x | Inr x \<Rightarrow> g x)"
  by (cases v) auto

lemma keeps_case_prod [keeping]: "(\<And>x y. keeps P (f x y)) \<Longrightarrow> keeps P (case p of (x, y) \<Rightarrow> f x y)"
  by (cases p) auto

lemma keeps_Let [keeping]: "keeps P (f x) \<Longrightarrow> keeps P (let y = x in f y)"
  by simp

lemma keeps_case_decision [keeping]:
  "(\<And>x y. keeps P (f x y)) \<Longrightarrow> (\<And>x. keeps P (g x)) \<Longrightarrow> keeps P (case d of Block x y \<Rightarrow> f x y | Allow x \<Rightarrow> g x)"
  by (cases d) auto

lemma keeps_case_outcome [keeping]:
  "(\<And>x y. keeps P (f x y)) \<Longrightarrow> keeps P g \<Longrightarrow> (\<And>x. keeps P (h x)) \<Longrightarrow>
   keeps P (case d of Returned x y \<Rightarrow> f x y | TimedOut \<Rightarrow> g | CallFailed x \<Rightarrow> h x)"
  by (cases d) auto

lemma keeps_case_steps [keeping]:
  "(\<And>x. keeps P (f x)) \<Longrightarrow> (\<And>i e r outs. keeps P (g i e r outs)) \<Longrightarrow>
   keeps P (case d of StepsDone x \<Rightarrow> f x | StepFailed i e r outs \<Rightarrow> g i e r outs)"
  by (cases d) auto

section \<open>The contract\<close>

locale state_invariant =
  fixes lib :: lib and sf :: surface and holds :: "surface_state \<Rightarrow> bool"
  assumes log_keeps: "holds s \<Longrightarrow> holds (s\<lparr>ss_chain := ch, ss_log := ls\<rparr>)"
    and used_keeps: "holds s \<Longrightarrow> holds (s\<lparr>ss_used := us\<rparr>)"
    and turn_keeps: "holds s \<Longrightarrow> holds (s\<lparr>ss_turn := turn\<rparr>)"
    and memo_keeps: "holds s \<Longrightarrow> holds (s\<lparr>ss_memo := snd (resolved_schema_memo (lb_ser lib) (sf_upstreams sf) (ss_catalog s) t (ss_memo s))\<rparr>)"
    and buckets_keep: "holds s \<Longrightarrow> rate_limited (sf_config sf) who tool_id ov now (ss_buckets s) = (r, tiers, m) \<Longrightarrow> holds (s\<lparr>ss_buckets := m\<rparr>)"
    and breakers_keep: "holds s \<Longrightarrow> holds (s\<lparr>ss_breakers := alist_put tool_id b (ss_breakers s)\<rparr>)"
    and cache_keeps: "holds s \<Longrightarrow> holds (s\<lparr>ss_cache := cache_insert (lb_ser lib) ttl now k v (ss_cache s)\<rparr>)"
    and bust_keeps: "holds s \<Longrightarrow> holds (s\<lparr>ss_cache := bust_upstream_cache owner idx (ss_cache s)\<rparr>)"
    and routes_keep: "holds s \<Longrightarrow> \<forall>(uri, idx) \<in> set routes. idx < length (sf_upstreams sf) \<Longrightarrow> holds (learn_routes routes s)"
begin

lemma log_event_keeps [keeping]: "keeps holds (log_event lib ops sf caller event extra)"
proof -
  have "holds (s\<lparr>ss_log := ls\<rparr>)" if "holds s" for s ls
    using log_keeps [OF that, of ls "ss_chain s"] by simp
  then have "keeps holds (modify_state (\<lambda>s. let line = event_line ms caller event extra in case ss_chain s of
      Some ch \<Rightarrow> (case stamp (lb_hmac lib) (lb_ser lib) ch line of (line, ch) \<Rightarrow> s\<lparr>ss_chain := Some ch, ss_log := ss_log s @ [line]\<rparr>)
    | None \<Rightarrow> s\<lparr>ss_log := ss_log s @ [line]\<rparr>))" for ms
    by (intro keeps_modify_state) (simp add: Let_def log_keeps split: option.splits prod.splits)
  then show ?thesis unfolding log_event_def by (intro keeping)
qed

lemma may_call_keeps [keeping]: "keeps holds (may_call lib ops sf caller tool_id)"
  unfolding may_call_def by (intro keeping)

lemma schema_of_keeps [keeping]: "keeps holds (schema_of lib sf t)"
  unfolding schema_of_def using memo_keeps by (intro keeps_on_state) (auto simp: split_beta)

lemma log_would_limit_keeps [keeping]: "keeps holds (log_would_limit lib ops sf caller tool_id ls)"
  by (induction ls) (auto intro!: keeping)

lemma rate_gate_keeps [keeping]: "keeps holds (rate_gate lib ops sf caller tool_id ov)"
proof -
  have "keeps holds (on_state (\<lambda>s. case rate_limited (sf_config sf) (rate_key caller) tool_id ov now (ss_buckets s) of
      (r, ls, m) \<Rightarrow> ((r, ls), s\<lparr>ss_buckets := m\<rparr>)))" for now
    using buckets_keep by (intro keeps_on_state) (auto split: prod.split)
  then show ?thesis unfolding rate_gate_def by (intro keeping)
qed

lemma headers_keep [keeping]: "keeps holds (fresh_headers ops h hs)" "keeps holds (extra_headers lib ops cat tool_id arguments)"
proof -
  show fresh: "keeps holds (fresh_headers ops h hs)" for h hs
    by (induction hs) (auto intro!: keeping)
  show "keeps holds (extra_headers lib ops cat tool_id arguments)"
    unfolding extra_headers_def by (intro keeping fresh)
qed

lemma inject_fields_keeps [keeping]: "keeps holds (inject_fields lib ops us arguments)"
  by (induction us arbitrary: arguments) (auto intro!: keeping)

lemma breaker_keeps [keeping]: "keeps holds (breaker_gate ops ov tool_id)" "keeps holds (feed_breaker ops ov tool_id is_error was_probe)"
proof -
  have "keeps holds (on_state (\<lambda>s. case breaker_check (breaker_of s tool_id) now of
      (d, st) \<Rightarrow> (d, s\<lparr>ss_breakers := alist_put tool_id st (ss_breakers s)\<rparr>)))" for now
    using breakers_keep by (intro keeps_on_state) (auto split: prod.split)
  then show "keeps holds (breaker_gate ops ov tool_id)" unfolding breaker_gate_def by (intro keeping)
  have "keeps holds (modify_state (\<lambda>s. s\<lparr>ss_breakers :=
      alist_put tool_id (on_result b is_error was_probe now (breaker_of s tool_id)) (ss_breakers s)\<rparr>))" for b now
    using breakers_keep by (intro keeps_modify_state)
  then show "keeps holds (feed_breaker ops ov tool_id is_error was_probe)" unfolding feed_breaker_def by (intro keeping)
qed

lemma cache_steps_keep [keeping]: "keeps holds (store_result lib ops cfg key v)" "keeps holds (bust_cache idx)"
  unfolding store_result_def bust_cache_def
  by (intro keeping keeps_modify_state cache_keeps bust_keeps; assumption)+

lemma record_use_keeps [keeping]: "keeps holds (record_use tool_id r)"
  unfolding record_use_def by (intro keeping keeps_modify_state used_keeps)

lemma call_path_keeps [keeping]:
  "keeps holds (not_sent r)" "keeps holds (preflight_schema lib sf ov t)" "keeps holds (cached_result ops cfg key)"
  "keeps holds (apply_error_hints lib sf caller tool_id r)" "keeps holds (audit_call lib ops sf caller tool_id t started is_error from_cache mac r)"
  unfolding not_sent_def preflight_schema_def cached_result_def apply_error_hints_def audit_call_def
  by (intro keeping | simp)+

lemma follow_pages_keeps [keeping]: "keeps holds (follow_pages lib ops from_spec idx name headers deadline p left args payload prev st)"
proof (induction left arbitrary: args payload prev st)
  case (Suc left)
  show ?case by (simp only: follow_pages.simps) (intro keeping Suc.IH)
qed (simp add: keeps_return)

lemma paginate_keeps [keeping]: "keeps holds (paginate lib ops sf caller idx name arguments headers first p deadline)"
  unfolding paginate_def by (intro keeping)

lemma gather_pages_keeps [keeping]: "keeps holds (gather_pages lib ops sf caller t ov arguments headers result)"
  unfolding gather_pages_def by (intro keeping)

lemma settle_cache_keeps [keeping]: "keeps holds (settle_cache lib ops sf t key rp)"
  unfolding settle_cache_def by (intro keeping)

lemma call_upstream_keeps [keeping]: "keeps holds (call_upstream lib ops sf caller tool_id t ov arguments headers key was_probe)"
  unfolding call_upstream_def after_answer_def by (intro keeping)

lemma finish_call_keeps [keeping]: "keeps holds (finish_call lib ops sf caller tool_id t ov wanted started from_cache mac rr)"
  unfolding finish_call_def by (intro keeping)

lemma gated_call_keeps [keeping]: "keeps holds (gated_call lib ops sf caller tool_id t ov arguments headers schema wanted started mac)"
  unfolding gated_call_def by (intro keeping)

lemma dispatch_tool_keeps [keeping]: "keeps holds (dispatch_tool lib ops sf caller cat tool_id t arguments wanted started)"
  unfolding dispatch_tool_def by (intro keeping)

lemma dispatch_keeps [keeping]:
  "keeps holds (dispatch_reach lib ops sf caller tool_id arguments wanted)" "keeps holds (dispatch lib ops sf caller tool_id arguments wanted)"
proof -
  show reach: "keeps holds (dispatch_reach lib ops sf caller tool_id arguments wanted)"
    unfolding dispatch_reach_def by (intro keeping)
  show "keeps holds (dispatch lib ops sf caller tool_id arguments wanted)"
    unfolding dispatch_def by (intro keeping reach)
qed

lemma run_steps_keeps [keeping]: "keeps holds (run_steps lib ops sf caller inputs i sts outs)"
proof (induction sts arbitrary: i outs)
  case (Cons st sts)
  show ?case by (simp only: run_steps.simps) (intro keeping Cons.IH)
qed (simp add: keeps_return)

lemma execute_workflow_keeps [keeping]: "keeps holds (execute_workflow lib ops sf caller w inputs)"
  unfolding execute_workflow_def by (intro keeping)

lemma tool_defs_keeps [keeping]: "keeps holds (tool_defs lib sf cat caller exposed)"
proof (induction exposed)
  case (Cons x exposed)
  obtain name tool_id where x: "x = (name, tool_id)" by (cases x)
  show ?case unfolding x by (simp only: tool_defs.simps) (intro keeping Cons.IH)
qed (simp add: keeps_return)

lemma details_text_keeps [keeping]: "keeps holds (details_text lib sf caller tool_id)"
  unfolding details_text_def by (intro keeping)

lemma list_tools_keeps [keeping]: "keeps holds (list_tools lib sf caller)"
  unfolding list_tools_def by (intro keeping)

lemma cli_call_keeps [keeping]: "keeps holds (cli_call lib ops sf caller tool_id args wanted)"
  unfolding cli_call_def route_call_def by (intro keeping)

lemma shadow_call_keeps [keeping]: "keeps holds (shadow_call lib ops sf caller tool_id)"
proof -
  have "keeps holds (log_observed lib ops sf caller tool_id obs)" for obs
    by (induction obs) (auto intro!: keeping)
  moreover have "keeps holds (on_state (\<lambda>s. let eligible = elig s in
      case observe_call tool_id eligible (ss_turn s) of (obs, turn) \<Rightarrow> (obs, s\<lparr>ss_turn := turn\<rparr>)))" for elig
    by (intro keeps_on_state) (simp add: turn_keeps split: prod.split)
  ultimately show ?thesis unfolding shadow_call_def by (intro keeping)
qed

theorem call_keeps: "keeps holds (call lib ops sf caller name args)"
  unfolding call_def call_search_def call_details_def call_call_def call_exposed_def
  by (intro keeping keeps_modify_state turn_keeps)

lemma passthrough_keeps [keeping]:
  "keeps holds (list_passthrough ops sf idx meth key)" "keeps holds (backend_read_resource ops sf idx uri)"
  "keeps holds (backend_get_prompt ops sf idx name arguments)"
  unfolding list_passthrough_def backend_read_resource_def backend_get_prompt_def by (intro keeping)+

lemma list_resources_keeps [keeping]: "keeps holds (list_resources ops sf caller)"
  unfolding keeps_def
proof (intro allI impI)
  fix w s a w' s'
  assume s: "holds s" and run: "run_state (list_resources ops sf caller) (w, s) = (a, (w', s'))"
  obtain out w1 s1 where gather: "run_state (gather_resources ops sf (ss_catalog s) caller [0..<length (sf_upstreams sf)] ([], [])) (w, s) = (out, (w1, s1))"
    by (metis prod.exhaust)
  from gather_routes [OF this] have "s1 = s" "distinct (map fst (snd out))"
    "\<And>uri idx. map_of (snd out) uri = Some idx \<Longrightarrow> idx < length (sf_upstreams sf)" by fastforce+
  moreover from this have "\<forall>(uri, idx) \<in> set (snd out). idx < length (sf_upstreams sf)" by (auto dest: map_of_is_SomeI)
  ultimately show "holds s'"
    using run gather routes_keep [OF s]
    by (auto simp: list_resources_def get_state_def modify_state_def on_state_def State_Monad.bind_def State_Monad.return_def)
qed

lemma read_resource_keeps: "keeps holds (read_resource lib ops sf caller uri)"
  unfolding read_resource_def route_of_def by (intro keeping)

lemma prompts_keep: "keeps holds (list_prompts ops sf caller)" "keeps holds (get_prompt ops sf caller name arguments)"
proof -
  have "keeps holds (gather_prompts ops sf cat caller idxs)" for cat idxs
  proof (induction idxs)
    case (Cons idx idxs)
    show ?case by (simp only: gather_prompts.simps) (intro keeping Cons.IH)
  qed (simp add: keeps_return)
  then show "keeps holds (list_prompts ops sf caller)" unfolding list_prompts_def by (intro keeping)
  show "keeps holds (get_prompt ops sf caller name arguments)" unfolding get_prompt_def by (intro keeping)
qed

end

section \<open>The well-formed state\<close>

text \<open>No key twice in any store, the stores within their bounds, and every route at an upstream there is.\<close>

definition cache_formed :: "lib \<Rightarrow> read_cache \<Rightarrow> bool" where
  "cache_formed lib c \<longleftrightarrow> distinct (map fst c) \<and> length c \<le> read_cache_max_entries \<and>
     list_all (\<lambda>(_, _, v). length (lb_ser lib v) \<le> cache_entry_max_bytes) c"

definition memo_formed :: "lib \<Rightarrow> (string \<times> json) list \<Rightarrow> bool" where
  "memo_formed lib m \<longleftrightarrow> distinct (map fst m) \<and> list_all (\<lambda>(_, v). length (lb_ser lib v) \<le> max_cached_schema_bytes) m"

definition buckets_formed :: "buckets \<Rightarrow> bool" where
  "buckets_formed m \<longleftrightarrow> distinct (map fst m) \<and> length m \<le> max_buckets"

definition routes_formed :: "surface \<Rightarrow> (string \<times> nat) list \<Rightarrow> bool" where
  "routes_formed sf m \<longleftrightarrow> distinct (map fst m) \<and> list_all (\<lambda>(_, idx). idx < length (sf_upstreams sf)) m"

definition state_formed :: "lib \<Rightarrow> surface \<Rightarrow> surface_state \<Rightarrow> bool" where
  "state_formed lib sf s \<longleftrightarrow> cache_formed lib (ss_cache s) \<and> memo_formed lib (ss_memo s) \<and> buckets_formed (ss_buckets s) \<and>
     distinct (map fst (ss_breakers s)) \<and> routes_formed sf (ss_origin s)"

lemma set_alist_put: "set (alist_put k v m) \<subseteq> insert (k, v) (set m)"
  by (induction m rule: alist_put.induct [of _ k v]) auto

lemma cache_insert_formed: "cache_formed lib c \<Longrightarrow> cache_formed lib (cache_insert (lb_ser lib) ttl now k v c)"
  using read_caches.put_distinct [of c ttl k "(now, v)"] read_caches.put_bound [of c ttl k "(now, v)"]
  by (auto simp: cache_formed_def cache_insert_def cache_put_def Let_def list_all_iff dest!: set_mp [OF set_alist_put] split: if_splits)

lemma bust_formed: "cache_formed lib c \<Longrightarrow> cache_formed lib (bust_upstream_cache owner idx c)"
  unfolding bust_sub cache_formed_def
  by (auto simp: list_all_iff distinct_filter_keys intro: order_trans [OF length_filter_le])

lemma memo_step_formed: "memo_formed lib m \<Longrightarrow> memo_formed lib (snd (resolved_schema_memo (lb_ser lib) ups cat t m))"
  by (auto simp: memo_formed_def resolved_schema_memo_def Let_def list_all_iff distinct_alist_put dest!: set_mp [OF set_alist_put]
      split: option.splits)

lemma bucket_take_formed: "buckets_formed m \<Longrightarrow> bucket_take key l now m = (r, m') \<Longrightarrow> buckets_formed m'"
  using bucket_store.put_distinct [of m] bucket_store.put_bound [of m] by (auto simp: buckets_formed_def dest!: bucket_take_put)

lemma refund_formed: "buckets_formed m \<Longrightarrow> buckets_formed (bucket_refund key l now m)"
  by (auto simp: buckets_formed_def bucket_refund_def length_alist_put dest: map_of_SomeD split: option.split) (metis fst_conv image_eqI map_of_SomeD)

lemma refunds_formed: "buckets_formed m \<Longrightarrow> buckets_formed (fold (\<lambda>(k, l). bucket_refund k l now) charged m)"
  by (induction charged arbitrary: m) (auto simp: refund_formed)

lemma charge_tiers_formed: "buckets_formed m \<Longrightarrow> charge_tiers now charged ts m = (r, ls, m') \<Longrightarrow> buckets_formed m'"
proof (induction now charged ts m arbitrary: r ls m' rule: charge_tiers.induct)
  case (2 now charged t ts m)
  obtain q m1 where q: "bucket_take (ti_key t) (ti_limit t) now m = (q, m1)" by fastforce
  note m1 = bucket_take_formed [OF "2.prems"(1) q]
  show ?case
  proof (cases q)
    case (Inl retry)
    show ?thesis
    proof (cases "ti_enforced t")
      case True
      with "2.prems"(2) q Inl refunds_formed [OF m1] show ?thesis by auto
    next
      case False
      obtain r2 ls2 m2 where rest: "charge_tiers now charged ts m1 = (r2, ls2, m2)" by (metis prod_cases3)
      with "2.prems"(2) q Inl False have "m' = m2" by simp
      with "2.IH"(1) [OF q [symmetric] Inl False m1 rest] show ?thesis by simp
    qed
  next
    case (Inr u)
    with "2.prems"(2) q have "charge_tiers now (charged @ [(ti_key t, ti_limit t)]) ts m1 = (r, ls, m')" by simp
    with "2.IH"(2) [OF q [symmetric] Inr m1] show ?thesis by blast
  qed
qed simp

lemma routes_learned_formed:
  assumes "routes_formed sf m" "\<forall>(uri, idx) \<in> set routes. idx < length (sf_upstreams sf)"
  shows "routes_formed sf (fold (\<lambda>(uri, idx). alist_put uri idx) routes m)"
  using assms
proof (induction routes arbitrary: m)
  case (Cons x routes)
  obtain uri idx where x: "x = (uri, idx)" by (cases x)
  from Cons.prems have "routes_formed sf (alist_put uri idx m)"
    by (auto simp: routes_formed_def x list_all_iff dest!: set_mp [OF set_alist_put])
  with Cons.IH Cons.prems show ?case by (simp add: x)
qed simp

interpretation formed: state_invariant lib sf "state_formed lib sf" for lib sf
proof
  fix s who tool_id ov now r tiers m
  assume "state_formed lib sf s" "rate_limited (sf_config sf) who tool_id ov now (ss_buckets s) = (r, tiers, m)"
  then show "state_formed lib sf (s\<lparr>ss_buckets := m\<rparr>)"
    unfolding rate_limited_def by (auto simp: state_formed_def intro: charge_tiers_formed)
next
  fix s :: surface_state and routes :: "(string \<times> nat) list"
  assume "state_formed lib sf s" "\<forall>(uri, idx) \<in> set routes. idx < length (sf_upstreams sf)"
  then show "state_formed lib sf (learn_routes routes s)"
    by (simp add: state_formed_def learn_routes_def routes_learned_formed)
qed (auto simp: state_formed_def memo_step_formed cache_insert_formed bust_formed)

text \<open>The catalog in force is such a property too: no request but a re-index changes it.\<close>

interpretation same_catalog: state_invariant lib sf "\<lambda>s. ss_catalog s = cat" for lib sf cat
  by unfold_locales (simp_all add: learn_routes_def)

end
