(* ===== verification/Serve.thy ===== *)
theory Serve
  imports Upkeep Identity Modern
begin

text \<open>
  The MCP server in front of the surface (\<open>src/src/rmcp_serve.rs\<close>): the handlers of the six requests, each with the
  caller it serves, the errors they answer with, the re-index before a listing or a call, and the results in the SDK's
  types. The SDK's typed reading of JSON and its version order are parameters; \<open>sdk\<close> bundles them.
\<close>

section \<open>Results and errors\<close>

record error_data =
  ed_code :: int
  ed_message :: string
  ed_data :: "json option"

text \<open>The SDK's constructors, with the codes of the protocol.\<close>

definition invalid_request :: "string \<Rightarrow> json option \<Rightarrow> error_data" where
  "invalid_request msg d = \<lparr>ed_code = -32600, ed_message = msg, ed_data = d\<rparr>"

definition invalid_params :: "string \<Rightarrow> json option \<Rightarrow> error_data" where
  "invalid_params msg d = \<lparr>ed_code = -32602, ed_message = msg, ed_data = d\<rparr>"

definition internal_error :: "string \<Rightarrow> json option \<Rightarrow> error_data" where
  "internal_error msg d = \<lparr>ed_code = -32603, ed_message = msg, ed_data = d\<rparr>"

definition resource_not_found :: "string \<Rightarrow> json option \<Rightarrow> error_data" where
  "resource_not_found msg d = \<lparr>ed_code = -32002, ed_message = msg, ed_data = d\<rparr>"

record 'a listing =
  li_items :: "'a list"
  li_ttl_ms :: nat
  li_private :: bool

record 'b call_result =
  cr_is_error :: bool
  cr_content :: "'b list"
  cr_structured :: "json option"

text \<open>Reading JSON as the SDK's tool, resource, prompt, content block, resource contents and prompt result; making a tool
  from its three core fields and a block from a text; whether a protocol version is \<open>2026-07-28\<close> or later.\<close>

record ('t, 'r, 'p, 'b) sdk =
  sk_tool :: "json \<Rightarrow> 't option"
  sk_new_tool :: "string \<Rightarrow> string \<Rightarrow> jmap \<Rightarrow> 't"
  sk_resource :: "json \<Rightarrow> 'r option"
  sk_prompt :: "json \<Rightarrow> 'p option"
  sk_block :: "json \<Rightarrow> 'b option"
  sk_text_block :: "string \<Rightarrow> 'b"
  sk_contents :: "json \<Rightarrow> string + json"
  sk_prompt_result :: "json \<Rightarrow> string + json"
  sk_modern :: "string \<Rightarrow> bool"

definition list_ttl_ms :: nat where
  "list_ttl_ms = 60000"

definition listing_of :: "'a list \<Rightarrow> 'a listing" where
  "listing_of items = \<lparr>li_items = items, li_ttl_ms = list_ttl_ms, li_private = True\<rparr>"

definition entries :: "json \<Rightarrow> string \<Rightarrow> json list" where
  "entries v key = (case Option.bind (vget v key) as_array of Some a \<Rightarrow> a | None \<Rightarrow> [])"

definition collect_valid :: "(json \<Rightarrow> 'a option) \<Rightarrow> json \<Rightarrow> string \<Rightarrow> 'a list" where
  "collect_valid read v key = List.map_filter read (entries v key)"

definition json_to_tool :: "('t, 'r, 'p, 'b) sdk \<Rightarrow> json \<Rightarrow> 't option" where
  "json_to_tool sdk v = (case sk_tool sdk v of
       Some t \<Rightarrow> Some t
     | None \<Rightarrow> (case Option.bind (vget v ''name'') as_str of
         None \<Rightarrow> None
       | Some name \<Rightarrow> Some (sk_new_tool sdk name (str_or_empty (vget v ''description''))
           (case Option.bind (vget v ''inputSchema'') as_object of Some m \<Rightarrow> m | None \<Rightarrow> []))))"

definition value_to_call_result :: "('t, 'r, 'p, 'b) sdk \<Rightarrow> json \<Rightarrow> 'b call_result" where
  "value_to_call_result sdk result =
     \<lparr>cr_is_error = (Option.bind (vget result ''isError'') as_bool = Some True),
      cr_content = map (\<lambda>b. case sk_block sdk b of Some x \<Rightarrow> x | None \<Rightarrow> sk_text_block sdk (str_or_empty (vget b ''text'')))
        (entries result ''content''),
      cr_structured = vget result ''structuredContent''\<rparr>"

section \<open>Failed reads\<close>

definition unknown_resource_text :: "string \<Rightarrow> string" where
  "unknown_resource_text uri = ''unknown resource uri '' @ debug_str uri @ '' '' @ em_dash @ '' list resources first''"

definition not_found :: "('t, 'r, 'p, 'b) sdk \<Rightarrow> string option \<Rightarrow> string \<Rightarrow> json option \<Rightarrow> error_data" where
  "not_found sdk version msg d =
     (case version of
        Some v \<Rightarrow> if sk_modern sdk v then invalid_params msg d else resource_not_found msg d
      | None \<Rightarrow> resource_not_found msg d)"

definition fits_i32 :: "int \<Rightarrow> bool" where
  "fits_i32 c \<longleftrightarrow> -2147483648 \<le> c \<and> c \<le> 2147483647"

definition serve_read_error :: "('t, 'r, 'p, 'b) sdk \<Rightarrow> read_error \<Rightarrow> string \<Rightarrow> string option \<Rightarrow> error_data" where
  "serve_read_error sdk e uri version = (case e of
       UnknownResource u \<Rightarrow> not_found sdk version (unknown_resource_text u) (Some (JObj [(''uri'', JStr uri)]))
     | ReadFailed (msg, None) \<Rightarrow> internal_error msg None
     | ReadFailed (msg, Some err) \<Rightarrow>
         (let d = vget err ''data'' in
          case rpc_code err of
            None \<Rightarrow> internal_error msg None
          | Some c \<Rightarrow>
              if c = -32002 then not_found sdk version msg d
              else if is_negotiation_error c then internal_error msg None
              else if fits_i32 c then \<lparr>ed_code = c, ed_message = msg, ed_data = d\<rparr>
              else internal_error msg None))"

section \<open>The re-index before a request\<close>

text \<open>Which upstreams flagged a change, and when the listings run out.\<close>

record index_flags =
  fl_stale :: "bool list"
  fl_recheck :: "nat option list"

type_synonym ('w, 'a) served = "(index_flags \<times> 'w \<times> surface_state, 'a) state"

text \<open>What a re-index asks of the world besides the clock: another one under way, what every upstream lists now, and the
  building of a catalog (\<open>build_catalog\<close> with the configuration, the secrets and the upstreams).\<close>

record 'w index_ops =
  io_busy :: "'w \<Rightarrow> bool"
  io_relist :: "'w \<Rightarrow> (nat \<Rightarrow> (tool_def list \<times> nat option) option) \<times> 'w"
  io_expand :: "string \<Rightarrow> string + string"

definition rebuild :: "lib \<Rightarrow> 'w index_ops \<Rightarrow> surface \<Rightarrow> tool_def list list \<Rightarrow> string catalog_error + catalog" where
  "rebuild lib io sf = build_catalog (lb_ser lib) (io_expand io) (uc_lowercase (lb_uc lib)) (sf_config sf) (sf_upstreams sf)"

definition on_surface :: "('w, 'a) run \<Rightarrow> ('w, 'a) served" where
  "on_surface m = State (\<lambda>(fl, ws). case run_state m ws of (a, ws) \<Rightarrow> (a, (fl, ws)))"

text \<open>A new catalog starts with an empty schema memo; the usage prior stays.\<close>

definition refresh_surface :: "lib \<Rightarrow> 'w world_ops \<Rightarrow> 'w index_ops \<Rightarrow> surface \<Rightarrow> ('w, bool) served" where
  "refresh_surface lib ops io sf = State (\<lambda>(fl, w, s).
     case wo_now ops w of (now, w) \<Rightarrow>
       if due now (fl_stale fl) (fl_recheck fl) = [] \<or> io_busy io w then (False, (fl, w, s))
       else (case io_relist io w of (relist, w) \<Rightarrow>
         (case refresh_if_due (lb_ser lib) (rebuild lib io sf) relist now
             \<lparr>ix_catalog = ss_catalog s, ix_stale = fl_stale fl, ix_recheck = fl_recheck fl\<rparr> of
            (changed, ix) \<Rightarrow>
              (changed, (\<lparr>fl_stale = ix_stale ix, fl_recheck = ix_recheck ix\<rparr>, w,
                 if changed then s\<lparr>ss_catalog := ix_catalog ix, ss_memo := []\<rparr> else s)))))"

section \<open>The handlers\<close>

text \<open>A request is served as a caller, or refused.\<close>

definition with_caller :: "bool \<Rightarrow> caller \<Rightarrow> caller option \<Rightarrow> (caller \<Rightarrow> ('w, error_data + 'a) served) \<Rightarrow> ('w, error_data + 'a) served" where
  "with_caller enforced process attached serve = (case handler_caller enforced process attached of
       Inl msg \<Rightarrow> State_Monad.return (Inl (invalid_request msg None))
     | Inr caller \<Rightarrow> serve caller)"

definition serve_list_resources :: "('t, 'r, 'p, 'b) sdk \<Rightarrow> 'w world_ops \<Rightarrow> surface \<Rightarrow> caller \<Rightarrow> ('w, error_data + 'r listing) served" where
  "serve_list_resources sdk ops sf caller = do {
     v \<leftarrow> on_surface (list_resources ops sf caller);
     State_Monad.return (Inr (listing_of (collect_valid (sk_resource sdk) v ''resources'')))
   }"

definition serve_read_resource ::
  "('t, 'r, 'p, 'b) sdk \<Rightarrow> lib \<Rightarrow> 'w world_ops \<Rightarrow> surface \<Rightarrow> string option \<Rightarrow> string \<Rightarrow> caller \<Rightarrow> ('w, error_data + json) served" where
  "serve_read_resource sdk lib ops sf version uri caller = do {
     r \<leftarrow> on_surface (read_resource lib ops sf caller uri);
     State_Monad.return (case r of
         Inl e \<Rightarrow> Inl (serve_read_error sdk e uri version)
       | Inr v \<Rightarrow> (case sk_contents sdk v of Inl e \<Rightarrow> Inl (internal_error e None) | Inr res \<Rightarrow> Inr res))
   }"

definition serve_list_prompts :: "('t, 'r, 'p, 'b) sdk \<Rightarrow> 'w world_ops \<Rightarrow> surface \<Rightarrow> caller \<Rightarrow> ('w, error_data + 'p listing) served" where
  "serve_list_prompts sdk ops sf caller = do {
     v \<leftarrow> on_surface (list_prompts ops sf caller);
     State_Monad.return (Inr (listing_of (collect_valid (sk_prompt sdk) v ''prompts'')))
   }"

definition serve_get_prompt ::
  "('t, 'r, 'p, 'b) sdk \<Rightarrow> 'w world_ops \<Rightarrow> surface \<Rightarrow> string \<Rightarrow> jmap option \<Rightarrow> caller \<Rightarrow> ('w, error_data + json) served" where
  "serve_get_prompt sdk ops sf name arguments caller = do {
     r \<leftarrow> on_surface (get_prompt ops sf caller name (case arguments of Some m \<Rightarrow> JObj m | None \<Rightarrow> JNull));
     State_Monad.return (case r of
         Inl e \<Rightarrow> Inl (invalid_params e None)
       | Inr v \<Rightarrow> (case sk_prompt_result sdk v of Inl e \<Rightarrow> Inl (internal_error e None) | Inr res \<Rightarrow> Inr res))
   }"

definition serve_list_tools ::
  "('t, 'r, 'p, 'b) sdk \<Rightarrow> lib \<Rightarrow> 'w world_ops \<Rightarrow> 'w index_ops \<Rightarrow> surface \<Rightarrow> caller \<Rightarrow> ('w, error_data + 't listing) served" where
  "serve_list_tools sdk lib ops io sf caller = do {
     _ \<leftarrow> refresh_surface lib ops io sf;
     v \<leftarrow> on_surface (list_tools lib sf caller);
     State_Monad.return (Inr (listing_of (List.map_filter (json_to_tool sdk) (entries v ''tools''))))
   }"

text \<open>The flag with a call's result says that the client is told its listing is out of date, before the result.\<close>

definition serve_call_tool ::
  "('t, 'r, 'p, 'b) sdk \<Rightarrow> lib \<Rightarrow> 'w world_ops \<Rightarrow> 'w index_ops \<Rightarrow> surface \<Rightarrow> string \<Rightarrow> jmap option \<Rightarrow> caller
    \<Rightarrow> ('w, error_data + bool \<times> 'b call_result) served" where
  "serve_call_tool sdk lib ops io sf name arguments caller = do {
     changed \<leftarrow> refresh_surface lib ops io sf;
     r \<leftarrow> on_surface (call lib ops sf caller name (case arguments of Some m \<Rightarrow> JObj m | None \<Rightarrow> JObj []));
     State_Monad.return (Inr (changed \<and> c_mode (sf_config sf) = Passthrough, value_to_call_result sdk r))
   }"

datatype request =
    ListResources
  | ReadResource "string option" string
  | ListPrompts
  | GetPrompt string "jmap option"
  | ListTools
  | CallTool string "jmap option"

datatype ('t, 'r, 'p, 'b) response =
    Resources "'r listing"
  | Contents json
  | Prompts "'p listing"
  | PromptResult json
  | Tools "'t listing"
  | Called bool "'b call_result"

definition as_response :: "('a \<Rightarrow> ('t, 'r, 'p, 'b) response) \<Rightarrow> ('w, error_data + 'a) served \<Rightarrow> ('w, error_data + ('t, 'r, 'p, 'b) response) served" where
  "as_response f m = do { r \<leftarrow> m; State_Monad.return (map_sum id f r) }"

fun serve_as ::
  "('t, 'r, 'p, 'b) sdk \<Rightarrow> lib \<Rightarrow> 'w world_ops \<Rightarrow> 'w index_ops \<Rightarrow> surface \<Rightarrow> request \<Rightarrow> caller
    \<Rightarrow> ('w, error_data + ('t, 'r, 'p, 'b) response) served" where
  "serve_as sdk lib ops io sf ListResources caller = as_response Resources (serve_list_resources sdk ops sf caller)"
| "serve_as sdk lib ops io sf (ReadResource version uri) caller = as_response Contents (serve_read_resource sdk lib ops sf version uri caller)"
| "serve_as sdk lib ops io sf ListPrompts caller = as_response Prompts (serve_list_prompts sdk ops sf caller)"
| "serve_as sdk lib ops io sf (GetPrompt name arguments) caller = as_response PromptResult (serve_get_prompt sdk ops sf name arguments caller)"
| "serve_as sdk lib ops io sf ListTools caller = as_response Tools (serve_list_tools sdk lib ops io sf caller)"
| "serve_as sdk lib ops io sf (CallTool name arguments) caller =
     as_response (\<lambda>(told, r). Called told r) (serve_call_tool sdk lib ops io sf name arguments caller)"

definition serve ::
  "('t, 'r, 'p, 'b) sdk \<Rightarrow> lib \<Rightarrow> 'w world_ops \<Rightarrow> 'w index_ops \<Rightarrow> surface \<Rightarrow> bool \<Rightarrow> caller \<Rightarrow> request \<Rightarrow> caller option
    \<Rightarrow> ('w, error_data + ('t, 'r, 'p, 'b) response) served" where
  "serve sdk lib ops io sf enforced process req attached = with_caller enforced process attached (serve_as sdk lib ops io sf req)"

text \<open>The server's life: requests, and the upstreams' announcements that their tools changed, in any order.\<close>

datatype arrival = Arrived request "caller option" | Flagged nat

definition flag_stale :: "nat \<Rightarrow> ('w, unit) served" where
  "flag_stale idx = State (\<lambda>(fl, ws). ((), (fl\<lparr>fl_stale := (fl_stale fl)[idx := True]\<rparr>, ws)))"

fun serve_all ::
  "('t, 'r, 'p, 'b) sdk \<Rightarrow> lib \<Rightarrow> 'w world_ops \<Rightarrow> 'w index_ops \<Rightarrow> surface \<Rightarrow> bool \<Rightarrow> caller \<Rightarrow> arrival list
    \<Rightarrow> ('w, (error_data + ('t, 'r, 'p, 'b) response) list) served" where
  "serve_all sdk lib ops io sf enforced process [] = State_Monad.return []"
| "serve_all sdk lib ops io sf enforced process (Flagged idx # evs) = do {
     _ \<leftarrow> flag_stale idx;
     serve_all sdk lib ops io sf enforced process evs
   }"
| "serve_all sdk lib ops io sf enforced process (Arrived req attached # evs) = do {
     r \<leftarrow> serve sdk lib ops io sf enforced process req attached;
     rs \<leftarrow> serve_all sdk lib ops io sf enforced process evs;
     State_Monad.return (r # rs)
   }"

definition server_info :: "surface \<Rightarrow> string \<Rightarrow> json" where
  "server_info sf version = JObj
     [(''capabilities'', JObj [(''tools'', JObj (if c_mode (sf_config sf) = Passthrough then [(''listChanged'', JBool True)] else [])),
        (''resources'', JObj []), (''prompts'', JObj [])]),
      (''serverInfo'', JObj [(''name'', JStr ''min-mcp''), (''version'', JStr version)]),
      (''instructions'', JStr ''Minified MCP surface. Use search_tools to find a tool, get_tool_details for its schema, then call_tool to run it.'')]"

section \<open>What serving keeps\<close>

text \<open>The state between requests: the surface's state is well formed, and the served catalog is what its own listings
  build, with a listing, a flag and a slot for every upstream.\<close>

definition index_of :: "index_flags \<Rightarrow> surface_state \<Rightarrow> index_state" where
  "index_of fl s = \<lparr>ix_catalog = ss_catalog s, ix_stale = fl_stale fl, ix_recheck = fl_recheck fl\<rparr>"

definition serving_formed :: "lib \<Rightarrow> 'w index_ops \<Rightarrow> surface \<Rightarrow> index_flags \<Rightarrow> surface_state \<Rightarrow> bool" where
  "serving_formed lib io sf fl s \<longleftrightarrow>
     state_formed lib sf s \<and> index_ok (rebuild lib io sf) (length (sf_upstreams sf)) (index_of fl s)"

definition serving_keeps :: "(index_flags \<Rightarrow> surface_state \<Rightarrow> bool) \<Rightarrow> ('w, 'a) served \<Rightarrow> bool" where
  "serving_keeps P m \<longleftrightarrow>
     (\<forall>fl w s a fl' w' s'. P fl s \<longrightarrow> run_state m (fl, w, s) = (a, (fl', w', s')) \<longrightarrow> P fl' s')"

lemma serving_keepsD:
  "serving_keeps P m \<Longrightarrow> P fl s \<Longrightarrow> run_state m (fl, w, s) = (a, (fl', w', s')) \<Longrightarrow> P fl' s'"
  unfolding serving_keeps_def by blast

named_theorems serving

lemma serving_return [serving]: "serving_keeps P (State_Monad.return a)"
  by (simp add: serving_keeps_def State_Monad.return_def)

lemma serving_bind [serving]:
  assumes "serving_keeps P m" "\<And>a. serving_keeps P (f a)"
  shows "serving_keeps P (State_Monad.bind m f)"
  unfolding serving_keeps_def
proof (intro allI impI)
  fix fl w s b fl'' w'' s''
  assume s: "P fl s" and run: "run_state (State_Monad.bind m f) (fl, w, s) = (b, (fl'', w'', s''))"
  obtain a fl' w' s' where m: "run_state m (fl, w, s) = (a, (fl', w', s'))" by (metis prod.exhaust)
  with run have "run_state (f a) (fl', w', s') = (b, (fl'', w'', s''))" by (simp add: State_Monad.bind_def)
  moreover from assms(1) s m have "P fl' s'" unfolding serving_keeps_def by blast
  ultimately show "P fl'' s''" using assms(2) [of a] unfolding serving_keeps_def by blast
qed

lemma serving_on_surface:
  assumes "keeps (state_formed lib sf) m" "\<And>cat. keeps (\<lambda>s. ss_catalog s = cat) m"
  shows "serving_keeps (serving_formed lib io sf) (on_surface m)"
  unfolding serving_keeps_def
proof (intro allI impI)
  fix fl w s a fl' w' s'
  assume s: "serving_formed lib io sf fl s" and run: "run_state (on_surface m) (fl, w, s) = (a, (fl', w', s'))"
  then have m: "run_state m (w, s) = (a, (w', s'))" and fl: "fl' = fl" by (auto simp: on_surface_def split: prod.splits)
  have "state_formed lib sf s'" using assms(1) m s unfolding keeps_def serving_formed_def by blast
  moreover have "ss_catalog s' = ss_catalog s" using assms(2) m unfolding keeps_def by blast
  ultimately show "serving_formed lib io sf fl' s'" using s fl by (simp add: serving_formed_def index_of_def)
qed

lemma rebuild_listings: "rebuild lib io sf ls = Inr c \<Longrightarrow> ct_listings c = ls"
  unfolding rebuild_def by (rule build_listings)

lemma new_catalog_formed: "state_formed lib sf s \<Longrightarrow> state_formed lib sf (s\<lparr>ss_catalog := cat, ss_memo := []\<rparr>)"
  by (simp add: state_formed_def memo_formed_def)

lemma unchanged_catalog: "refresh_if_due ser build relist now st = (False, st') \<Longrightarrow> ix_catalog st' = ix_catalog st"
  by (auto simp: refresh_if_due_def Let_def split: if_splits prod.splits option.splits)

lemma refresh_serving [serving]: "serving_keeps (serving_formed lib io sf) (refresh_surface lib ops io sf)"
  unfolding serving_keeps_def
proof (intro allI impI)
  fix fl w s a fl' w' s'
  assume s: "serving_formed lib io sf fl s" and run: "run_state (refresh_surface lib ops io sf) (fl, w, s) = (a, (fl', w', s'))"
  obtain now w1 where now: "wo_now ops w = (now, w1)" by fastforce
  show "serving_formed lib io sf fl' s'"
  proof (cases "due now (fl_stale fl) (fl_recheck fl) = [] \<or> io_busy io w1")
    case True
    with run now s show ?thesis by (auto simp: refresh_surface_def)
  next
    case False
    obtain relist w2 where relist: "io_relist io w1 = (relist, w2)" by fastforce
    obtain changed ix where ix: "refresh_if_due (lb_ser lib) (rebuild lib io sf) relist now (index_of fl s) = (changed, ix)"
      by fastforce
    from run now False relist ix have res: "fl' = \<lparr>fl_stale = ix_stale ix, fl_recheck = ix_recheck ix\<rparr>"
      "s' = (if changed then s\<lparr>ss_catalog := ix_catalog ix, ss_memo := []\<rparr> else s)"
      by (auto simp: refresh_surface_def index_of_def)
    have "index_ok (rebuild lib io sf) (length (sf_upstreams sf)) ix"
      using refresh_spec(1) [where build = "rebuild lib io sf", OF _ rebuild_listings [of lib io sf] refl] s ix
      unfolding serving_formed_def by (metis snd_conv)
    moreover have "index_of fl' s' = ix"
      using unchanged_catalog [of "lb_ser lib" "rebuild lib io sf" relist now "index_of fl s" ix] ix
      by (cases changed; cases ix) (simp_all add: res index_of_def)
    ultimately show ?thesis using s by (simp add: serving_formed_def res new_catalog_formed)
  qed
qed

lemma serving_case_option [serving]:
  "serving_keeps P m \<Longrightarrow> (\<And>x. serving_keeps P (f x)) \<Longrightarrow> serving_keeps P (case v of None \<Rightarrow> m | Some x \<Rightarrow> f x)"
  by (cases v) auto

lemma surface_requests_serving [serving]:
  "serving_keeps (serving_formed lib io sf) (on_surface (list_tools lib sf caller))"
  "serving_keeps (serving_formed lib io sf) (on_surface (call lib ops sf caller name args))"
  "serving_keeps (serving_formed lib io sf) (on_surface (list_resources ops sf caller))"
  "serving_keeps (serving_formed lib io sf) (on_surface (read_resource lib ops sf caller uri))"
  "serving_keeps (serving_formed lib io sf) (on_surface (list_prompts ops sf caller))"
  "serving_keeps (serving_formed lib io sf) (on_surface (get_prompt ops sf caller name args))"
  by (intro serving_on_surface formed.list_tools_keeps same_catalog.list_tools_keeps formed.call_keeps same_catalog.call_keeps
      formed.list_resources_keeps same_catalog.list_resources_keeps formed.read_resource_keeps same_catalog.read_resource_keeps
      formed.prompts_keep same_catalog.prompts_keep)+

lemma serve_as_serving [serving]: "serving_keeps (serving_formed lib io sf) (serve_as sdk lib ops io sf req caller)"
  by (cases req)
    (simp_all add: as_response_def serve_list_resources_def serve_read_resource_def serve_list_prompts_def serve_get_prompt_def
      serve_list_tools_def serve_call_tool_def, (intro serving)+)

lemma serve_serving [serving]: "serving_keeps (serving_formed lib io sf) (serve sdk lib ops io sf enforced process req attached)"
  unfolding serve_def with_caller_def
  by (cases "handler_caller enforced process attached") (simp_all, (intro serving)+)

lemma flag_stale_serving [serving]: "serving_keeps (serving_formed lib io sf) (flag_stale idx)"
  by (auto simp: serving_keeps_def flag_stale_def serving_formed_def index_of_def index_ok_def)

lemma serve_all_serving: "serving_keeps (serving_formed lib io sf) (serve_all sdk lib ops io sf enforced process evs)"
proof (induction evs)
  case (Cons e evs)
  then show ?case by (cases e) (simp_all only: serve_all.simps, (intro serving Cons.IH)+)
qed (simp add: serving_return)

lemma serve_all_length:
  "run_state (serve_all sdk lib ops io sf enforced process evs) st = (rs, st') \<Longrightarrow>
   length rs = length (filter (\<lambda>e. \<forall>idx. e \<noteq> Flagged idx) evs)"
  by (induction sdk lib ops io sf enforced process evs arbitrary: st rs st' rule: serve_all.induct)
    (auto simp: State_Monad.bind_def State_Monad.return_def split: prod.splits)

section \<open>What the handlers answer\<close>

lemma unidentified_refused:
  "run_state (serve sdk lib ops io sf True process req None) st =
     (Inl (invalid_request ''unauthenticated: this request carried no caller identity'' None), st)"
  by (simp add: serve_def with_caller_def handler_caller_def State_Monad.return_def)

lemma identified_served: "serve sdk lib ops io sf enforced process req (Some caller) = serve_as sdk lib ops io sf req caller"
  by (simp add: serve_def with_caller_def handler_caller_def)

text \<open>A tool with a name is never lost from a listing, whatever the SDK refuses of its definition; and a call's result
  keeps every block, its structured content and its error flag.\<close>

lemma named_tool_kept: "Option.bind (vget v ''name'') as_str = Some name \<Longrightarrow> json_to_tool sdk v \<noteq> None"
  by (simp add: json_to_tool_def split: option.split)

lemma named_tools_kept:
  "list_all (\<lambda>v. Option.bind (vget v ''name'') as_str \<noteq> None) vs \<Longrightarrow> length (List.map_filter (json_to_tool sdk) vs) = length vs"
proof (induction vs)
  case (Cons v vs)
  then obtain name where "Option.bind (vget v ''name'') as_str = Some name" by auto
  with named_tool_kept [of v name sdk] Cons show ?case by (auto simp: List.map_filter_def)
qed (simp add: List.map_filter_def)

lemma call_result_kept:
  "length (cr_content (value_to_call_result sdk r)) = length (entries r ''content'')"
  "cr_structured (value_to_call_result sdk r) = vget r ''structuredContent''"
  "cr_is_error (value_to_call_result sdk r) \<longleftrightarrow> Option.bind (vget r ''isError'') as_bool = Some True"
  by (simp_all add: value_to_call_result_def)

text \<open>The error of a failed read: not found has the code of the client's revision, wherever it was decided; a code about
  the gateway's own session with the upstream never reaches the client; every code is a 32-bit integer.\<close>

definition not_found_code :: "('t, 'r, 'p, 'b) sdk \<Rightarrow> string option \<Rightarrow> int" where
  "not_found_code sdk version = (case version of Some v \<Rightarrow> if sk_modern sdk v then -32602 else -32002 | None \<Rightarrow> -32002)"

lemma not_found_has_code: "ed_code (not_found sdk version msg d) = not_found_code sdk version"
  by (simp add: not_found_def not_found_code_def invalid_params_def resource_not_found_def split: option.split)

theorem read_error_codes:
  "ed_code (serve_read_error sdk (UnknownResource u) uri version) = not_found_code sdk version"
  "rpc_code err = Some (-32002) \<Longrightarrow> ed_code (serve_read_error sdk (ReadFailed (msg, Some err)) uri version) = not_found_code sdk version"
  "\<not> is_negotiation_error (ed_code (serve_read_error sdk e uri version))"
  "fits_i32 (ed_code (serve_read_error sdk e uri version))"
proof -
  have nf: "\<not> is_negotiation_error (not_found_code sdk version)" "fits_i32 (not_found_code sdk version)"
    by (simp_all add: not_found_code_def is_negotiation_error_def unsupported_protocol_version_def header_mismatch_def
      missing_required_client_capability_def fits_i32_def split: option.split)
  have ie: "ed_code (internal_error m d) = -32603" "\<not> is_negotiation_error (-32603)" "fits_i32 (-32603)" for m d
    by (simp_all add: internal_error_def is_negotiation_error_def unsupported_protocol_version_def header_mismatch_def
      missing_required_client_capability_def fits_i32_def)
  show "ed_code (serve_read_error sdk (UnknownResource u) uri version) = not_found_code sdk version"
    "rpc_code err = Some (-32002) \<Longrightarrow> ed_code (serve_read_error sdk (ReadFailed (msg, Some err)) uri version) = not_found_code sdk version"
    by (simp_all add: serve_read_error_def not_found_has_code)
  show "\<not> is_negotiation_error (ed_code (serve_read_error sdk e uri version))" "fits_i32 (ed_code (serve_read_error sdk e uri version))"
    by (auto simp: serve_read_error_def not_found_has_code nf ie Let_def split: read_error.split option.split)
qed

end
