(* ===== verification/Startup.thy ===== *)
theory Startup
  imports Serve "HOL-Library.Sublist"
begin

text \<open>
  Building the surface (\<open>Surface::build\<close> of \<open>src/src/surface.rs\<close>): which upstreams are connected and which may fail,
  the catalog, the audit stream and its chain, the first schedule, the checks that refuse to start. Connecting to an
  upstream, opening the log file and reading it are asked of the world.
\<close>

section \<open>Connecting\<close>

definition kind_of_upstream :: "upstream_config \<Rightarrow> backend_kind" where
  "kind_of_upstream u = (if is_spec u then BK_Spec else if is_http u then BK_Http else BK_Mcp)"

text \<open>Connecting as a kind, with the index its tools are stamped with: the upstream, its first listing and its
  \<open>ttlMs\<close>, or the error.\<close>

record 'w boot_ops =
  bo_connect :: "backend_kind \<Rightarrow> upstream_config \<Rightarrow> nat \<Rightarrow> 'w \<Rightarrow> (string + upstream \<times> tool_def list \<times> nat option) \<times> 'w"
  bo_open :: "string \<Rightarrow> 'w \<Rightarrow> bool \<times> 'w"
  bo_read :: "string \<Rightarrow> 'w \<Rightarrow> string option \<times> 'w"

record connected =
  co_upstreams :: "upstream list"
  co_listings :: "tool_def list list"
  co_ttls :: "nat option list"
  co_skipped :: nat

definition none_connected :: connected where
  "none_connected = \<lparr>co_upstreams = [], co_listings = [], co_ttls = [], co_skipped = 0\<rparr>"

definition add_connected :: "upstream \<times> tool_def list \<times> nat option \<Rightarrow> connected \<Rightarrow> connected" where
  "add_connected r c = (case r of (up, listed, ttl) \<Rightarrow>
     c\<lparr>co_upstreams := co_upstreams c @ [up], co_listings := co_listings c @ [listed], co_ttls := co_ttls c @ [ttl]\<rparr>)"

fun connect_all ::
  "'w boot_ops \<Rightarrow> config \<Rightarrow> upstream_config list \<Rightarrow> connected \<Rightarrow> 'w \<Rightarrow> (string + connected) \<times> 'w" where
  "connect_all bo cfg [] c w = (Inr c, w)"
| "connect_all bo cfg (u # us) c w =
     (if \<not> upstream_enabled cfg (up_name u) then connect_all bo cfg us c w
      else (case bo_connect bo (kind_of_upstream u) u (length (co_upstreams c)) w of
          (Inr r, w) \<Rightarrow> connect_all bo cfg us (add_connected r c) w
        | (Inl e, w) \<Rightarrow>
            if up_optional u then connect_all bo cfg us (c\<lparr>co_skipped := Suc (co_skipped c)\<rparr>) w else (Inl e, w)))"

section \<open>The audit stream\<close>

datatype start_error =
    ConnectFailed string
  | CatalogFailed "string catalog_error"
  | LogNotOpened string
  | LogKeyUnresolved string
  | LogNotChained audit_error
  | NoLogToSign

text \<open>Whether events are logged, the chain and the key of the argument fingerprints. \<open>stderr\<close> is not resumed from.\<close>

definition open_log :: "'w boot_ops \<Rightarrow> config \<Rightarrow> 'w \<Rightarrow> (start_error + bool) \<times> 'w" where
  "open_log bo cfg w = (case c_log_file cfg of
       None \<Rightarrow> (Inr False, w)
     | Some path \<Rightarrow>
         if path = ''stderr'' then (Inr True, w)
         else (case bo_open bo path w of (ok, w) \<Rightarrow> (if ok then Inr True else Inl (LogNotOpened path), w)))"

definition resumed_chain :: "lib \<Rightarrow> 'w boot_ops \<Rightarrow> config \<Rightarrow> chain \<Rightarrow> 'w \<Rightarrow> (audit_error + chain) \<times> 'w" where
  "resumed_chain lib bo cfg ch w = (case c_log_file cfg of
       None \<Rightarrow> (Inr ch, w)
     | Some path \<Rightarrow>
         if path = ''stderr'' then (Inr ch, w)
         else (case bo_read bo path w of (file, w) \<Rightarrow> (resume_from (lb_parse lib) file ch, w)))"

definition sign_log ::
  "lib \<Rightarrow> (string \<Rightarrow> string + string) \<Rightarrow> 'w boot_ops \<Rightarrow> config \<Rightarrow> bool \<Rightarrow> 'w \<Rightarrow> (start_error + (chain \<times> string) option) \<times> 'w" where
  "sign_log lib expand bo cfg logging w = (case c_log_hmac_key cfg of
       None \<Rightarrow> (Inr None, w)
     | Some key_ref \<Rightarrow>
         if \<not> logging then (Inl NoLogToSign, w)
         else (case expand key_ref of
             Inl e \<Rightarrow> (Inl (LogKeyUnresolved e), w)
           | Inr key \<Rightarrow> (case resumed_chain lib bo cfg (new_chain key) w of
               (Inl e, w) \<Rightarrow> (Inl (LogNotChained e), w)
             | (Inr ch, w) \<Rightarrow> (Inr (Some (ch, args_key (lb_hmac lib) key)), w))))"

section \<open>The surface\<close>

definition workflow_index :: "config \<Rightarrow> (string \<times> nat) list" where
  "workflow_index cfg = fold (\<lambda>(i, wf). alist_put (wf_id wf) i) (List.enumerate 0 (c_workflows cfg)) []"

definition new_surface :: "lib \<Rightarrow> config \<Rightarrow> upstream list \<Rightarrow> catalog \<Rightarrow> bool \<Rightarrow> (chain \<times> string) option \<Rightarrow> surface" where
  "new_surface lib cfg ups cat logging signing =
     \<lparr>sf_config = cfg, sf_upstreams = ups, sf_workflow_by_id = workflow_index cfg, sf_logging = logging,
      sf_args_key = map_option snd signing,
      sf_shadow = new_shadow (lb_uc lib) (lb_bm25 lib) (corpus cfg (ct_tools cat)) (c_shadow cfg)\<rparr>"

definition new_state :: "catalog \<Rightarrow> (chain \<times> string) option \<Rightarrow> surface_state" where
  "new_state cat signing =
     \<lparr>ss_catalog = cat, ss_memo = [], ss_cache = [], ss_breakers = [], ss_buckets = [], ss_used = [],
      ss_chain = map_option fst signing, ss_log = [], ss_turn = None, ss_origin = []\<rparr>"

text \<open>Each slot is set at its own reading of the clock; one without a \<open>ttlMs\<close> reads none.\<close>

fun schedule_all :: "'w world_ops \<Rightarrow> nat \<Rightarrow> nat option list \<Rightarrow> nat option list \<Rightarrow> 'w \<Rightarrow> nat option list \<times> 'w" where
  "schedule_all ops idx [] recheck w = (recheck, w)"
| "schedule_all ops idx (None # ttls) recheck w = schedule_all ops (Suc idx) ttls (schedule_recheck 0 idx None recheck) w"
| "schedule_all ops idx (Some ttl # ttls) recheck w =
     (case wo_now ops w of (now, w) \<Rightarrow> schedule_all ops (Suc idx) ttls (schedule_recheck now idx (Some ttl) recheck) w)"

definition surface_build ::
  "lib \<Rightarrow> 'w world_ops \<Rightarrow> 'w boot_ops \<Rightarrow> (string \<Rightarrow> string + string) \<Rightarrow> config \<Rightarrow> 'w
    \<Rightarrow> (start_error + surface \<times> index_flags \<times> surface_state) \<times> 'w" where
  "surface_build lib ops bo expand cfg w =
     (case connect_all bo cfg (c_upstreams cfg) none_connected w of
        (Inl e, w) \<Rightarrow> (Inl (ConnectFailed e), w)
      | (Inr c, w) \<Rightarrow>
     (case assemble (lb_ser lib) expand cfg (co_upstreams c) (co_listings c) of
        Inl e \<Rightarrow> (Inl (CatalogFailed e), w)
      | Inr cat \<Rightarrow>
     (case open_log bo cfg w of
        (Inl e, w) \<Rightarrow> (Inl e, w)
      | (Inr logging, w) \<Rightarrow>
     (case sign_log lib expand bo cfg logging w of
        (Inl e, w) \<Rightarrow> (Inl e, w)
      | (Inr signing, w) \<Rightarrow>
     (case schedule_all ops 0 (co_ttls c) (replicate (length (co_upstreams c)) None) w of (recheck, w) \<Rightarrow>
     (case vet (uc_lowercase (lb_uc lib)) cfg (co_upstreams c) cat of
        Inl e \<Rightarrow> (Inl (CatalogFailed e), w)
      | Inr _ \<Rightarrow>
          (Inr (new_surface lib cfg (co_upstreams c) cat logging signing,
             \<lparr>fl_stale = replicate (length (co_upstreams c)) False, fl_recheck = recheck\<rparr>, new_state cat signing), w)))))))"

section \<open>What a built surface holds\<close>

lemma connect_all_lengths:
  assumes "connect_all bo cfg us c w = (Inr c', w')"
    "length (co_listings c) = length (co_upstreams c)" "length (co_ttls c) = length (co_upstreams c)"
  shows "length (co_listings c') = length (co_upstreams c') \<and> length (co_ttls c') = length (co_upstreams c')"
  using assms
  by (induction bo cfg us c w rule: connect_all.induct) (auto simp: add_connected_def split: if_splits prod.splits sum.splits)

lemma schedule_all_length: "schedule_all ops idx ttls recheck w = (recheck', w') \<Longrightarrow> length recheck' = length recheck"
  by (induction ops idx ttls recheck w rule: schedule_all.induct) (auto simp: schedule_recheck_def split: prod.splits)

lemma new_state_formed: "state_formed lib sf (new_state cat signing)"
  by (simp add: state_formed_def new_state_def cache_formed_def memo_formed_def buckets_formed_def routes_formed_def)

lemma surface_build_Inr:
  assumes "surface_build lib ops bo expand cfg w = (Inr (sf, fl, s), w')"
  obtains c w1 logging signing where
    "connect_all bo cfg (c_upstreams cfg) none_connected w = (Inr c, w1)"
    "build_catalog (lb_ser lib) expand (uc_lowercase (lb_uc lib)) cfg (co_upstreams c) (co_listings c) = Inr (ss_catalog s)"
    "sf = new_surface lib cfg (co_upstreams c) (ss_catalog s) logging signing" "s = new_state (ss_catalog s) signing"
    "fl_stale fl = replicate (length (co_upstreams c)) False" "length (fl_recheck fl) = length (co_upstreams c)"
    "logging \<longleftrightarrow> c_log_file cfg \<noteq> None" "signing = None \<longleftrightarrow> c_log_hmac_key cfg = None" "signing \<noteq> None \<longrightarrow> logging"
proof -
  from assms obtain c w1 where c: "connect_all bo cfg (c_upstreams cfg) none_connected w = (Inr c, w1)"
    by (auto simp: surface_build_def split: sum.splits prod.splits)
  from assms c obtain cat where cat: "assemble (lb_ser lib) expand cfg (co_upstreams c) (co_listings c) = Inr cat"
    by (auto simp: surface_build_def split: sum.splits)
  from assms c cat obtain logging w2 where logging: "open_log bo cfg w1 = (Inr logging, w2)"
    by (auto simp: surface_build_def split: sum.splits prod.splits)
  from assms c cat logging obtain signing w3 where signing: "sign_log lib expand bo cfg logging w2 = (Inr signing, w3)"
    by (auto simp: surface_build_def split: sum.splits prod.splits)
  obtain recheck w4 where recheck: "schedule_all ops 0 (co_ttls c) (replicate (length (co_upstreams c)) None) w3 = (recheck, w4)"
    by fastforce
  from assms c cat logging signing recheck have rest: "vet (uc_lowercase (lb_uc lib)) cfg (co_upstreams c) cat = (Inr () :: string catalog_error + unit)"
    "sf = new_surface lib cfg (co_upstreams c) cat logging signing" "s = new_state cat signing"
    "fl = \<lparr>fl_stale = replicate (length (co_upstreams c)) False, fl_recheck = recheck\<rparr>"
    by (auto simp: surface_build_def split: sum.splits)
  have "signing \<noteq> None \<longrightarrow> logging"
    using signing by (auto simp: sign_log_def split: option.splits if_splits)
  moreover have "logging \<longleftrightarrow> c_log_file cfg \<noteq> None"
    using logging by (auto simp: open_log_def split: option.splits if_splits prod.splits)
  moreover have "signing = None \<longleftrightarrow> c_log_hmac_key cfg = None"
    using signing by (auto simp: sign_log_def split: option.splits if_splits prod.splits sum.splits)
  moreover have "length recheck = length (co_upstreams c)" using schedule_all_length [OF recheck] by simp
  ultimately show thesis
    using that [OF c] cat rest by (simp add: build_catalog_def new_state_def)
qed

lemma surface_build_signs:
  assumes "surface_build lib ops bo expand cfg w = (Inr (sf, fl, s), w')" "c_log_hmac_key cfg = Some reference"
  shows "\<exists>key. expand reference = Inr key \<and> sf_args_key sf = Some (args_key (lb_hmac lib) key)"
  using assms
  by (auto simp: surface_build_def sign_log_def new_surface_def split: sum.splits prod.splits if_splits)

lemma built_serving_formed:
  assumes "surface_build lib ops bo (io_expand io) cfg w = (Inr (sf, fl, s), w')"
  shows "serving_formed lib io sf fl s"
proof -
  obtain c w1 logging signing where c: "connect_all bo cfg (c_upstreams cfg) none_connected w = (Inr c, w1)"
    "build_catalog (lb_ser lib) (io_expand io) (uc_lowercase (lb_uc lib)) cfg (co_upstreams c) (co_listings c) = Inr (ss_catalog s)"
    "sf = new_surface lib cfg (co_upstreams c) (ss_catalog s) logging signing" "s = new_state (ss_catalog s) signing"
    "fl_stale fl = replicate (length (co_upstreams c)) False" "length (fl_recheck fl) = length (co_upstreams c)"
    using surface_build_Inr [OF assms] by metis
  have ls: "ct_listings (ss_catalog s) = co_listings c" by (rule build_listings [OF c(2)])
  have "length (co_listings c) = length (co_upstreams c)"
    using connect_all_lengths [OF c(1)] by (simp add: none_connected_def)
  moreover have "state_formed lib sf s" using new_state_formed c(4) by metis
  ultimately show ?thesis
    using c(2,3,5,6) by (simp add: serving_formed_def index_ok_def index_of_def rebuild_def new_surface_def ls)
qed

section \<open>Starting\<close>

text \<open>Which of the upstreams' configurations a run connected: all of the enabled ones, less optional ones that failed,
  each under the index of its place.\<close>

definition connected_as :: "'w boot_ops \<Rightarrow> upstream_config \<Rightarrow> nat \<times> upstream \<Rightarrow> bool" where
  "connected_as bo u = (\<lambda>(i, up). \<exists>w w' listed ttl. bo_connect bo (kind_of_upstream u) u i w = (Inr (up, listed, ttl), w'))"

lemma connect_all_chosen:
  assumes "connect_all bo cfg us c w = (Inr c', w')"
  shows "\<exists>chosen ups. co_upstreams c' = co_upstreams c @ ups \<and>
    subseq chosen (filter (\<lambda>u. upstream_enabled cfg (up_name u)) us) \<and>
    filter (\<lambda>u. \<not> up_optional u) chosen = filter (\<lambda>u. upstream_enabled cfg (up_name u) \<and> \<not> up_optional u) us \<and>
    list_all2 (connected_as bo) chosen (List.enumerate (length (co_upstreams c)) ups)"
  using assms
proof (induction us arbitrary: c w)
  case (Cons u us)
  show ?case
  proof (cases "upstream_enabled cfg (up_name u)")
    case True
    obtain r w1 where r: "bo_connect bo (kind_of_upstream u) u (length (co_upstreams c)) w = (r, w1)" by fastforce
    show ?thesis
    proof (cases r)
      case (Inl e)
      with Cons.prems True r have "up_optional u" "connect_all bo cfg us (c\<lparr>co_skipped := Suc (co_skipped c)\<rparr>) w1 = (Inr c', w')"
        by (auto split: if_splits)
      with Cons.IH [OF this(2)] True show ?thesis by (auto intro: list_emb.intros)
    next
      case (Inr a)
      obtain up listed ttl where a: "a = (up, listed, ttl)" by (metis prod_cases3)
      with Cons.prems True r Inr have "connect_all bo cfg us (add_connected (up, listed, ttl) c) w1 = (Inr c', w')" by simp
      from Cons.IH [OF this] obtain chosen ups where ih: "co_upstreams c' = co_upstreams c @ up # ups"
        "subseq chosen (filter (\<lambda>u. upstream_enabled cfg (up_name u)) us)"
        "filter (\<lambda>u. \<not> up_optional u) chosen = filter (\<lambda>u. upstream_enabled cfg (up_name u) \<and> \<not> up_optional u) us"
        "list_all2 (connected_as bo) chosen (List.enumerate (Suc (length (co_upstreams c))) ups)"
        by (auto simp: add_connected_def)
      moreover have "connected_as bo u (length (co_upstreams c), up)"
        using r Inr a by (auto simp: connected_as_def)
      ultimately show ?thesis
        using True by (intro exI [of _ "u # chosen"] exI [of _ "up # ups"]) simp
    qed
  qed (use Cons in simp)
qed simp

lemma connect_all_cong:
  assumes "\<And>u i w. upstream_enabled cfg (up_name u) \<Longrightarrow> bo_connect bo (kind_of_upstream u) u i w = bo_connect bo' (kind_of_upstream u) u i w"
  shows "connect_all bo cfg us c w = connect_all bo' cfg us c w"
  by (induction us arbitrary: c w) (auto simp: assms split: sum.split prod.split)

text \<open>A filtered-out upstream costs nothing at start: what connecting to it would do never shows.\<close>

theorem disabled_never_connected:
  assumes "\<And>u i w. upstream_enabled cfg (up_name u) \<Longrightarrow> connect (kind_of_upstream u) u i w = bo_connect bo (kind_of_upstream u) u i w"
  shows "surface_build lib ops (bo\<lparr>bo_connect := connect\<rparr>) expand cfg w = surface_build lib ops bo expand cfg w"
proof -
  have "connect_all (bo\<lparr>bo_connect := connect\<rparr>) cfg us c w = connect_all bo cfg us c w" for us c w
    by (rule connect_all_cong) (simp add: assms)
  moreover have "open_log (bo\<lparr>bo_connect := connect\<rparr>) cfg w = open_log bo cfg w" for w
    by (simp add: open_log_def split: option.split)
  moreover have "sign_log lib expand (bo\<lparr>bo_connect := connect\<rparr>) cfg logging w = sign_log lib expand bo cfg logging w" for logging w
    by (simp add: sign_log_def resumed_chain_def split: option.split sum.split)
  ultimately show ?thesis unfolding surface_build_def by (simp cong: sum.case_cong option.case_cong prod.case_cong)
qed

text \<open>C8: the start fails closed. A surface that is built has every enabled upstream that is not optional, in the
  configuration's order and under the index its tools carry, and no upstream that is not enabled; it signs its audit
  log exactly when a key is configured, which needs a log; and its catalog has no broken strong binding and, under the
  strict policy, no tool that trips a poisoning rule.\<close>

theorem start_fails_closed:
  assumes "surface_build lib ops bo expand cfg w = (Inr (sf, fl, s), w')"
  shows "(\<exists>chosen. subseq chosen (filter (\<lambda>u. upstream_enabled cfg (up_name u)) (c_upstreams cfg)) \<and>
      filter (\<lambda>u. \<not> up_optional u) chosen = filter (\<lambda>u. upstream_enabled cfg (up_name u) \<and> \<not> up_optional u) (c_upstreams cfg) \<and>
      list_all2 (connected_as bo) chosen (List.enumerate 0 (sf_upstreams sf))) \<and>
    (ss_chain s \<noteq> None \<longleftrightarrow> c_log_hmac_key cfg \<noteq> None) \<and> (sf_args_key sf \<noteq> None \<longleftrightarrow> c_log_hmac_key cfg \<noteq> None) \<and>
    (c_log_hmac_key cfg \<noteq> None \<longrightarrow> sf_logging sf) \<and>
    list_all (\<lambda>(t, why, st). st \<noteq> Strong) (broken_bindings_in cfg (sf_upstreams sf) (ss_catalog s)) \<and>
    (c_poisoning_policy cfg = PP_Strict \<longrightarrow>
      list_all (\<lambda>t. poisoning (uc_lowercase (lb_uc lib)) (td_name t) (td_description t) = []) (ct_tools (ss_catalog s)))"
proof -
  obtain c w1 logging signing where c: "connect_all bo cfg (c_upstreams cfg) none_connected w = (Inr c, w1)"
    "build_catalog (lb_ser lib) expand (uc_lowercase (lb_uc lib)) cfg (co_upstreams c) (co_listings c) = Inr (ss_catalog s)"
    "sf = new_surface lib cfg (co_upstreams c) (ss_catalog s) logging signing" "s = new_state (ss_catalog s) signing"
    "logging \<longleftrightarrow> c_log_file cfg \<noteq> None" "signing = None \<longleftrightarrow> c_log_hmac_key cfg = None" "signing \<noteq> None \<longrightarrow> logging"
    using surface_build_Inr [OF assms] by metis
  have sf: "sf_upstreams sf = co_upstreams c" "sf_args_key sf = map_option snd signing" "sf_logging sf = logging"
    by (simp_all add: c(3) new_surface_def)
  have s: "ss_chain s = map_option fst signing" using arg_cong [OF c(4), of ss_chain] by (simp add: new_state_def)
  show ?thesis
    using connect_all_chosen [OF c(1)] vet_Inr [OF build_catalog_Inr(2) [OF c(2)]] c(6,7)
    unfolding list_all_iff sf s by (auto simp: none_connected_def)
qed

section \<open>From the start on\<close>


section \<open>A concrete start\<close>

text \<open>The upstream \<open>a\<close> with its tool \<open>x\<close>, an optional one that fails, and one that is filtered out.\<close>

definition boot_config :: config where
  "boot_config = (config_of_upstreams [stdio_upstream ''a'' ''srv'', (stdio_upstream ''b'' ''srv'')\<lparr>up_optional := True\<rparr>,
       stdio_upstream ''c'' ''srv''])
     \<lparr>c_mode := ThreeTool, c_filters := (c_filters (config_of_upstreams []))\<lparr>f_exclude := [''c'']\<rparr>\<rparr>"

definition boot_ops :: "unit boot_ops" where
  "boot_ops = \<lparr>bo_connect = (\<lambda>k u i w. (if up_name u = ''a'' then Inr (toy_upstream, [toy_tool ''d''], Some 5) else Inl ''gone'', w)),
     bo_open = (\<lambda>_ w. (True, w)), bo_read = (\<lambda>_ w. (None, w))\<rparr>"

definition boot_catalog :: catalog where
  "boot_catalog = \<lparr>ct_tools = [toy_tool ''d''], ct_by_id = [(''a.x'', 0)], ct_exposed = [],
     ct_origin_sha = [(''a.x'', tool_fingerprint json_text ''d'' (JObj []))], ct_patched_schemas = [],
     ct_tool_headers = [], ct_user_supplied = [], ct_listings = [[toy_tool ''d'']]\<rparr>"

lemma boot_build: "surface_build toy_lib (toy_ops TimedOut) boot_ops Inr boot_config () =
    (Inr (new_surface toy_lib boot_config [toy_upstream] boot_catalog False None,
      \<lparr>fl_stale = [False], fl_recheck = [Some min_recheck]\<rparr>, new_state boot_catalog None), ())"
proof -
  have "upstream_enabled boot_config ''a''" "upstream_enabled boot_config ''b''" "\<not> upstream_enabled boot_config ''c''"
    by (simp_all add: boot_config_def config_of_upstreams_def upstream_enabled_def covers_whole_upstream_def)
  moreover have "c_upstreams boot_config = [stdio_upstream ''a'' ''srv'', (stdio_upstream ''b'' ''srv'')\<lparr>up_optional := True\<rparr>, stdio_upstream ''c'' ''srv'']"
    by (simp add: boot_config_def config_of_upstreams_def)
  ultimately have "connect_all boot_ops boot_config (c_upstreams boot_config) none_connected () =
      (Inr \<lparr>co_upstreams = [toy_upstream], co_listings = [[toy_tool ''d'']], co_ttls = [Some 5], co_skipped = 1\<rparr>, ())"
    by (simp add: stdio_upstream_def none_connected_def boot_ops_def add_connected_def)
  moreover have "assemble json_text Inr boot_config [toy_upstream] [[toy_tool ''d'']] = (Inr boot_catalog :: string catalog_error + catalog)"
    by (simp add: assemble_def listed_tools_def toy_upstream_def toy_tool_def boot_config_def boot_catalog_def add_tool_def
      passes_filter_def filter_match_def pattern_match_def config_of_upstreams_def overlay_for_def put_patches_def put_headers_def
      empty_catalog_def exposed_names_def)
  moreover have "vet to_ascii_lowercase boot_config [toy_upstream] boot_catalog = (Inr () :: string catalog_error + unit)"
    by (simp add: vet_def broken_bindings_in_def boot_config_def config_of_upstreams_def List.map_filter_def)
  moreover have "open_log boot_ops boot_config w = (Inr False, w)"
    "sign_log toy_lib Inr boot_ops boot_config b w = (Inr None, w)" for b w
    by (simp_all add: open_log_def sign_log_def boot_config_def config_of_upstreams_def)
  moreover have "schedule_all (toy_ops TimedOut) 0 [Some 5] [None] () = ([Some min_recheck], ())"
    by (simp add: toy_ops_def schedule_recheck_def recheck_time_def min_recheck_def max_recheck_def)
  ultimately show ?thesis
    by (simp add: surface_build_def toy_lib_def)
qed

definition toy_sdk :: "(json, json, json, json) sdk" where
  "toy_sdk = \<lparr>sk_tool = Some, sk_new_tool = (\<lambda>n d m. JObj m), sk_resource = Some, sk_prompt = Some, sk_block = Some,
     sk_text_block = JStr, sk_contents = Inr, sk_prompt_result = Inr, sk_modern = (\<lambda>v. v = ''2026-07-28'')\<rparr>"

definition toy_index_ops :: "unit index_ops" where
  "toy_index_ops = \<lparr>io_busy = (\<lambda>_. False), io_relist = (\<lambda>w. (\<lambda>_. None, w)), io_expand = Inr\<rparr>"

theorem start_fails_closed_witness:
  "\<exists>chosen. subseq chosen (filter (\<lambda>u. upstream_enabled boot_config (up_name u)) (c_upstreams boot_config)) \<and>
     list_all2 (connected_as boot_ops) chosen [(0, toy_upstream)]"
  using start_fails_closed [OF boot_build] by (auto simp: new_surface_def)


end
