(* ===== verification/Cli.thy ===== *)
theory Cli
  imports Startup Reports
begin

text \<open>
  The command line (\<open>src/src/main.rs\<close>): the verifier and the process's identity, the building of what a command needs with
  the warnings it logs, the audit key, the commands' texts and exit codes, the diff of source maps. Reading the
  configuration and files, the key endpoint and the values of secret templates are parameters, in \<open>host\<close>.
\<close>

section \<open>Options\<close>

record common =
  cm_config :: string
  cm_scopes :: "string list"
  cm_jwt :: "string option"
  cm_http :: "string option"
  cm_allow_remote :: bool

text \<open>The JWT library, the key endpoint, the clocks, the variable of the JWT secret, files, configurations by path
  (\<open>Config::load\<close>), URL parsing, and the value of a template under a secret store's configuration.\<close>

record ('key, 'w) host =
  ho_jwt :: "'key jwt_lib"
  ho_fetch :: "nat \<Rightarrow> string \<Rightarrow> 'w \<Rightarrow> (string + (string \<times> 'key) list) \<times> 'w"
  ho_now :: nat
  ho_unix :: nat
  ho_env :: "string option"
  ho_read :: "string \<Rightarrow> string option"
  ho_load :: "string \<Rightarrow> config_error + config"
  ho_url :: "string \<Rightarrow> (string \<times> string) option"
  ho_expand :: "secrets_config \<Rightarrow> string \<Rightarrow> string + string"

datatype cli_error =
    ConfigRefused config_error
  | VerifierFailed string
  | NoVerifier
  | TokenRefused string
  | SecretUnresolved string
  | SurfaceRefused start_error
  | ArgsNotAnObject
  | NoAuditKey
  | LogUnverifiable audit_error
  | ChainBroken nat
  | MapUnreadable

section \<open>Identity\<close>

definition secret_value :: "('key, 'w) host \<Rightarrow> secrets_config \<Rightarrow> string \<Rightarrow> cli_error + string" where
  "secret_value ho cfg template = map_sum SecretUnresolved id (ho_expand ho cfg template)"

definition build_verifier :: "('key, 'w) host \<Rightarrow> config \<Rightarrow> bool \<Rightarrow> 'w \<Rightarrow> (cli_error + 'key verifier option) \<times> 'w" where
  "build_verifier ho cfg needed w =
     (if \<not> needed then (Inr None, w)
      else (case au_jwks_url (c_auth cfg) of
          Some url \<Rightarrow> (case jwks_from_url (ho_fetch ho) (ho_now ho) url w of (r, w) \<Rightarrow> (map_sum VerifierFailed Some r, w))
        | None \<Rightarrow> (case public_key_pem (ho_read ho) (c_auth cfg) of
            Inl e \<Rightarrow> (Inl (ConfigRefused e), w)
          | Inr (Some pem) \<Rightarrow> (map_sum VerifierFailed Some (rs256_from_pem (ho_jwt ho) pem), w)
          | Inr None \<Rightarrow> (case auth_secret (ho_env ho) (c_auth cfg) of
              Some template \<Rightarrow> (map_sum id (Some \<circ> VSecret) (secret_value ho (c_secrets cfg) template), w)
            | None \<Rightarrow> (Inr None, w)))))"

definition process_checks :: "config \<Rightarrow> claim_checks" where
  "process_checks cfg = \<lparr>cc_audience = au_audience (c_auth cfg), cc_issuer = au_issuer (c_auth cfg)\<rparr>"

definition clean :: "string list \<Rightarrow> string list" where
  "clean granted = filter (\<lambda>s. s \<noteq> []) granted"

definition resolve_caller ::
  "('key, 'w) host \<Rightarrow> config \<Rightarrow> common \<Rightarrow> 'key verifier option \<Rightarrow> 'w \<Rightarrow> (cli_error + caller) \<times> 'w \<times> 'key verifier option" where
  "resolve_caller ho cfg cm verifier w = (case cm_jwt cm of
       None \<Rightarrow> (Inr (with_scopes (clean (cm_scopes cm))), w, verifier)
     | Some tok \<Rightarrow> (case verifier of
         None \<Rightarrow> (Inl NoVerifier, w, verifier)
       | Some v \<Rightarrow>
           (case token_caller (ho_jwt ho) (ho_fetch ho) (ho_now ho) (ho_unix ho) False (process_checks cfg)
               (au_scope_claim (c_auth cfg)) (au_subject_claim (c_auth cfg)) tok (w, v) of
              (r, w, v) \<Rightarrow> (map_sum TokenRefused id r, w, Some v))))"

definition new_introspector :: "('key, 'w) host \<Rightarrow> config \<Rightarrow> introspection_config \<Rightarrow> cli_error + introspector" where
  "new_introspector ho cfg i =
     map_sum id (\<lambda>secret. \<lparr>in_url = ic_url i, in_client_id = ic_client_id i, in_client_secret = secret,
       in_ttl_s = ic_cache_ttl_s i, in_fail_open = ic_fail_open i\<rparr>) (secret_value ho (c_secrets cfg) (ic_client_secret i))"

definition build_introspector :: "('key, 'w) host \<Rightarrow> config \<Rightarrow> bool \<Rightarrow> cli_error + introspector option" where
  "build_introspector ho cfg http = (case au_introspection (c_auth cfg) of
       None \<Rightarrow> Inr None
     | Some i \<Rightarrow> if http then map_sum id Some (new_introspector ho cfg i) else Inr None)"

section \<open>Building\<close>

text \<open>The warnings logged: tokens without an audience check, rate limits with nobody named, and a control that only
  reports, with whether anything records what it would do.\<close>

datatype warning = NoAudienceCheck | SharedBuckets | ScopesReportOnly bool | LimitsReportOnly bool

definition serve_warnings :: "string option \<Rightarrow> config \<Rightarrow> bool \<Rightarrow> bool \<Rightarrow> warning list" where
  "serve_warnings env cfg http verified =
     (if http \<and> verified \<and> au_audience (c_auth cfg) = None \<and> au_protected_resource (c_auth cfg) = None then [NoAudienceCheck] else []) @
     (if http \<and> rl_any (c_rate_limits cfg) \<and> \<not> names_the_caller env (c_auth cfg) then [SharedBuckets] else []) @
     (if scopes_report_only_active (c_scopes cfg) then [ScopesReportOnly (c_log_file cfg \<noteq> None)] else []) @
     (if rl_report_only_active (c_rate_limits cfg) then [LimitsReportOnly (c_log_file cfg \<noteq> None)] else [])"

record 'key built =
  bu_surface :: surface
  bu_flags :: index_flags
  bu_state :: surface_state
  bu_caller :: caller
  bu_identity :: http_identity
  bu_verifier :: "'key verifier option"
  bu_http :: http_config
  bu_warnings :: "warning list"

definition build ::
  "('key, 'w) host \<Rightarrow> lib \<Rightarrow> 'w world_ops \<Rightarrow> 'w boot_ops \<Rightarrow> common \<Rightarrow> 'w \<Rightarrow> (cli_error + 'key built) \<times> 'w" where
  "build ho lib ops bo cm w =
     (case ho_load ho (cm_config cm) of
        Inl e \<Rightarrow> (Inl (ConfigRefused e), w)
      | Inr cfg \<Rightarrow>
     (case build_verifier ho cfg (cm_jwt cm \<noteq> None \<or> cm_http cm \<noteq> None) w of
        (Inl e, w) \<Rightarrow> (Inl e, w)
      | (Inr verifier, w) \<Rightarrow>
     (case resolve_caller ho cfg cm verifier w of
        (Inl e, w, _) \<Rightarrow> (Inl e, w)
      | (Inr caller, w, verifier) \<Rightarrow>
     (case build_introspector ho cfg (cm_http cm \<noteq> None) of
        Inl e \<Rightarrow> (Inl e, w)
      | Inr intro \<Rightarrow>
     (case surface_build lib ops bo (ho_expand ho (c_secrets cfg)) cfg w of
        (Inl e, w) \<Rightarrow> (Inl (SurfaceRefused e), w)
      | (Inr (sf, fl, s), w) \<Rightarrow>
          (Inr \<lparr>bu_surface = sf, bu_flags = fl, bu_state = s, bu_caller = caller,
             bu_identity = from_auth (lb_ser lib) (ho_url ho) (c_auth cfg) (verifier \<noteq> None) intro,
             bu_verifier = verifier, bu_http = c_http cfg,
             bu_warnings = serve_warnings (ho_env ho) cfg (cm_http cm \<noteq> None) (verifier \<noteq> None)\<rparr>, w))))))"

section \<open>The audit commands\<close>

definition audit_key :: "('key, 'w) host \<Rightarrow> string option \<Rightarrow> string option \<Rightarrow> cli_error + string" where
  "audit_key ho key config_path = (case config_path of
       None \<Rightarrow> (case key of Some k \<Rightarrow> secret_value ho default_secrets_config k | None \<Rightarrow> Inl NoAuditKey)
     | Some path \<Rightarrow> (case ho_load ho path of
         Inl e \<Rightarrow> Inl (ConfigRefused e)
       | Inr cfg \<Rightarrow> (case (if key \<noteq> None then key else c_log_hmac_key cfg) of
           Some reference \<Rightarrow> secret_value ho (c_secrets cfg) reference
         | None \<Rightarrow> Inl NoAuditKey)))"

definition audit_args :: "('key, 'w) host \<Rightarrow> lib \<Rightarrow> string \<Rightarrow> string option \<Rightarrow> string option \<Rightarrow> cli_error + string" where
  "audit_args ho lib args key config_path = (case audit_key ho key config_path of
       Inl e \<Rightarrow> Inl e
     | Inr secret \<Rightarrow> (case Option.bind (lb_parse lib args) (\<lambda>raw. call_arguments (Some raw)) of
         None \<Rightarrow> Inl ArgsNotAnObject
       | Some arguments \<Rightarrow> Inr (args_mac (lb_hmac lib) (args_key (lb_hmac lib) secret) (canonical_args (lb_ser lib) arguments))))"

text \<open>The number of lines of an intact chain, or the first broken one.\<close>

definition audit_verify :: "('key, 'w) host \<Rightarrow> lib \<Rightarrow> string \<Rightarrow> string option \<Rightarrow> string option \<Rightarrow> cli_error + nat" where
  "audit_verify ho lib file key config_path = (case audit_key ho key config_path of
       Inl e \<Rightarrow> Inl e
     | Inr secret \<Rightarrow> (case verify_log (lb_hmac lib) (lb_ser lib) (lb_parse lib) secret (ho_read ho file) of
         Inl e \<Rightarrow> Inl (LogUnverifiable e)
       | Inr verdict \<Rightarrow> if verdict_ok verdict then Inr (vd_lines verdict) else Inl (ChainBroken (fst (hd (vd_failures verdict))))))"

section \<open>Source maps\<close>

text \<open>The schema fingerprints by tool id, and the ids with an overlay.\<close>

definition index_row :: "json \<Rightarrow> (string \<times> string) list \<times> string list \<Rightarrow> (string \<times> string) list \<times> string list" where
  "index_row t m = (case m of (sha, overlaid) \<Rightarrow> (case Option.bind (vget t ''tool_id'') as_str of
       None \<Rightarrow> (sha, overlaid)
     | Some tool_id \<Rightarrow>
         (case Option.bind (vget t ''schema_sha'') as_str of Some s \<Rightarrow> alist_put tool_id s sha | None \<Rightarrow> sha,
          case vget t ''overlay'' of Some v \<Rightarrow> if is_null v then overlaid else List.insert tool_id overlaid | None \<Rightarrow> overlaid)))"

definition index_source_map :: "json \<Rightarrow> (string \<times> string) list \<times> string list" where
  "index_source_map m = fold index_row (entries m ''tools'') ([], [])"

definition diff_maps :: "json \<Rightarrow> json \<Rightarrow> json" where
  "diff_maps old cur =
     (let old_sha = fst (index_source_map old);
          cur_sha = fst (index_source_map cur);
          cur_overlaid = snd (index_source_map cur);
          changed = map fst (filter (\<lambda>(tool_id, s). case map_of old_sha tool_id of Some before \<Rightarrow> before \<noteq> s | None \<Rightarrow> False) cur_sha);
          added = map fst (filter (\<lambda>(tool_id, s). map_of old_sha tool_id = None) cur_sha);
          removed = filter (\<lambda>tool_id. map_of cur_sha tool_id = None) (map fst old_sha);
          affected = filter (\<lambda>tool_id. tool_id \<in> set cur_overlaid) (changed @ removed)
      in JObj [(''changed'', strs (sort changed)), (''removed'', strs (sort removed)), (''added'', strs (sort added)),
        (''overlays_to_reverify'', strs (sort affected)), (''breaking'', JBool (affected \<noteq> []))])"

section \<open>Texts and exit codes\<close>

text \<open>What a command prints and its exit code.\<close>

definition map_command :: "lib \<Rightarrow> surface \<Rightarrow> catalog \<Rightarrow> string option option \<Rightarrow> cli_error + string \<times> nat" where
  "map_command lib sf cat diff = (case diff of
       None \<Rightarrow> Inr (lb_pretty lib (source_map sf cat None), 0)
     | Some file \<Rightarrow> (case Option.bind file (lb_parse lib) of
         None \<Rightarrow> Inl MapUnreadable
       | Some old \<Rightarrow>
           (let report = diff_maps old (source_map sf cat None) in
            Inr (lb_pretty lib report, if Option.bind (vget report ''breaking'') as_bool = Some True then 1 else 0))))"

definition verify_command :: "lib \<Rightarrow> 'w world_ops \<Rightarrow> surface \<Rightarrow> caller \<Rightarrow> ('w, string \<times> nat) run" where
  "verify_command lib ops sf caller = do {
     report \<leftarrow> verify lib ops sf caller;
     State_Monad.return (lb_pretty lib report,
       case Option.bind (vget report ''failed'') as_u64 of Some n \<Rightarrow> if 0 < n then 1 else 0 | None \<Rightarrow> 0)
   }"

definition access_command :: "lib \<Rightarrow> string option \<Rightarrow> surface \<Rightarrow> surface_state \<Rightarrow> caller \<Rightarrow> nat \<Rightarrow> bool \<Rightarrow> string \<times> nat" where
  "access_command lib env sf s caller sample strict =
     (let report = access_report env sf s caller sample in
      (lb_pretty lib report,
       if strict \<and> (case Option.bind (vget report ''warnings'') as_array of Some ws \<Rightarrow> ws \<noteq> [] | None \<Rightarrow> False) then 1 else 0))"

definition block_line :: "json \<Rightarrow> string list" where
  "block_line b = (case Option.bind (vget b ''text'') as_str of
       Some t \<Rightarrow> [t]
     | None \<Rightarrow> (case Option.bind (vget b ''type'') as_str of
         None \<Rightarrow> []
       | Some ty \<Rightarrow>
           (let mime = str_or_empty (vget b ''mimeType''); bytes = length (str_or_empty (vget b ''data'')) in
            [''['' @ ty @ (if mime = [] then [] else '' '' @ mime) @
             (if 0 < bytes then '', '' @ show_nat bytes @ '' bytes'' else []) @ '']''])))"

definition print_tool_result :: "lib \<Rightarrow> json \<Rightarrow> string list" where
  "print_tool_result lib result = (case Option.bind (vget result ''content'') as_array of
       Some blocks \<Rightarrow> concat (map block_line blocks) @
         (if vget result ''structuredContent'' \<noteq> None then [''[+ structuredContent]''] else [])
     | None \<Rightarrow> [lb_pretty lib result])"

definition call_command ::
  "lib \<Rightarrow> 'w world_ops \<Rightarrow> surface \<Rightarrow> caller \<Rightarrow> string \<Rightarrow> string \<Rightarrow> string list \<Rightarrow> ('w, cli_error + string list) run" where
  "call_command lib ops sf caller tool_id args wanted = (case lb_parse lib args of
       None \<Rightarrow> State_Monad.return (Inl ArgsNotAnObject)
     | Some arguments \<Rightarrow> do {
         result \<leftarrow> cli_call lib ops sf caller tool_id arguments wanted;
         State_Monad.return (Inr (print_tool_result lib result))
       })"

section \<open>The diff of source maps\<close>

text \<open>The reference: a tool's fingerprint is that of the last row that names it and has one; it is overlaid when a row
  that names it has an overlay.\<close>

definition row_id :: "json \<Rightarrow> string option" where
  "row_id t = Option.bind (vget t ''tool_id'') as_str"

definition row_sha :: "json \<Rightarrow> string option" where
  "row_sha t = Option.bind (vget t ''schema_sha'') as_str"

definition row_overlaid :: "json \<Rightarrow> bool" where
  "row_overlaid t \<longleftrightarrow> (case vget t ''overlay'' of Some v \<Rightarrow> v \<noteq> JNull | None \<Rightarrow> False)"

fun sha_in :: "json list \<Rightarrow> string \<Rightarrow> string option" where
  "sha_in [] tool_id = None"
| "sha_in (t # ts) tool_id = (case sha_in ts tool_id of
     Some s \<Rightarrow> Some s | None \<Rightarrow> if row_id t = Some tool_id then row_sha t else None)"

lemma index_rows:
  "map_of (fst (fold index_row rows m)) tool_id = (case sha_in rows tool_id of Some s \<Rightarrow> Some s | None \<Rightarrow> map_of (fst m) tool_id) \<and>
   (tool_id \<in> set (snd (fold index_row rows m)) \<longleftrightarrow> tool_id \<in> set (snd m) \<or> (\<exists>t \<in> set rows. row_id t = Some tool_id \<and> row_overlaid t)) \<and>
   (distinct (map fst (fst m)) \<longrightarrow> distinct (map fst (fst (fold index_row rows m))))"
proof (induction rows arbitrary: m)
  case (Cons t rows)
  obtain sha overlaid where m: "m = (sha, overlaid)" by (cases m)
  have "map_of (fst (index_row t m)) tool_id = (if row_id t = Some tool_id \<and> row_sha t \<noteq> None then row_sha t else map_of (fst m) tool_id)"
    "tool_id \<in> set (snd (index_row t m)) \<longleftrightarrow> tool_id \<in> set (snd m) \<or> row_id t = Some tool_id \<and> row_overlaid t"
    "distinct (map fst (fst m)) \<longrightarrow> distinct (map fst (fst (index_row t m)))"
    by (auto simp: m index_row_def row_id_def row_sha_def row_overlaid_def is_null_def distinct_alist_put split: option.splits)
  with Cons.IH [of "index_row t m"] show ?case by (auto split: option.splits)
qed simp

lemma index_lookup:
  "map_of (fst (index_source_map m)) tool_id = sha_in (entries m ''tools'') tool_id"
  "tool_id \<in> set (snd (index_source_map m)) \<longleftrightarrow> (\<exists>t \<in> set (entries m ''tools''). row_id t = Some tool_id \<and> row_overlaid t)"
  "distinct (map fst (fst (index_source_map m)))"
  unfolding index_source_map_def using index_rows [of "entries m ''tools''" "([], [])"] by (auto split: option.splits)

text \<open>The diff against the reference.\<close>

definition changed_in :: "json \<Rightarrow> json \<Rightarrow> string \<Rightarrow> bool" where
  "changed_in old cur tool_id \<longleftrightarrow> (\<exists>s s'. sha_in (entries old ''tools'') tool_id = Some s \<and> sha_in (entries cur ''tools'') tool_id = Some s' \<and> s \<noteq> s')"

definition only_in :: "json \<Rightarrow> json \<Rightarrow> string \<Rightarrow> bool" where
  "only_in a b tool_id \<longleftrightarrow> sha_in (entries a ''tools'') tool_id \<noteq> None \<and> sha_in (entries b ''tools'') tool_id = None"

definition overlaid_in :: "json \<Rightarrow> string \<Rightarrow> bool" where
  "overlaid_in m tool_id \<longleftrightarrow> (\<exists>t \<in> set (entries m ''tools''). row_id t = Some tool_id \<and> row_overlaid t)"

lemma diff_maps_spec:
  "\<exists>changed removed added affected.
     diff_maps old cur = JObj [(''changed'', strs changed), (''removed'', strs removed), (''added'', strs added),
       (''overlays_to_reverify'', strs affected), (''breaking'', JBool (affected \<noteq> []))] \<and>
     list_all (\<lambda>ids. sorted ids \<and> distinct ids) [changed, removed, added, affected] \<and>
     set changed = {tool_id. changed_in old cur tool_id} \<and> set removed = {tool_id. only_in old cur tool_id} \<and>
     set added = {tool_id. only_in cur old tool_id} \<and>
     set affected = {tool_id. (changed_in old cur tool_id \<or> only_in old cur tool_id) \<and> overlaid_in cur tool_id}"
proof -
  let ?o = "fst (index_source_map old)" and ?c = "fst (index_source_map cur)"
  define changed where "changed = map fst (filter (\<lambda>(tool_id, s). case map_of ?o tool_id of Some before \<Rightarrow> before \<noteq> s | None \<Rightarrow> False) ?c)"
  define added where "added = map fst (filter (\<lambda>(tool_id, s). map_of ?o tool_id = None) ?c)"
  define removed where "removed = filter (\<lambda>tool_id. map_of ?c tool_id = None) (map fst ?o)"
  define affected where "affected = filter (\<lambda>tool_id. tool_id \<in> set (snd (index_source_map cur))) (changed @ removed)"
  have ne: "sort affected \<noteq> [] \<longleftrightarrow> affected \<noteq> []" by (metis length_0_conv length_sort)
  have eq: "diff_maps old cur = JObj [(''changed'', strs (sort changed)), (''removed'', strs (sort removed)), (''added'', strs (sort added)),
      (''overlays_to_reverify'', strs (sort affected)), (''breaking'', JBool (sort affected \<noteq> []))]"
    unfolding ne by (simp only: diff_maps_def Let_def changed_def added_def removed_def affected_def)
  have row: "(tool_id, s) \<in> set (fst (index_source_map m)) \<longleftrightarrow> sha_in (entries m ''tools'') tool_id = Some s" for m tool_id s
    using index_lookup(1) [of m] index_lookup(3) [of m] by (metis map_of_eq_Some_iff)
  have keys: "set (map fst (fst (index_source_map m))) = {tool_id. sha_in (entries m ''tools'') tool_id \<noteq> None}" for m
    by (simp only: set_map dom_map_of_conv_image_fst [symmetric] dom_def index_lookup(1))
  have picked: "set (map fst (filter P xs)) = {k. \<exists>v. (k, v) \<in> set xs \<and> P (k, v)}" for P and xs :: "(string \<times> string) list"
    by (auto simp: image_iff)
  have sets: "set changed = {tool_id. changed_in old cur tool_id}" "set removed = {tool_id. only_in old cur tool_id}"
    "set added = {tool_id. only_in cur old tool_id}"
    unfolding changed_def removed_def added_def picked set_filter keys
    by (auto simp: changed_in_def only_in_def index_lookup(1) row split: option.splits)
  moreover have "distinct changed" "distinct removed" "distinct added"
    using index_lookup(3) by (auto simp: changed_def removed_def added_def distinct_map inj_on_filter_key_eq intro: inj_on_subset)
  moreover have "set changed \<inter> set removed = {}" unfolding sets by (auto simp: changed_in_def only_in_def)
  moreover have "set affected = {tool_id. (changed_in old cur tool_id \<or> only_in old cur tool_id) \<and> overlaid_in cur tool_id}"
    using sets(1,2) by (auto simp: affected_def index_lookup(2) overlaid_in_def)
  moreover from calculation have "distinct (changed @ removed)" by simp
  then have "distinct affected" unfolding affected_def by (rule distinct_filter)
  ultimately show ?thesis
    unfolding eq ne [symmetric]
    by (intro exI [of _ "sort changed"] exI [of _ "sort removed"] exI [of _ "sort added"] exI [of _ "sort affected"])
      (simp only: list.pred_inject set_sort distinct_sort sorted_sort simp_thms)
qed

section \<open>The map as a gate\<close>

lemma row_of_source:
  "row_id (source_row sf cat t) = Some (td_id t)" "row_sha (source_row sf cat t) = Some (live_sha cat (td_id t))"
  "row_overlaid (source_row sf cat t) \<longleftrightarrow> overlay_for (sf_config sf) (td_id t) \<noteq> None"
  by (simp_all add: row_id_def row_sha_def row_overlaid_def source_row_def jget_def overlay_row_def split: prod.split option.split)

lemma entries_source_map: "entries (source_map sf cat None) ''tools'' = map (source_row sf cat) (ct_tools cat)"
  by (simp add: entries_def source_map_def seen_by_def jget_def Let_def)

lemma sha_in_source_rows:
  "sha_in (map (source_row sf cat) ts) tool_id = (if tool_id \<in> td_id ` set ts then Some (live_sha cat tool_id) else None)"
  by (induction ts) (auto simp: row_of_source)

text \<open>\<open>minmcp map --diff\<close> exits with 1 exactly when a tool of the catalog that has an overlay is listed in the old map
  under another schema fingerprint than the one it has now; such a tool is named as one whose overlay must be verified
  again.\<close>

theorem map_gate_exact:
  assumes "lb_parse lib text = Some old"
  shows "\<exists>out code. map_command lib sf cat (Some (Some text)) = Inr (out, code) \<and>
    (code = 1 \<longleftrightarrow> (\<exists>t \<in> set (ct_tools cat). overlay_for (sf_config sf) (td_id t) \<noteq> None \<and>
       (\<exists>s. sha_in (entries old ''tools'') (td_id t) = Some s \<and> s \<noteq> live_sha cat (td_id t)))) \<and>
    (\<exists>affected. vget (diff_maps old (source_map sf cat None)) ''overlays_to_reverify'' = Some (strs affected) \<and>
       set affected = {td_id t |t s. t \<in> set (ct_tools cat) \<and> overlay_for (sf_config sf) (td_id t) \<noteq> None \<and>
         sha_in (entries old ''tools'') (td_id t) = Some s \<and> s \<noteq> live_sha cat (td_id t)})"
proof -
  let ?cur = "source_map sf cat None"
  obtain changed removed added affected where d: "diff_maps old ?cur = JObj [(''changed'', strs changed), (''removed'', strs removed),
      (''added'', strs added), (''overlays_to_reverify'', strs affected), (''breaking'', JBool (affected \<noteq> []))]"
    "set affected = {tool_id. (changed_in old ?cur tool_id \<or> only_in old ?cur tool_id) \<and> overlaid_in ?cur tool_id}"
    using diff_maps_spec [of old ?cur] by blast
  have "set affected = {td_id t |t s. t \<in> set (ct_tools cat) \<and> overlay_for (sf_config sf) (td_id t) \<noteq> None \<and>
      sha_in (entries old ''tools'') (td_id t) = Some s \<and> s \<noteq> live_sha cat (td_id t)}"
    unfolding d(2) changed_in_def only_in_def overlaid_in_def entries_source_map sha_in_source_rows
    by (auto simp: row_of_source split: if_splits)
  moreover have "affected \<noteq> [] \<longleftrightarrow> (\<exists>x. x \<in> set affected)" by (cases affected) auto
  ultimately show ?thesis
    using assms by (auto simp: map_command_def d(1) jget_def Let_def)
qed

text \<open>So a tool that vanished is never named and never fails the gate, overlaid or not: only the new map is asked what is
  overlaid.\<close>

theorem vanished_tool_passes:
  assumes "\<forall>t \<in> set (ct_tools cat). sha_in (entries old ''tools'') (td_id t) = Some (live_sha cat (td_id t))" "lb_parse lib text = Some old"
  shows "\<exists>out. map_command lib sf cat (Some (Some text)) = Inr (out, 0)"
proof -
  obtain affected where d: "vget (diff_maps old (source_map sf cat None)) ''breaking'' = Some (JBool (affected \<noteq> []))"
    "set affected = {tool_id. (changed_in old (source_map sf cat None) tool_id \<or> only_in old (source_map sf cat None) tool_id) \<and>
       overlaid_in (source_map sf cat None) tool_id}"
    using diff_maps_spec [of old "source_map sf cat None"] by (auto simp: jget_def)
  have "set affected = {}"
    unfolding d(2) changed_in_def only_in_def overlaid_in_def entries_source_map sha_in_source_rows
    using assms(1) by (auto simp: row_of_source split: if_splits)
  then show ?thesis using assms(2) d(1) by (simp add: map_command_def Let_def)
qed

section \<open>The audit key\<close>

text \<open>\<open>minmcp audit-args\<close> finds the calls. For a surface started from a configuration, the fingerprint printed for a
  call's arguments is the one the surface computes for a call with those arguments, and so the one on its audit line.\<close>

theorem audit_args_finds_calls:
  assumes "ho_load ho path = Inr cfg" "c_log_hmac_key cfg \<noteq> None"
    "surface_build lib ops bo (ho_expand ho (c_secrets cfg)) cfg w = (Inr (sf, fl, s), w')"
    "Option.bind (lb_parse lib args) (\<lambda>raw. call_arguments (Some raw)) = Some arguments"
  shows "\<exists>mac. audit_args ho lib args None (Some path) = Inr mac \<and>
    map_option (\<lambda>k. args_mac (lb_hmac lib) k (canonical_args (lb_ser lib) arguments)) (sf_args_key sf) = Some mac"
proof -
  obtain reference where r: "c_log_hmac_key cfg = Some reference" using assms(2) by blast
  obtain key where key: "ho_expand ho (c_secrets cfg) reference = Inr key" "sf_args_key sf = Some (args_key (lb_hmac lib) key)"
    using surface_build_signs [OF assms(3) r] by blast
  then have "audit_key ho None (Some path) = Inr key" using assms(1) r by (simp add: audit_key_def secret_value_def)
  then show ?thesis using assms(4) key by (auto simp: audit_args_def)
qed

section \<open>The process's identity\<close>

lemma map_sum_Inr: "map_sum f g x = Inr c \<longleftrightarrow> (\<exists>y. x = Inr y \<and> c = g y)"
  by (cases x) auto

lemma process_caller_verified:
  assumes "resolve_caller ho cfg cm verifier w = (Inr c, w', verifier')" "cm_jwt cm = Some tok"
  obtains v claims where "verifier = Some v"
    "fst (token_claims (ho_jwt ho) (ho_fetch ho) (ho_now ho) (ho_unix ho) False (process_checks cfg) tok (w, v)) = Inr claims"
    "c = claims_caller (au_scope_claim (c_auth cfg)) (au_subject_claim (c_auth cfg)) claims"
  using assms that by (auto simp: resolve_caller_def token_caller_def map_sum_Inr split: option.splits prod.splits)

text \<open>A published resource is the audience of the requests' tokens and not of the process's own.\<close>

lemma process_token_audience:
  assumes "au_audience (c_auth cfg) = None" "au_protected_resource (c_auth cfg) = Some pr"
  shows "cc_audience (process_checks cfg) = None"
    "cc_audience (hi_checks (from_auth ser url (c_auth cfg) verified intro)) = Some (pr_resource pr)"
    "NoAudienceCheck \<notin> set (serve_warnings env cfg http verified)"
  using assms by (simp_all add: process_checks_def from_auth_def serve_warnings_def)

section \<open>Concrete commands\<close>

definition gate_lib :: lib where
  "gate_lib = toy_lib\<lparr>lb_parse := (\<lambda>text. Some (if text = ''{}'' then JObj [] else
     JObj [(''tools'', JArr [JObj [(''tool_id'', JStr ''a.x''), (''schema_sha'', JStr ''old'')]])]))\<rparr>"

definition gate_catalog :: catalog where
  "gate_catalog = (toy_catalog json_text ''d'')\<lparr>ct_origin_sha := [(''a.x'', ''new'')]\<rparr>"

definition gate_surface :: surface where
  "gate_surface = (toy_surface [])\<lparr>sf_config := toy_config\<rparr>"

theorem map_gate_exact_witness:
  "\<exists>out. map_command gate_lib gate_surface gate_catalog (Some (Some ''old'')) = Inr (out, 1)"
proof -
  have old: "lb_parse gate_lib ''old'' = Some (JObj [(''tools'', JArr [JObj [(''tool_id'', JStr ''a.x''), (''schema_sha'', JStr ''old'')]])])"
    by (simp add: gate_lib_def)
  have "entries (JObj [(''tools'', JArr [JObj [(''tool_id'', JStr ''a.x''), (''schema_sha'', JStr ''old'')]])]) ''tools'' =
      [JObj [(''tool_id'', JStr ''a.x''), (''schema_sha'', JStr ''old'')]]"
    by (simp add: entries_def jget_def)
  moreover have "live_sha gate_catalog ''a.x'' = ''new''" by (simp add: live_sha_def gate_catalog_def)
  moreover have "ct_tools gate_catalog = [toy_tool ''Reads x'']" by (simp add: gate_catalog_def toy_catalog_def)
  moreover have "overlay_for (sf_config gate_surface) ''a.x'' \<noteq> None"
    by (simp add: gate_surface_def toy_config_def overlay_for_def)
  moreover have "td_id (toy_tool ''Reads x'') = ''a.x''" by (simp add: toy_tool_def)
  moreover have "sha_in [JObj [(''tool_id'', JStr ''a.x''), (''schema_sha'', JStr ''old'')]] ''a.x'' = Some ''old''"
    by (simp add: row_id_def row_sha_def jget_def)
  ultimately show ?thesis
    using map_gate_exact [OF old, of gate_surface gate_catalog] by auto
qed

text \<open>A surface without upstreams that signs its log on \<open>stderr\<close>.\<close>

definition signed_config :: config where
  "signed_config = (config_of_upstreams [])\<lparr>c_log_file := Some ''stderr'', c_log_hmac_key := Some ''k''\<rparr>"

definition cli_host :: "(string, unit) host" where
  "cli_host = \<lparr>ho_jwt = toy_jwt, ho_fetch = (\<lambda>_ _ w. (Inr [], w)), ho_now = 0, ho_unix = 0, ho_env = None, ho_read = (\<lambda>_. None),
     ho_load = (\<lambda>_. Inr signed_config), ho_url = (\<lambda>_. None), ho_expand = (\<lambda>_. Inr)\<rparr>"

theorem audit_args_finds_calls_witness:
  "\<exists>mac. audit_args cli_host gate_lib ''{}'' None (Some ''min.yaml'') = Inr mac \<and>
     mac = args_mac (lb_hmac gate_lib) (args_key (lb_hmac gate_lib) ''k'') (canonical_args (lb_ser gate_lib) (JObj []))"
proof -
  have cfg: "ho_load cli_host ''min.yaml'' = Inr signed_config" "c_log_hmac_key signed_config \<noteq> None"
    "Option.bind (lb_parse gate_lib ''{}'') (\<lambda>raw. call_arguments (Some raw)) = Some (JObj [])"
    by (simp_all add: cli_host_def signed_config_def gate_lib_def call_arguments_def is_object_def Let_def)
  have up: "c_upstreams signed_config = []" "c_log_file signed_config = Some ''stderr''" "c_log_hmac_key signed_config = Some ''k''"
    "c_poisoning_policy signed_config = PP_Warn" "c_overlays signed_config = []"
    by (simp_all add: signed_config_def config_of_upstreams_def)
  then have "\<exists>sf fl s w'. surface_build gate_lib (toy_ops TimedOut) boot_ops (ho_expand cli_host (c_secrets signed_config)) signed_config () =
      (Inr (sf, fl, s), w') \<and> sf_args_key sf = Some (args_key (lb_hmac gate_lib) ''k'')"
    by (simp add: surface_build_def none_connected_def assemble_def listed_tools_def open_log_def sign_log_def resumed_chain_def
        cli_host_def vet_def broken_bindings_in_def List.map_filter_def new_surface_def)
  then obtain sf fl s w' where b: "surface_build gate_lib (toy_ops TimedOut) boot_ops (ho_expand cli_host (c_secrets signed_config))
      signed_config () = (Inr (sf, fl, s), w')" "sf_args_key sf = Some (args_key (lb_hmac gate_lib) ''k'')" by blast
  from audit_args_finds_calls [OF cfg(1,2) b(1) cfg(3)] b(2) show ?thesis by auto
qed

end
