(* ===== verification/Contained.thy ===== *)
theory Contained
  imports Serve Composites
begin

text \<open>
  Which tools a request can reach. \<open>dispatch_contract\<close> is what the meta-tools, the exposed names and the composite
  workflows rely on: a dispatch sends permitted calls only. Under it so does every request, however it comes to its
  dispatches. The call path provides it for the tools the request's caller may see.
\<close>

section \<open>Runs inside a permission\<close>

definition inside :: "(catalog \<Rightarrow> sent \<Rightarrow> bool) \<Rightarrow> ('w \<times> sent list, 'a) run \<Rightarrow> bool" where
  "inside P m \<longleftrightarrow> sending (\<lambda>c _ new. list_all (P c) new) m"

named_theorems inside

lemma inside_quiet: "quiet m \<Longrightarrow> inside P m"
  unfolding inside_def by (rule sending_mono [OF quiet_sending]) simp_all

lemma inside_return [inside]: "inside P (State_Monad.return a)"
  by (intro inside_quiet quiet)

lemma inside_bind [inside]: "inside P m \<Longrightarrow> (\<And>a. inside P (f a)) \<Longrightarrow> inside P (State_Monad.bind m f)"
  unfolding inside_def by (erule sending_bind) (assumption, simp)

lemma inside_if [inside]: "(b \<Longrightarrow> inside P m) \<Longrightarrow> (\<not> b \<Longrightarrow> inside P n) \<Longrightarrow> inside P (if b then m else n)"
  by simp

lemma inside_case_option [inside]:
  "inside P m \<Longrightarrow> (\<And>x. inside P (f x)) \<Longrightarrow> inside P (case v of None \<Rightarrow> m | Some x \<Rightarrow> f x)"
  by (cases v) auto

lemma inside_case_prod [inside]: "(\<And>x y. inside P (f x y)) \<Longrightarrow> inside P (case p of (x, y) \<Rightarrow> f x y)"
  by (cases p) auto

lemma inside_case_sum [inside]:
  "(\<And>x. inside P (f x)) \<Longrightarrow> (\<And>x. inside P (g x)) \<Longrightarrow> inside P (case v of Inl x \<Rightarrow> f x | Inr x \<Rightarrow> g x)"
  by (cases v) auto

lemma inside_case_steps [inside]:
  "(\<And>x. inside P (f x)) \<Longrightarrow> (\<And>i e r outs. inside P (g i e r outs)) \<Longrightarrow>
   inside P (case d of StepsDone x \<Rightarrow> f x | StepFailed i e r outs \<Rightarrow> g i e r outs)"
  by (cases d) auto

lemma inside_Let [inside]: "inside P (f x) \<Longrightarrow> inside P (let y = x in f y)"
  by simp

lemma inside_parts [inside]:
  "inside P get_state" "inside P (ask (wo_now (traced ops)))" "inside P (log_event lib (traced ops) sf caller event extra)"
  "inside P (may_call lib (traced ops) sf caller tool_id)" "inside P (schema_of lib sf t)"
  by (intro inside_quiet quiet)+

section \<open>The contract\<close>

locale dispatch_contract =
  fixes lib :: lib and ops :: "'w world_ops" and sf :: surface and caller :: caller
    and permitted :: "catalog \<Rightarrow> sent \<Rightarrow> bool"
  assumes dispatch_inside [inside]: "inside permitted (dispatch_reach lib (traced ops) sf caller tool_id arguments wanted)"
begin

lemma whole_dispatch_inside [inside]: "inside permitted (dispatch lib (traced ops) sf caller tool_id arguments wanted)"
  unfolding dispatch_def by (intro inside)

lemma run_steps_inside [inside]: "inside permitted (run_steps lib (traced ops) sf caller inputs i sts outs)"
proof (induction sts arbitrary: i outs)
  case (Cons st sts)
  show ?case by (simp only: run_steps.simps) (intro inside Cons.IH)
qed (simp add: inside_return)

lemma execute_workflow_inside [inside]: "inside permitted (execute_workflow lib (traced ops) sf caller w inputs)"
  unfolding execute_workflow_def by (intro inside)

lemma cli_call_inside [inside]: "inside permitted (cli_call lib (traced ops) sf caller tool_id args wanted)"
  unfolding cli_call_def route_call_def by (intro inside)

lemma shadow_call_inside [inside]: "inside permitted (shadow_call lib (traced ops) sf caller tool_id)"
proof -
  have "quiet (log_observed lib (traced ops) sf caller tool_id obs)" for obs
    by (induction obs) (auto intro!: quiet)
  moreover have "quiet (on_state (\<lambda>s. let eligible = elig s in
      case observe_call tool_id eligible (ss_turn s) of (obs, turn) \<Rightarrow> (obs, s\<lparr>ss_turn := turn\<rparr>)))" for elig
    by (rule does_on_state) (simp split: prod.split)
  ultimately show ?thesis unfolding shadow_call_def by (intro inside inside_quiet)
qed

theorem call_inside: "inside permitted (call lib (traced ops) sf caller name args)"
proof -
  have "inside permitted (modify_state (\<lambda>s. s\<lparr>ss_turn := turn\<rparr>))" for turn
    by (intro inside_quiet quiet) simp
  then show ?thesis
    unfolding call_def call_search_def call_details_def call_call_def call_exposed_def details_text_def by (intro inside)
qed

end

section \<open>The tools a caller may see\<close>

definition seen_call :: "surface \<Rightarrow> caller \<Rightarrow> catalog \<Rightarrow> sent \<Rightarrow> bool" where
  "seen_call sf caller cat x \<longleftrightarrow> (\<exists>tool_id. visible (sf_config sf) caller tool_id \<and> call_of cat tool_id x)"

interpretation scoped: dispatch_contract lib ops sf caller "seen_call sf caller" for lib ops sf caller
proof
  show "inside (seen_call sf caller) (dispatch_reach lib (traced ops) sf caller tool_id arguments wanted)" for tool_id arguments wanted
    unfolding inside_def
    by (rule sending_mono [OF sending_dispatch_reach])
      (auto simp: list_all_iff seen_call_def dest: dispatch_sends_call_of)
qed

section \<open>Listings and reads send no calls\<close>

lemma quiet_case_sum [quiet]: "(\<And>x. quiet (f x)) \<Longrightarrow> (\<And>x. quiet (g x)) \<Longrightarrow> quiet (case v of Inl x \<Rightarrow> f x | Inr x \<Rightarrow> g x)"
  by (cases v) auto

lemma quiet_passthrough [quiet]:
  "quiet (list_passthrough (traced ops) sf idx meth key)" "quiet (backend_read_resource (traced ops) sf idx uri)"
  "quiet (backend_get_prompt (traced ops) sf idx name arguments)"
  unfolding list_passthrough_def backend_read_resource_def backend_get_prompt_def by (intro quiet)+

lemma quiet_tool_defs [quiet]: "quiet (tool_defs lib sf cat caller exposed)"
proof (induction exposed)
  case (Cons x exposed)
  obtain name tool_id where x: "x = (name, tool_id)" by (cases x)
  show ?case unfolding x by (simp only: tool_defs.simps) (intro quiet Cons.IH)
qed (simp add: quiet_return)

lemma quiet_gather_resources [quiet]: "quiet (gather_resources (traced ops) sf cat caller idxs out)"
proof (induction idxs arbitrary: out)
  case (Cons idx idxs)
  show ?case by (simp only: gather_resources.simps) (intro quiet Cons.IH)
qed (simp add: quiet_return)

lemma quiet_gather_prompts [quiet]: "quiet (gather_prompts (traced ops) sf cat caller idxs)"
proof (induction idxs)
  case (Cons idx idxs)
  show ?case by (simp only: gather_prompts.simps) (intro quiet Cons.IH)
qed (simp add: quiet_return)

lemma quiet_requests [quiet]:
  "quiet (list_tools lib sf caller)" "quiet (list_resources (traced ops) sf caller)" "quiet (read_resource lib (traced ops) sf caller uri)"
  "quiet (list_prompts (traced ops) sf caller)" "quiet (get_prompt (traced ops) sf caller name arguments)"
proof -
  show resources: "quiet (list_resources (traced ops) sf caller)"
    unfolding list_resources_def by (intro quiet) (simp add: learn_routes_def)
  show "quiet (list_tools lib sf caller)" "quiet (list_prompts (traced ops) sf caller)" "quiet (get_prompt (traced ops) sf caller name arguments)"
    unfolding list_tools_def list_prompts_def get_prompt_def by (intro quiet)+
  show "quiet (read_resource lib (traced ops) sf caller uri)"
    unfolding read_resource_def route_of_def by (intro quiet resources)
qed

section \<open>A request to the server\<close>

definition traced_index :: "'w index_ops \<Rightarrow> ('w \<times> sent list) index_ops" where
  "traced_index io = \<lparr>io_busy = (\<lambda>(w, tr). io_busy io w), io_relist = keep_trace (io_relist io), io_expand = io_expand io\<rparr>"

text \<open>What a handler sends, against the catalog it leaves in force.\<close>

definition serving_sends :: "(catalog \<Rightarrow> sent \<Rightarrow> bool) \<Rightarrow> ('w \<times> sent list, 'a) served \<Rightarrow> bool" where
  "serving_sends P m \<longleftrightarrow> (\<forall>fl w tr s a fl' w' tr' s'. run_state m (fl, (w, tr), s) = (a, (fl', (w', tr'), s')) \<longrightarrow>
     (\<exists>new. tr' = tr @ new \<and> list_all (P (ss_catalog s')) new))"

lemma serving_sendsD:
  "serving_sends P m \<Longrightarrow> run_state m (fl, (w, tr), s) = (a, (fl', (w', tr'), s')) \<Longrightarrow> \<exists>new. tr' = tr @ new \<and> list_all (P (ss_catalog s')) new"
  unfolding serving_sends_def by blast

definition silent :: "('w \<times> sent list, 'a) served \<Rightarrow> bool" where
  "silent m \<longleftrightarrow> (\<forall>fl w tr s a fl' w' tr' s'. run_state m (fl, (w, tr), s) = (a, (fl', (w', tr'), s')) \<longrightarrow> tr' = tr)"

lemma sends_silent: "silent m \<Longrightarrow> serving_sends P m"
  unfolding silent_def serving_sends_def by fastforce

lemma silent_bind_sends: "silent m \<Longrightarrow> (\<And>a. serving_sends P (f a)) \<Longrightarrow> serving_sends P (State_Monad.bind m f)"
  unfolding silent_def serving_sends_def State_Monad.bind_def by (auto split: prod.splits) metis

lemma sends_result: "serving_sends P m \<Longrightarrow> serving_sends P (State_Monad.bind m (\<lambda>a. State_Monad.return (g a)))"
  unfolding serving_sends_def State_Monad.bind_def State_Monad.return_def by (auto split: prod.splits)

lemma silent_return: "silent (State_Monad.return a)"
  by (simp add: silent_def State_Monad.return_def)

lemma silent_result: "silent m \<Longrightarrow> silent (State_Monad.bind m (\<lambda>a. State_Monad.return (g a)))"
  unfolding silent_def State_Monad.bind_def State_Monad.return_def by (auto split: prod.splits)

lemma silent_bind: "silent m \<Longrightarrow> (\<And>a. silent (f a)) \<Longrightarrow> silent (State_Monad.bind m f)"
  unfolding silent_def State_Monad.bind_def by (auto split: prod.splits) metis

lemma silent_refresh: "silent (refresh_surface lib (traced ops) (traced_index io) sf)"
  unfolding silent_def refresh_surface_def
  by (auto simp: traced_def traced_index_def split: prod.splits if_splits)

lemma silent_on_surface: "quiet m \<Longrightarrow> silent (on_surface m)"
  by (auto simp: silent_def on_surface_def does_def split: prod.splits)

lemma sends_on_surface: "inside P m \<Longrightarrow> serving_sends P (on_surface m)"
  unfolding inside_def sending_def serving_sends_def on_surface_def does_def
  by (auto split: prod.splits) metis

lemma silent_handlers:
  "silent (serve_list_resources sdk (traced ops) sf caller)" "silent (serve_read_resource sdk lib (traced ops) sf version uri caller)"
  "silent (serve_list_prompts sdk (traced ops) sf caller)" "silent (serve_get_prompt sdk (traced ops) sf name arguments caller)"
  "silent (serve_list_tools sdk lib (traced ops) (traced_index io) sf caller)"
  unfolding serve_list_resources_def serve_read_resource_def serve_list_prompts_def serve_get_prompt_def serve_list_tools_def
  by (intro silent_result silent_bind silent_refresh silent_on_surface quiet_requests)+

lemma call_tool_sends:
  "serving_sends (seen_call sf caller) (serve_call_tool sdk lib (traced ops) (traced_index io) sf name arguments caller)"
  unfolding serve_call_tool_def
  by (intro silent_bind_sends silent_refresh sends_result sends_on_surface scoped.call_inside)

lemma serve_as_sends: "serving_sends (seen_call sf caller) (serve_as sdk lib (traced ops) (traced_index io) sf req caller)"
  by (cases req)
    (simp_all only: serve_as.simps as_response_def, (intro sends_result sends_silent silent_handlers call_tool_sends | rule sends_silent silent_handlers)+)

text \<open>C1: a request reaches only tools its caller may see. Whatever a client asks, in whatever state and whatever the
  world answers, every call that goes to an upstream on its behalf is to a tool of the catalog in force that the scopes
  of its own identity let it see, be it called by name, by id or as a step of a composite, the re-index before the
  request included; and a request without an identity where one is required makes no call.\<close>

theorem requests_contained:
  assumes "run_state (serve sdk lib (traced ops) (traced_index io) sf enforced process req attached) (fl, (w, tr), s) = (r, (fl', (w', tr'), s'))"
  shows "\<exists>new. tr' = tr @ new \<and>
    (\<forall>(idx, name, _) \<in> set new. \<exists>caller tool_id t. handler_caller enforced process attached = Inr caller \<and>
       visible (sf_config sf) caller tool_id \<and> cat_def (ss_catalog s') tool_id = Some t \<and> idx = td_upstream_idx t \<and> name = td_name t)"
proof (cases "handler_caller enforced process attached")
  case (Inl msg)
  with assms show ?thesis by (auto simp: serve_def with_caller_def State_Monad.return_def)
next
  case (Inr caller)
  then have "run_state (serve_as sdk lib (traced ops) (traced_index io) sf req caller) (fl, (w, tr), s) = (r, (fl', (w', tr'), s'))"
    using assms by (simp add: serve_def with_caller_def)
  from serving_sendsD [OF serve_as_sends this]
  obtain new where "tr' = tr @ new" "list_all (seen_call sf caller (ss_catalog s')) new" by blast
  moreover have "(\<exists>caller tool_id t. handler_caller enforced process attached = Inr caller \<and> visible (sf_config sf) caller tool_id \<and>
      cat_def (ss_catalog s') tool_id = Some t \<and> fst x = td_upstream_idx t \<and> fst (snd x) = td_name t)"
    if "seen_call sf caller (ss_catalog s') x" for x
    using that Inr unfolding seen_call_def call_of_def by blast
  ultimately show ?thesis by (intro exI [of _ new]) (auto simp: list_all_iff)
qed

section \<open>A concrete request\<close>

definition unit_sdk :: "(json, json, json, json) sdk" where
  "unit_sdk = \<lparr>sk_tool = Some, sk_new_tool = (\<lambda>n d m. JObj m), sk_resource = Some, sk_prompt = Some, sk_block = Some,
     sk_text_block = JStr, sk_contents = Inr, sk_prompt_result = Inr, sk_modern = (\<lambda>_. False)\<rparr>"

definition idle_index :: "unit index_ops" where
  "idle_index = \<lparr>io_busy = (\<lambda>_. False), io_relist = (\<lambda>w. (\<lambda>_. None, w)), io_expand = Inr\<rparr>"

abbreviation answered_ops :: "unit world_ops" where
  "answered_ops \<equiv> toy_ops (Returned (text_result ''ok'' False) Answered)"

abbreviation call_request :: request where
  "call_request \<equiv> CallTool ''call_tool'' (Some [(''tool_id'', JStr ''a.x'')])"

lemma concrete_call:
  "snd (fst (snd (snd (run_state (serve unit_sdk toy_lib (traced answered_ops) (traced_index idle_index) (toy_surface []) True toy_caller
     call_request (Some toy_caller)) (\<lparr>fl_stale = [False], fl_recheck = [None]\<rparr>, ((), []), toy_state))))) = [(0, ''x'', Answered)]"
proof -
  have refresh: "run_state (refresh_surface toy_lib (traced answered_ops) (traced_index idle_index) (toy_surface []))
      (\<lparr>fl_stale = [False], fl_recheck = [None]\<rparr>, ((), []), toy_state) = (False, (\<lparr>fl_stale = [False], fl_recheck = [None]\<rparr>, ((), []), toy_state))"
    by (simp add: refresh_surface_def toy_ops_simps due_def)
  have "run_state (call toy_lib (traced answered_ops) (toy_surface []) toy_caller ''call_tool'' (JObj [(''tool_id'', JStr ''a.x'')]))
      (((), []), toy_state) = (truncate_result_text json_text (text_result ''ok'' False) agent_result_budget, (((), [(0, ''x'', Answered)]), toy_state\<lparr>ss_used := [''a.x'']\<rparr>))"
    using toy_dispatch [of "[]"]
    by (simp add: call_def call_call_def cli_call_def route_call_def dispatch_def shadow_call_def toy_facts call_arguments_def is_object_def
        wanted_fields_def Let_def jget_def toy_surface_def toy_lib_def)
  then show ?thesis
    by (simp add: serve_def with_caller_def handler_caller_def as_response_def serve_call_tool_def on_surface_def refresh)
qed

theorem requests_contained_witness:
  "case run_state (serve unit_sdk toy_lib (traced answered_ops) (traced_index idle_index) (toy_surface []) True toy_caller
     call_request (Some toy_caller)) (\<lparr>fl_stale = [False], fl_recheck = [None]\<rparr>, ((), []), toy_state) of
   (r, fl, (w, tr), s) \<Rightarrow> tr = [(0, ''x'', Answered)] \<and>
     (\<exists>tool_id t. visible (sf_config (toy_surface [])) toy_caller tool_id \<and> cat_def (ss_catalog s) tool_id = Some t \<and>
        td_upstream_idx t = 0 \<and> td_name t = ''x'')"
proof -
  obtain r fl w tr s where run: "run_state (serve unit_sdk toy_lib (traced answered_ops) (traced_index idle_index) (toy_surface []) True toy_caller
     call_request (Some toy_caller)) (\<lparr>fl_stale = [False], fl_recheck = [None]\<rparr>, ((), []), toy_state) = (r, (fl, (w, tr), s))"
    by (metis prod.exhaust)
  have "tr = [(0, ''x'', Answered)]" using concrete_call unfolding run by simp
  with requests_contained [OF run] run show ?thesis by (auto simp: handler_caller_def)
qed

end
