(* ===== verification/Spec2Isabelle.thy ===== *)
theory Spec2Isabelle
  imports Project Config Gates Breaker RateLimit Names ReadCache Patch Preflight Minify JsonText Results Lint
    AuditChain Generators Redirect Catalog OpenApi Exec Backend Surface Dispatch
    Index Shadow Workflow Calls CallTrace Composites Visibility Reports Resources Auth Identity Modern Stdio HttpClient
    Secrets OAuth Upkeep Serve Startup Cli Contained
begin

text \<open>
  A verification library for min-mcp, a gateway between an MCP client and many upstreams: MCP servers it spawns or
  reaches over HTTP, and OpenAPI documents it turns into tools. It replaces the upstreams' tool listings by three
  meta-tools (search, details, call) or re-exposes them under distinct names, applies overlays, scopes, limits and a
  cache on the way to an upstream, and shapes the results on the way back.

  \<^bold>\<open>How the program runs.\<close> The command line loads a configuration and builds the surface: it connects the enabled
  upstreams, assembles the catalog of their tools and vets it. A request gets a caller from its transport, may first
  re-index upstreams whose tools changed, and is then a run over the surface's state: visibility, rate limits, defaults,
  preflight, cache, breaker, the upstream call, paging, shaping, the audit line. Composite workflows run several calls.

  \<^bold>\<open>Conventions.\<close> A string is a list of UTF-8 bytes. JSON is the value type of \<open>serde_json\<close> with key order (\<open>Json\<close>);
  its printer and parser are parameters, with a round trip as a named hypothesis (\<open>text_round_trip\<close>) that \<open>JsonText\<close>
  provides for a concrete printer and reader. Time is a natural number of nanoseconds, a hash map an association
  list in iteration order, an error the left of a sum with one constructor per failure. Requests run in the state
  monad over the outside world and \<open>surface_state\<close>; what a run asks of the world (clocks, upstream calls, listings, secret
  values) are the fields of \<open>world_ops\<close>, \<open>index_ops\<close> and \<open>boot_ops\<close>, so theorems hold whatever the world answers.
  Third-party code is a parameter: the HTTP and JWT libraries, the jq interpreter, the BM25 engine, HMAC and SHA,
  YAML and URL parsing, Unicode tables, the Vault client, the SDK's typed reading of JSON.

  \<^bold>\<open>The theories, and the code they model\<close> (files under \<open>src/src/\<close>).
  \<^item> \<open>Prelude\<close>, \<open>Json\<close>, \<open>JsonText\<close>: bytes, Rust's string functions, association lists, JSON.
  \<^item> \<open>Gates\<close>: the contracts \<open>attempt_gate\<close> (an attempt at most once per gap) and \<open>bounded_store\<close> (a keyed store that evicts
    at its bound). They are interpreted where the code provides them: the breaker's probes (\<open>Breaker\<close>), the key refresh
    (\<open>Auth\<close>) and the respawn of a child (\<open>Stdio\<close>); the buckets (\<open>RateLimit\<close>), the read cache (\<open>ReadCache\<close>) and the verdicts
    (\<open>Auth\<close>).
  \<^item> \<open>Config\<close> (\<open>config.rs\<close>): all configuration types, validation, loading, filters and scope rules.
  \<^item> \<open>Names\<close> (\<open>caller.rs\<close>, \<open>surface/ids.rs\<close>), \<open>Project\<close> (\<open>project.rs\<close>), \<open>Patch\<close>, \<open>Preflight\<close>, \<open>Minify\<close>, \<open>Results\<close>,
    \<open>Generators\<close>, \<open>Breaker\<close>, \<open>RateLimit\<close>, \<open>ReadCache\<close> (the files of the same name under \<open>surface/\<close>): the parts a call
    passes through. \<open>Minify\<close> states what both minification stages share as the locale \<open>schema_edit\<close>.
  \<^item> \<open>Lint\<close> (\<open>lint.rs\<close>), \<open>Catalog\<close> (\<open>surface/catalog.rs\<close>, \<open>vet\<close>): what is derived from the listings, the checks, re-indexing.
  \<^item> \<open>OpenApi\<close> (\<open>spec.rs\<close>), \<open>Exec\<close> (\<open>exec.rs\<close>), \<open>Redirect\<close> (\<open>redirect.rs\<close>), \<open>Backend\<close> (\<open>backend.rs\<close>): tools from a spec and
    the request of a call.
  \<^item> \<open>Modern\<close> (\<open>modern.rs\<close>, \<open>jsonrpc.rs\<close>), \<open>Stdio\<close> (\<open>upstream.rs\<close>), \<open>HttpClient\<close> (\<open>http_upstream.rs\<close>), \<open>OAuth\<close> (\<open>oauth.rs\<close>),
    \<open>Secrets\<close> (\<open>secrets.rs\<close>): the clients of upstreams and their credentials.
  \<^item> \<open>AuditChain\<close> (\<open>audit_chain.rs\<close>), \<open>Index\<close> (\<open>index.rs\<close>), \<open>Shadow\<close>, \<open>Workflow\<close>, \<open>Resources\<close> (under \<open>surface/\<close>), \<open>Surface\<close>,
    \<open>Dispatch\<close>, \<open>Calls\<close> (\<open>surface.rs\<close>, \<open>surface/dispatch.rs\<close>), \<open>Reports\<close> (\<open>surface/audit.rs\<close>): the surface's state and requests.
  \<^item> \<open>Auth\<close> (\<open>auth.rs\<close>), \<open>Identity\<close>, \<open>Serve\<close> (\<open>rmcp_serve.rs\<close>): who a request is, who gets in, the handlers.
  \<^item> \<open>Startup\<close> (\<open>Surface::build\<close>), \<open>Cli\<close> (\<open>main.rs\<close>).
  \<^item> \<open>CallTrace\<close>, \<open>Composites\<close>, \<open>Visibility\<close>, \<open>Upkeep\<close>, \<open>Contained\<close>: proofs about whole requests, no code of their own.
    \<open>Upkeep\<close> holds the locale \<open>state_invariant\<close>: a property of the state that survives each single update survives every
    request. It is interpreted for the well-formed state and for the catalog in force. \<open>Contained\<close> holds
    \<open>dispatch_contract\<close>, what the meta-tools and composites rely on of a dispatch; the call path provides it for the tools
    a caller may see.

  \<^bold>\<open>What is shown.\<close>
  \<^item> Containment: a request to the server reaches only tools its own caller may see (\<open>Contained\<close>); a dispatch calls no upstream, or exactly the visible tool it names, and says truly how far it got
    (\<open>CallTrace\<close>); what a caller may not see changes no answer (\<open>Visibility\<close>); path parameters cannot leave their segment
    (\<open>Exec\<close>); stripped fields do not reach the agent in any form (\<open>Results\<close>, \<open>Project\<close>); requests do not leave the origin
    (\<open>Redirect\<close>); nobody unidentified is served as the process (\<open>Identity\<close>).
  \<^item> Invariants over all runs: the served catalog is vetted and no announced change is lost (\<open>Catalog\<close>); from the start of
    a server on, its state is well formed at every request (\<open>Startup\<close>, over \<open>Upkeep\<close> and \<open>Serve\<close>); replies reach their own
    request (\<open>Stdio\<close>); bearers, verdicts and Vault values given out are genuine and fresh (\<open>OAuth\<close>, \<open>Auth\<close>, \<open>Secrets\<close>).
  \<^item> Bounds: admitted calls in any window, probes of an open breaker, sizes of stores and results.
  \<^item> Exactness: preflight, projection, near misses, canonical arguments, timestamps and the source-map gate against a
    reference; a configuration loads exactly when it is valid; the schema memo refines afresh resolution.
  \<^item> Round trips and errors: the audit log verifies as written and tampering shows; prompts' names; the advice to re-run a
    composite; re-sent requests.
  \<^item> Where the code does not do what it or a comment says, a lemma proves what it does; they are listed as findings.

  \<^bold>\<open>Bounds and fuel.\<close> Loops of the code with a numeric bound recurse on that bound: the pages of a listing and of a
  paginated call, ten redirects, the budget of nodes and the reference levels of a schema. The search for a free name
  is bounded by the number of candidates that can be taken, and \<open>exposed_names_valid\<close> shows that a name is always found.
  The reader of \<open>JsonText\<close> takes twice the length of its input as fuel, which its round trip shows to be enough. All other
  recursion is structural or has a measure; nothing is partial.

  \<^bold>\<open>Not modelled.\<close> Sockets, TLS and the accept loop (\<open>tls.rs\<close>, \<open>crypto.rs\<close>, the end of \<open>rmcp_serve.rs\<close>): wiring of libraries.
  Locks and the semaphore of calls in flight (\<open>sync.rs\<close>): requests of the surface are sequential in the model, except
  where their interleaving matters and is modelled as steps (\<open>Stdio\<close>, \<open>OAuth\<close>, the key refresh). Logging to
  \<open>stderr\<close> (\<open>logging.rs\<close>). The jq interpreter's binding (\<open>jq.rs\<close>). Argument parsing and the start-up banner of \<open>main.rs\<close>: a
  derive macro and float formatting. A floating-point score or estimate is an exact rational.
\<close>

end
